(* ===== verification/GoPrelude.thy ===== *)
theory GoPrelude
  imports Main "HOL-Library.Sublist" "HOL-Library.Word"
begin

text \<open>
  The prelude of the development: the result type of fallible Go calls, bytes, the
  collections of simplification rules the component proofs share, the run of a step function
  with its invariant rule as a locale, and the generic facts on lists that more than one
  component uses.

  A Go call that returns \<open>(T, error)\<close> is modelled by a value of type \<open>T result\<close>: \<open>Err m\<close> for a
  non-nil error whose message is \<open>m\<close>, \<open>Ok x\<close> for the value. Go strings are \<open>string\<close>, lists of
  bytes read as characters; Go byte slices are \<open>byte list\<close>.
\<close>

section \<open>Results, bytes, rule collections\<close>

type_synonym 'a result = "string + 'a"

type_synonym byte = "8 word"

abbreviation Ok :: "'a \<Rightarrow> 'a result" where
  "Ok \<equiv> Inr"

abbreviation Err :: "string \<Rightarrow> 'a result" where
  "Err \<equiv> Inl"

named_theorems wf_intros \<open>introduction rules for the well-formedness predicates of the components\<close>

named_theorems frame_simps \<open>equations that say which fields an operation leaves alone\<close>

definition is_ok :: "'a result \<Rightarrow> bool" where
  "is_ok r = (case r of Inl _ \<Rightarrow> False | Inr _ \<Rightarrow> True)"

lemma is_ok_simps [simp]: "is_ok (Err m) = False" "is_ok (Ok x) = True"
  by (simp_all add: is_ok_def)

lemma is_ok_iff: "is_ok r \<longleftrightarrow> (\<exists>x. r = Ok x)"
  by (cases r) auto

section \<open>Runs of a step function\<close>

definition run :: "('s \<Rightarrow> 'e \<Rightarrow> 's) \<Rightarrow> 's \<Rightarrow> 'e list \<Rightarrow> 's" where
  "run step s es = foldl step s es"

lemma run_Nil [simp]: "run step s [] = s"
  and run_Cons [simp]: "run step s (e # es) = run step (step s e) es"
  and run_append: "run step s (es @ fs) = run step (run step s es) fs"
  by (simp_all add: run_def)

text \<open>A run each of whose events is admissible in the state it meets.\<close>

fun run_ok :: "('s \<Rightarrow> 'e \<Rightarrow> 's) \<Rightarrow> ('s \<Rightarrow> 'e \<Rightarrow> bool) \<Rightarrow> 's \<Rightarrow> 'e list \<Rightarrow> bool" where
  "run_ok step ok s [] = True"
| "run_ok step ok s (e # es) = (ok s e \<and> run_ok step ok (step s e) es)"

lemma run_ok_True [simp]: "run_ok step (\<lambda>_ _. True) s es"
  by (induction es arbitrary: s) auto

text \<open>The contract every stateful component states once: an invariant each operation keeps.\<close>

locale step_invariant =
  fixes step :: "'s \<Rightarrow> 'e \<Rightarrow> 's"
    and inv :: "'s \<Rightarrow> bool"
    and ok :: "'s \<Rightarrow> 'e \<Rightarrow> bool"
  assumes step_inv: "inv s \<Longrightarrow> ok s e \<Longrightarrow> inv (step s e)"
begin

lemma run_inv: "inv s \<Longrightarrow> run_ok step ok s es \<Longrightarrow> inv (run step s es)"
  by (induction es arbitrary: s) (auto intro: step_inv)

lemma run_inv_every: "inv s \<Longrightarrow> (\<And>s e. ok s e) \<Longrightarrow> inv (run step s es)"
  by (induction es arbitrary: s) (auto intro: step_inv)

end

section \<open>Lists\<close>

text \<open>Go's \<open>appendUnique\<close> loops and \<open>seen\<close> maps keep the first occurrence of each element.\<close>

fun dedup_onto :: "'a list \<Rightarrow> 'a list \<Rightarrow> 'a list" where
  "dedup_onto acc [] = acc"
| "dedup_onto acc (x # xs) = dedup_onto (if x \<in> set acc then acc else acc @ [x]) xs"

lemma set_dedup_onto [simp]: "set (dedup_onto acc xs) = set acc \<union> set xs"
  by (induction acc xs rule: dedup_onto.induct) auto

lemma distinct_dedup_onto: "distinct acc \<Longrightarrow> distinct (dedup_onto acc xs)"
  by (induction acc xs rule: dedup_onto.induct) auto

lemma dedup_onto_distinct:
  "distinct xs \<Longrightarrow> set acc \<inter> set xs = {} \<Longrightarrow> dedup_onto acc xs = acc @ xs"
  by (induction acc xs rule: dedup_onto.induct) auto

lemma dedup_onto_subseq: "\<exists>ys. dedup_onto acc xs = acc @ ys \<and> subseq ys xs"
proof (induction acc xs rule: dedup_onto.induct)
  case (1 acc)
  show ?case by auto
next
  case (2 acc x xs)
  then show ?case
    by (cases "x \<in> set acc") (auto intro: subseq_Cons' exI [where x = "x # _"])
qed

lemma distinct_map_filter_inj:
  "distinct (map f xs) \<Longrightarrow> x \<in> set xs \<Longrightarrow> y \<in> set xs \<Longrightarrow> f x = f y \<Longrightarrow> x = y"
  by (auto simp: distinct_map inj_on_def)

lemma list_all_in_set: "list_all P xs \<Longrightarrow> x \<in> set xs \<Longrightarrow> P x"
  by (auto simp: list_all_iff)

end
