(* ===== verification/GoStrings.thy ===== *)
theory GoStrings
  imports GoPrelude
begin

text \<open>
  The functions of Go's \<open>strings\<close> and \<open>strconv\<close> packages that the daemon calls. A Go string is
  a list of bytes. \<open>strings.ToLower\<close>, \<open>strings.TrimSpace\<close> and \<open>strings.Fields\<close> are modelled on
  ASCII text: a byte above 127 is neither a letter nor a space here, while Go also folds and trims
  the non-ASCII letters and spaces of UTF-8. \<open>int\<close> is Go's 64-bit int of the arm64 build where a
  range matters (\<open>strconv.Atoi\<close>), and unbounded elsewhere.
\<close>

section \<open>Characters\<close>

definition is_space :: "char \<Rightarrow> bool" where
  "is_space c = (let n = (of_char c :: nat) in n = 32 \<or> (9 \<le> n \<and> n \<le> 13))"

definition is_digit :: "char \<Rightarrow> bool" where
  "is_digit c = (let n = (of_char c :: nat) in 48 \<le> n \<and> n \<le> 57)"

definition is_lower :: "char \<Rightarrow> bool" where
  "is_lower c = (let n = (of_char c :: nat) in 97 \<le> n \<and> n \<le> 122)"

definition is_upper :: "char \<Rightarrow> bool" where
  "is_upper c = (let n = (of_char c :: nat) in 65 \<le> n \<and> n \<le> 90)"

definition lower_char :: "char \<Rightarrow> char" where
  "lower_char c = (if is_upper c then char_of ((of_char c :: nat) + 32) else c)"

lemma of_char_lower_char:
  "(of_char (lower_char c) :: nat) = (if is_upper c then of_char c + 32 else of_char c)"
  by (auto simp: lower_char_def is_upper_def Let_def of_char_of)

lemma lower_char_not_upper [simp]: "\<not> is_upper (lower_char c)"
  using of_char_lower_char [of c] by (auto simp: is_upper_def Let_def split: if_splits)

lemma lower_char_idem [simp]: "lower_char (lower_char c) = lower_char c"
  using lower_char_not_upper [of c] by (simp add: lower_char_def [of "lower_char c"])

lemma lower_char_id: "\<not> is_upper c \<Longrightarrow> lower_char c = c"
  by (simp add: lower_char_def)

lemma is_space_lower_char [simp]: "is_space (lower_char c) = is_space c"
  using of_char_lower_char [of c] by (auto simp: is_space_def is_upper_def Let_def)

lemma digit_not_upper: "is_digit c \<Longrightarrow> \<not> is_upper c"
  and lower_not_upper: "is_lower c \<Longrightarrow> \<not> is_upper c"
  and digit_not_space: "is_digit c \<Longrightarrow> \<not> is_space c"
  and lower_not_space: "is_lower c \<Longrightarrow> \<not> is_space c"
  by (auto simp: is_digit_def is_lower_def is_upper_def is_space_def Let_def)

section \<open>The strings package\<close>

definition to_lower :: "string \<Rightarrow> string" where
  "to_lower s = map lower_char s"

definition trim_with :: "(char \<Rightarrow> bool) \<Rightarrow> string \<Rightarrow> string" where
  "trim_with P s = rev (dropWhile P (rev (dropWhile P s)))"

definition trim_space :: "string \<Rightarrow> string" where
  "trim_space s = trim_with is_space s"

definition trim_char :: "char \<Rightarrow> string \<Rightarrow> string" where
  "trim_char c s = trim_with (\<lambda>d. d = c) s"

definition has_prefix :: "string \<Rightarrow> string \<Rightarrow> bool" where
  "has_prefix s p = prefix p s"

definition has_suffix :: "string \<Rightarrow> string \<Rightarrow> bool" where
  "has_suffix s p = suffix p s"

definition str_contains :: "string \<Rightarrow> string \<Rightarrow> bool" where
  "str_contains s sub = sublist sub s"

fun str_index :: "string \<Rightarrow> string \<Rightarrow> nat option" where
  "str_index s sub =
     (if prefix sub s then Some 0
      else case s of [] \<Rightarrow> None | _ # t \<Rightarrow> map_option Suc (str_index t sub))"

declare str_index.simps [simp del]

definition equal_fold :: "string \<Rightarrow> string \<Rightarrow> bool" where
  "equal_fold s t = (to_lower s = to_lower t)"

fun split_on :: "char \<Rightarrow> string \<Rightarrow> string list" where
  "split_on c [] = [[]]"
| "split_on c (x # xs) =
     (if x = c then [] # split_on c xs
      else case split_on c xs of [] \<Rightarrow> [[x]] | w # ws \<Rightarrow> (x # w) # ws)"

function fields_func :: "(char \<Rightarrow> bool) \<Rightarrow> string \<Rightarrow> string list" where
  "fields_func P [] = []"
| "fields_func P (x # xs) =
     (if P x then fields_func P xs
      else (x # takeWhile (\<lambda>c. \<not> P c) xs) # fields_func P (dropWhile (\<lambda>c. \<not> P c) xs))"
  by pat_completeness auto
termination
  by (relation "measure (\<lambda>(P, s). length s)") (auto simp: le_imp_less_Suc length_dropWhile_le)

definition fields :: "string \<Rightarrow> string list" where
  "fields s = fields_func is_space s"

fun str_join :: "string \<Rightarrow> string list \<Rightarrow> string" where
  "str_join sep [] = []"
| "str_join sep [w] = w"
| "str_join sep (w # ws) = w @ sep @ str_join sep ws"

text \<open>\<open>strings.ReplaceAll\<close> for a non-empty pattern, the only use the daemon makes of it.\<close>

fun replace_all :: "string \<Rightarrow> string \<Rightarrow> string \<Rightarrow> string" where
  "replace_all old new [] = []"
| "replace_all old new (x # xs) =
     (if old \<noteq> [] \<and> prefix old (x # xs) then new @ replace_all old new (drop (length old - 1) xs)
      else x # replace_all old new xs)"

declare replace_all.simps [simp del]

lemma replace_all_Nil [simp]: "replace_all old new [] = []"
  by (simp add: replace_all.simps)

definition crlf :: string where
  "crlf = [CHR 0x0D, CHR 0x0A]"

section \<open>The strconv package\<close>

fun nat_dec :: "nat \<Rightarrow> string" where
  "nat_dec n = (if n < 10 then [char_of (48 + n)] else nat_dec (n div 10) @ [char_of (48 + n mod 10)])"

declare nat_dec.simps [simp del]

definition itoa :: "int \<Rightarrow> string" where
  "itoa n = (if n < 0 then CHR ''-'' # nat_dec (nat (- n)) else nat_dec (nat n))"

definition dec_value :: "string \<Rightarrow> nat" where
  "dec_value s = foldl (\<lambda>v c. v * 10 + (of_char c - 48)) 0 s"

definition parse_uint64 :: "string \<Rightarrow> nat option" where
  "parse_uint64 s =
     (if s \<noteq> [] \<and> list_all is_digit s \<and> dec_value s < 2 ^ 64 then Some (dec_value s) else None)"

definition atoi :: "string \<Rightarrow> int option" where
  "atoi s =
     (let neg = (s \<noteq> [] \<and> hd s = CHR ''-'');
          d = (if s \<noteq> [] \<and> (hd s = CHR ''-'' \<or> hd s = CHR ''+'') then tl s else s)
      in if d = [] \<or> \<not> list_all is_digit d then None
         else let v = int (dec_value d) in
           if neg then (if v \<le> 2 ^ 63 then Some (- v) else None)
           else (if v < 2 ^ 63 then Some v else None))"

text \<open>\<open>%q\<close> of a string, on ASCII text (Go prints printable UTF-8 runes as they are).\<close>

definition hex_char :: "nat \<Rightarrow> char" where
  "hex_char d = (if d < 10 then char_of (48 + d) else char_of (87 + d))"

definition quote_char :: "char \<Rightarrow> string" where
  "quote_char c =
     (let n = (of_char c :: nat) in
      if n = 34 \<or> n = 92 then [CHR 0x5C, c]
      else if n = 7 then [CHR 0x5C, CHR ''a''] else if n = 8 then [CHR 0x5C, CHR ''b'']
      else if n = 12 then [CHR 0x5C, CHR ''f''] else if n = 10 then [CHR 0x5C, CHR ''n'']
      else if n = 13 then [CHR 0x5C, CHR ''r''] else if n = 9 then [CHR 0x5C, CHR ''t'']
      else if n = 11 then [CHR 0x5C, CHR ''v'']
      else if 32 \<le> n \<and> n < 127 then [c]
      else [CHR 0x5C, CHR ''x'', hex_char (n div 16), hex_char (n mod 16)])"

definition go_quote :: "string \<Rightarrow> string" where
  "go_quote s = [CHR 0x22] @ concat (map quote_char s) @ [CHR 0x22]"

text \<open>\<open>%v\<close> of a slice of integers.\<close>

definition show_ints :: "int list \<Rightarrow> string" where
  "show_ints xs = ''['' @ str_join '' '' (map itoa xs) @ '']''"

section \<open>Facts about trimming\<close>

lemma list_all_takeWhile [simp]: "list_all P (takeWhile P xs)"
  by (induction xs) auto

lemma trim_with_decomp:
  "\<exists>a b. s = a @ trim_with P s @ b \<and> list_all P a \<and> list_all P b"
proof -
  let ?t = "dropWhile P s"
  have 1: "s = takeWhile P s @ ?t" by simp
  have "rev ?t = takeWhile P (rev ?t) @ dropWhile P (rev ?t)" by simp
  then have "?t = trim_with P s @ rev (takeWhile P (rev ?t))"
    unfolding trim_with_def by (metis rev_append rev_rev_ident)
  with 1 have "s = takeWhile P s @ trim_with P s @ rev (takeWhile P (rev ?t))" by simp
  moreover have "list_all P (takeWhile P s)" "list_all P (rev (takeWhile P (rev ?t)))"
    by (simp only: list.pred_set set_rev, meson set_takeWhileD)+
  ultimately show ?thesis by blast
qed

lemma set_trim_with: "set (trim_with P s) \<subseteq> set s"
  using trim_with_decomp [of s P] by (metis Un_iff set_append subsetI)

lemma hd_trim_with: "trim_with P s \<noteq> [] \<Longrightarrow> \<not> P (hd (trim_with P s))"
proof -
  assume a: "trim_with P s \<noteq> []"
  let ?t = "dropWhile P s"
  have t: "?t \<noteq> []" using a by (metis dropWhile.simps(1) rev.simps(1) trim_with_def)
  have "\<not> P (hd ?t)" using t by (rule hd_dropWhile)
  moreover have "hd (trim_with P s) = hd ?t"
  proof -
    have "prefix (trim_with P s) ?t"
      by (metis prefixI rev_append rev_rev_ident takeWhile_dropWhile_id trim_with_def)
    with a show ?thesis by (metis hd_append2 prefixE)
  qed
  ultimately show ?thesis by simp
qed

lemma last_trim_with: "trim_with P s \<noteq> [] \<Longrightarrow> \<not> P (last (trim_with P s))"
  by (metis hd_dropWhile last_rev rev_is_Nil_conv trim_with_def)

lemma trim_with_id: "s = [] \<or> \<not> P (hd s) \<and> \<not> P (last s) \<Longrightarrow> trim_with P s = s"
  by (metis dropWhile_eq_self_iff hd_rev rev_is_Nil_conv rev_rev_ident trim_with_def)

lemma trim_with_idem [simp]: "trim_with P (trim_with P s) = trim_with P s"
  by (rule trim_with_id) (auto dest: hd_trim_with last_trim_with)

lemma trim_with_Nil [simp]: "trim_with P [] = []"
  by (simp add: trim_with_def)

lemma trim_space_idem [simp]: "trim_space (trim_space s) = trim_space s"
  by (simp add: trim_space_def)

lemma trim_char_idem [simp]: "trim_char c (trim_char c s) = trim_char c s"
  by (simp add: trim_char_def)

lemma trim_space_id: "list_all (\<lambda>c. \<not> is_space c) s \<Longrightarrow> trim_space s = s"
  by (cases "s = []") (auto simp: trim_space_def list_all_iff intro!: trim_with_id)

lemma trim_space_Nil [simp]: "trim_space [] = []"
  by (simp add: trim_space_def)

lemma trim_space_nonempty: "trim_space s \<noteq> [] \<Longrightarrow> s \<noteq> []"
  by auto

lemma to_lower_idem [simp]: "to_lower (to_lower s) = to_lower s"
  by (simp add: to_lower_def)

lemma to_lower_Nil [simp]: "to_lower [] = []"
  by (simp add: to_lower_def)

lemma trim_with_map:
  "(\<And>c. P (f c) = P c) \<Longrightarrow> trim_with P (map f s) = map f (trim_with P s)"
  by (simp add: trim_with_def dropWhile_map rev_map comp_def)

lemma trim_space_to_lower: "trim_space (to_lower s) = to_lower (trim_space s)"
  by (simp add: trim_space_def to_lower_def trim_with_map)

section \<open>Facts about searching\<close>

lemma str_index_Some_0: "prefix sub s \<Longrightarrow> str_index s sub = Some 0"
  by (subst str_index.simps) simp

lemma str_index_correct:
  "str_index s sub = Some i \<Longrightarrow> i \<le> length s \<and> prefix sub (drop i s) \<and> (\<forall>j<i. \<not> prefix sub (drop j s))"
proof (induction s arbitrary: i)
  case Nil
  then show ?case by (subst (asm) str_index.simps) (auto split: if_splits)
next
  case (Cons x xs)
  show ?case
  proof (cases "prefix sub (x # xs)")
    case True
    then show ?thesis using Cons.prems by (simp add: str_index_Some_0)
  next
    case False
    with Cons.prems obtain k where k: "i = Suc k" "str_index xs sub = Some k"
      by (subst (asm) str_index.simps) auto
    with Cons.IH [of k] False show ?thesis by (auto simp: less_Suc_eq_0_disj)
  qed
qed

lemma str_index_None: "str_index s sub = None \<longleftrightarrow> \<not> sublist sub s"
proof (induction s)
  case Nil
  then show ?case by (subst str_index.simps) (auto simp: sublist_def)
next
  case (Cons x xs)
  then show ?case by (subst str_index.simps) (auto simp: sublist_Cons_right)
qed

lemma str_contains_index: "str_contains s sub \<longleftrightarrow> str_index s sub \<noteq> None"
  by (simp add: str_contains_def str_index_None)

section \<open>Facts about splitting and joining\<close>

lemma split_on_ne [simp]: "split_on c s \<noteq> []"
  by (induction s) (auto split: list.splits)

lemma split_on_no_sep: "w \<in> set (split_on c s) \<Longrightarrow> c \<notin> set w"
  by (induction s arbitrary: w) (auto split: if_splits list.splits)

lemma join_split_on: "str_join [c] (split_on c s) = s"
proof (induction s)
  case Nil
  show ?case by simp
next
  case (Cons x xs)
  then show ?case by (cases "split_on c xs"; cases "tl (split_on c xs)") auto
qed

lemma split_on_no: "c \<notin> set s \<Longrightarrow> split_on c s = [s]"
  by (induction s) auto

lemma split_on_append_sep: "c \<notin> set w \<Longrightarrow> split_on c (w @ c # t) = w # split_on c t"
  by (induction w) auto

lemma split_on_join:
  "ws \<noteq> [] \<Longrightarrow> (\<forall>w\<in>set ws. c \<notin> set w) \<Longrightarrow> split_on c (str_join [c] ws) = ws"
proof (induction ws)
  case Nil
  then show ?case by simp
next
  case (Cons w ws)
  then show ?case by (cases ws) (auto simp: split_on_no split_on_append_sep)
qed

section \<open>Decimal rendering\<close>

lemma nat_dec_ne [simp]: "nat_dec n \<noteq> []"
  by (subst nat_dec.simps) simp

lemma of_char_dec_digit: "d < 10 \<Longrightarrow> (of_char (char_of (48 + d) :: char) :: nat) = 48 + d"
  by (simp add: of_char_of)

lemma nat_dec_digits: "list_all is_digit (nat_dec n)"
proof (induction n rule: nat_dec.induct)
  case (1 n)
  show ?case
  proof (cases "n < 10")
    case True
    then show ?thesis
      by (subst nat_dec.simps) (simp add: is_digit_def Let_def of_char_dec_digit)
  next
    case False
    have "n mod 10 < 10" by simp
    then have "is_digit (char_of (48 + n mod 10))"
      by (simp add: is_digit_def of_char_dec_digit del: of_char_of)
    with False 1 show ?thesis by (subst nat_dec.simps) simp
  qed
qed

lemma dec_value_append: "dec_value (s @ [c]) = dec_value s * 10 + (of_char c - 48)"
  by (simp add: dec_value_def)

lemma dec_value_nat_dec [simp]: "dec_value (nat_dec n) = n"
proof (induction n rule: nat_dec.induct)
  case (1 n)
  show ?case
  proof (cases "n < 10")
    case True
    then show ?thesis by (subst nat_dec.simps) (simp add: dec_value_def of_char_dec_digit)
  next
    case False
    with 1 show ?thesis
      by (subst nat_dec.simps) (simp add: dec_value_append of_char_dec_digit)
  qed
qed

lemma nat_dec_inject [simp]: "nat_dec m = nat_dec n \<longleftrightarrow> m = n"
  by (metis dec_value_nat_dec)

lemma parse_uint64_nat_dec: "n < 2 ^ 64 \<Longrightarrow> parse_uint64 (nat_dec n) = Some n"
  by (simp add: parse_uint64_def nat_dec_digits)

lemma nat_dec_chars: "c \<in> set (nat_dec n) \<Longrightarrow> is_digit c"
  using nat_dec_digits by (auto simp: list_all_iff)

lemma itoa_nonneg: "0 \<le> n \<Longrightarrow> itoa n = nat_dec (nat n)"
  by (simp add: itoa_def)

lemma digit_hd_nat_dec: "is_digit (hd (nat_dec n))"
  by (meson hd_in_set nat_dec_chars nat_dec_ne)

lemma dash_not_digit: "\<not> is_digit (CHR ''-'')" and plus_not_digit: "\<not> is_digit (CHR ''+'')"
  and colon_not_digit: "\<not> is_digit (CHR '':'')"
  by (simp_all add: is_digit_def)

lemma atoi_itoa: "- (2 ^ 63) \<le> n \<Longrightarrow> n < 2 ^ 63 \<Longrightarrow> atoi (itoa n) = Some n"
proof (cases "n < 0")
  case True
  assume "- (2 ^ 63) \<le> n"
  with True show ?thesis
    by (simp add: itoa_def atoi_def Let_def nat_dec_digits)
next
  case False
  assume "n < 2 ^ 63"
  moreover have "hd (nat_dec (nat n)) \<noteq> CHR ''-''" "hd (nat_dec (nat n)) \<noteq> CHR ''+''"
    using digit_hd_nat_dec dash_not_digit plus_not_digit by metis+
  ultimately show ?thesis using False
    by (simp add: itoa_def atoi_def Let_def nat_dec_digits)
qed

lemma itoa_inject: "0 \<le> m \<Longrightarrow> 0 \<le> n \<Longrightarrow> itoa m = itoa n \<longleftrightarrow> m = n"
  by (auto simp: itoa_nonneg)

end
