(* ===== verification/GoNet.thy ===== *)
theory GoNet
  imports GoStrings
begin

unbundle bit_operations_syntax

text \<open>
  The functions of Go's \<open>net\<close> package that the daemon calls on addresses: \<open>SplitHostPort\<close>,
  \<open>JoinHostPort\<close>, \<open>ParseIP\<close>, \<open>IP.To4\<close>, \<open>IP.String\<close> and the classifications of \<open>net.IP\<close>. An \<open>ip\<close> is
  the byte slice behind \<open>net.IP\<close>; \<open>ParseIP\<close> and \<open>net.IPv4\<close> produce the 16-byte form.
\<close>

section \<open>Host and port\<close>

definition join_host_port :: "string \<Rightarrow> string \<Rightarrow> string" where
  "join_host_port host port =
     (if CHR '':'' \<in> set host then ''['' @ host @ '']:'' @ port else host @ '':'' @ port)"

text \<open>Everything before and after the last occurrence of a character.\<close>

fun split_last :: "char \<Rightarrow> string \<Rightarrow> (string \<times> string) option" where
  "split_last c [] = None"
| "split_last c (x # xs) =
     (case split_last c xs of Some (a, b) \<Rightarrow> Some (x # a, b)
      | None \<Rightarrow> if x = c then Some ([], xs) else None)"

definition split_host_port :: "string \<Rightarrow> (string \<times> string) result" where
  "split_host_port hp =
     (case split_last (CHR '':'') hp of
        None \<Rightarrow> Err (''address '' @ hp @ '': missing port in address'')
      | Some (front, port) \<Rightarrow>
          if hd hp = CHR ''['' then
            (let host = takeWhile (\<lambda>c. c \<noteq> CHR '']'') (tl hp);
                 rest = drop (Suc (length host)) hp
             in if rest = [] then Err (''address '' @ hp @ '': missing ']' in address'')
                else if tl rest = [] then Err (''address '' @ hp @ '': missing port in address'')
                else if length front = length host + 2 then
                  (if CHR ''['' \<in> set (tl hp) then Err (''address '' @ hp @ '': unexpected '['' @ [CHR 0x27] @ '' in address'')
                   else if CHR '']'' \<in> set (tl rest) then Err (''address '' @ hp @ '': unexpected ']'' @ [CHR 0x27] @ '' in address'')
                   else Ok (host, port))
                else if hd (tl rest) = CHR '':'' then Err (''address '' @ hp @ '': too many colons in address'')
                else Err (''address '' @ hp @ '': missing port in address''))
          else if CHR '':'' \<in> set front then Err (''address '' @ hp @ '': too many colons in address'')
          else if CHR ''['' \<in> set hp then Err (''address '' @ hp @ '': unexpected '['' @ [CHR 0x27] @ '' in address'')
          else if CHR '']'' \<in> set hp then Err (''address '' @ hp @ '': unexpected ']'' @ [CHR 0x27] @ '' in address'')
          else Ok (front, port))"

section \<open>IP addresses\<close>

type_synonym ip = "byte list"

definition ipv4 :: "byte \<Rightarrow> byte \<Rightarrow> byte \<Rightarrow> byte \<Rightarrow> ip" where
  "ipv4 a b c d = replicate 10 0 @ [255, 255, a, b, c, d]"

definition to4 :: "ip \<Rightarrow> byte list option" where
  "to4 p = (if length p = 4 then Some p
            else if length p = 16 \<and> take 12 p = replicate 10 0 @ [255, 255] then Some (drop 12 p)
            else None)"

definition parse_octet :: "string \<Rightarrow> byte option" where
  "parse_octet s =
     (if s \<noteq> [] \<and> list_all is_digit s \<and> (hd s \<noteq> CHR ''0'' \<or> length s = 1) \<and> dec_value s \<le> 255
      then Some (of_nat (dec_value s)) else None)"

definition parse_ipv4 :: "string \<Rightarrow> byte list option" where
  "parse_ipv4 s =
     (case map parse_octet (split_on (CHR ''.'') s) of
        [Some a, Some b, Some c, Some d] \<Rightarrow> Some [a, b, c, d]
      | _ \<Rightarrow> None)"

definition hex_value :: "char \<Rightarrow> nat option" where
  "hex_value c = (let n = (of_char c :: nat) in
     if 48 \<le> n \<and> n \<le> 57 then Some (n - 48)
     else if 97 \<le> n \<and> n \<le> 102 then Some (n - 87)
     else if 65 \<le> n \<and> n \<le> 70 then Some (n - 55) else None)"

fun hex_number :: "nat \<Rightarrow> string \<Rightarrow> nat option" where
  "hex_number acc [] = Some acc"
| "hex_number acc (c # cs) =
     (case hex_value c of None \<Rightarrow> None | Some d \<Rightarrow> hex_number (16 * acc + d) cs)"

text \<open>One colon-separated field: one to four hex digits, two bytes.\<close>

definition hex_group :: "string \<Rightarrow> byte list option" where
  "hex_group s =
     (if s = [] \<or> 4 < length s then None
      else map_option (\<lambda>n. [of_nat (n div 256), of_nat (n mod 256)]) (hex_number 0 s))"

fun hex_groups :: "string list \<Rightarrow> byte list option" where
  "hex_groups [] = Some []"
| "hex_groups (f # fs) =
     (case hex_group f of None \<Rightarrow> None | Some b \<Rightarrow> map_option ((@) b) (hex_groups fs))"

text \<open>The fields after the last ellipsis: the last one may be a dotted IPv4 address.\<close>

fun hex_groups_v4 :: "string list \<Rightarrow> byte list option" where
  "hex_groups_v4 [] = Some []"
| "hex_groups_v4 [f] = (if CHR ''.'' \<in> set f then parse_ipv4 f else hex_group f)"
| "hex_groups_v4 (f # fs) =
     (case hex_group f of None \<Rightarrow> None | Some b \<Rightarrow> map_option ((@) b) (hex_groups_v4 fs))"

definition colon_fields :: "string \<Rightarrow> string list" where
  "colon_fields s = (if s = [] then [] else split_on (CHR '':'') s)"

definition parse_ipv6 :: "string \<Rightarrow> ip option" where
  "parse_ipv6 s =
     (if CHR ''%'' \<in> set s then None
      else case str_index s ''::'' of
        None \<Rightarrow> (case hex_groups_v4 (colon_fields s) of
                  Some bs \<Rightarrow> if length bs = 16 then Some bs else None
                | None \<Rightarrow> None)
      | Some i \<Rightarrow>
          (case (hex_groups (colon_fields (take i s)), hex_groups_v4 (colon_fields (drop (i + 2) s))) of
             (Some a, Some b) \<Rightarrow>
               if length a + length b < 16 then Some (a @ replicate (16 - length a - length b) 0 @ b)
               else None
           | _ \<Rightarrow> None))"

definition parse_ip :: "string \<Rightarrow> ip option" where
  "parse_ip s =
     (case dropWhile (\<lambda>c. c \<notin> {CHR ''.'', CHR '':'', CHR ''%''}) s of
        [] \<Rightarrow> None
      | c # _ \<Rightarrow>
          if c = CHR ''.'' then
            (case parse_ipv4 s of Some [a, b, c, d] \<Rightarrow> Some (ipv4 a b c d) | _ \<Rightarrow> None)
          else if c = CHR '':'' then parse_ipv6 s
          else None)"

definition v4_string :: "byte list \<Rightarrow> string" where
  "v4_string bs = str_join ''.'' (map (nat_dec \<circ> unat) bs)"

definition hex_digit :: "nat \<Rightarrow> char" where
  "hex_digit d = (if d < 10 then char_of (48 + d) else char_of (87 + d))"

fun hex_string :: "nat \<Rightarrow> string" where
  "hex_string n = (if n < 16 then [hex_digit n] else hex_string (n div 16) @ [hex_digit (n mod 16)])"

declare hex_string.simps [simp del]

fun group_values :: "byte list \<Rightarrow> nat list" where
  "group_values (a # b # bs) = (256 * unat a + unat b) # group_values bs"
| "group_values _ = []"

definition zero_run :: "nat list \<Rightarrow> nat \<Rightarrow> nat" where
  "zero_run gs i = length (takeWhile (\<lambda>g. g = 0) (drop i gs))"

text \<open>The first longest run of at least two zero groups, as \<open>(start, length)\<close>.\<close>

definition longest_zero_run :: "nat list \<Rightarrow> (nat \<times> nat) option" where
  "longest_zero_run gs =
     fold (\<lambda>i best. if 2 \<le> zero_run gs i \<and> (case best of None \<Rightarrow> True | Some (_, l) \<Rightarrow> l < zero_run gs i)
                    then Some (i, zero_run gs i) else best) [0..<8] None"

definition v6_string :: "byte list \<Rightarrow> string" where
  "v6_string bs =
     (let gs = group_values bs in
      case longest_zero_run gs of
        None \<Rightarrow> str_join '':'' (map hex_string gs)
      | Some (i, l) \<Rightarrow> str_join '':'' (map hex_string (take i gs)) @ ''::'' @
                       str_join '':'' (map hex_string (drop (i + l) gs)))"

definition ip_string :: "ip \<Rightarrow> string" where
  "ip_string p = (case to4 p of Some q \<Rightarrow> v4_string q | None \<Rightarrow> v6_string p)"

definition is_loopback :: "ip \<Rightarrow> bool" where
  "is_loopback p = (case to4 p of Some q \<Rightarrow> hd q = 127 | None \<Rightarrow> p = replicate 15 0 @ [1])"

definition is_unspecified :: "ip \<Rightarrow> bool" where
  "is_unspecified p = (to4 p = Some [0, 0, 0, 0] \<or> p = replicate 16 0)"

definition is_multicast :: "ip \<Rightarrow> bool" where
  "is_multicast p = (case to4 p of Some q \<Rightarrow> hd q AND 0xF0 = 0xE0 | None \<Rightarrow> p \<noteq> [] \<and> hd p = 0xFF)"

section \<open>Facts about host and port\<close>

lemma split_last_None: "split_last c s = None \<longleftrightarrow> c \<notin> set s"
  by (induction s) (auto split: option.splits)

lemma split_last_append: "c \<notin> set b \<Longrightarrow> split_last c (a @ c # b) = Some (a, b)"
proof (induction a)
  case Nil
  assume "c \<notin> set b"
  then have "split_last c b = None" by (simp add: split_last_None)
  then show ?case by simp
qed simp

lemma split_last_Some: "split_last c s = Some (a, b) \<Longrightarrow> s = a @ c # b \<and> c \<notin> set b"
  by (induction s arbitrary: a b) (auto simp: split_last_None split: option.splits if_splits)

definition plain_host :: "string \<Rightarrow> bool" where
  "plain_host h = (CHR ''['' \<notin> set h \<and> CHR '']'' \<notin> set h)"

definition plain_port :: "string \<Rightarrow> bool" where
  "plain_port p = (CHR '':'' \<notin> set p \<and> CHR ''['' \<notin> set p \<and> CHR '']'' \<notin> set p)"

lemma takeWhile_upto: "c \<notin> set a \<Longrightarrow> takeWhile (\<lambda>d. d \<noteq> c) (a @ c # b) = a"
  by (induction a) auto

lemma split_join_host_port:
  assumes "plain_host h" "plain_port p"
  shows "split_host_port (join_host_port h p) = Ok (h, p)"
proof (cases "CHR '':'' \<in> set h")
  case True
  let ?hp = "''['' @ h @ '']'' @ CHR '':'' # p"
  have s: "split_last (CHR '':'') ?hp = Some (''['' @ h @ '']'', p)"
    using assms split_last_append [of "CHR '':''" p "''['' @ h @ '']''"] by (simp add: plain_port_def)
  have t: "takeWhile (\<lambda>c. c \<noteq> CHR '']'') (tl ?hp) = h"
    using assms takeWhile_upto [of "CHR '']''" h] by (simp add: plain_host_def)
  show ?thesis using True assms s t
    by (simp add: join_host_port_def split_host_port_def Let_def plain_host_def plain_port_def)
next
  case False
  have "split_last (CHR '':'') (h @ CHR '':'' # p) = Some (h, p)"
    using assms by (simp add: split_last_append plain_port_def)
  moreover have "hd (h @ CHR '':'' # p) \<noteq> CHR ''[''"
    using assms by (cases h) (auto simp: plain_host_def)
  ultimately show ?thesis using False assms
    by (simp add: join_host_port_def split_host_port_def plain_host_def plain_port_def)
qed

lemma plain_port_nat_dec [simp]: "plain_port (nat_dec n)"
proof -
  have "\<not> is_digit (CHR '':'')" "\<not> is_digit (CHR ''['')" "\<not> is_digit (CHR '']'')"
    by (simp_all add: is_digit_def)
  then show ?thesis unfolding plain_port_def using nat_dec_chars by metis
qed

lemma plain_port_itoa [simp]: "0 \<le> n \<Longrightarrow> plain_port (itoa n)"
  by (simp add: itoa_nonneg)

section \<open>Facts about addresses\<close>

lemma to4_ipv4 [simp]: "to4 (ipv4 a b c d) = Some [a, b, c, d]"
  by (simp add: to4_def ipv4_def)

lemma length_ipv4 [simp]: "length (ipv4 a b c d) = 16"
  by (simp add: ipv4_def)

lemma to4_zero16 [simp]: "to4 (replicate 16 0) = None"
proof -
  have "take 12 (replicate 16 (0::byte)) ! 10 = 0" by simp
  moreover have "(replicate 10 0 @ [255, 255]) ! 10 = (255::byte)" by (simp add: nth_append)
  moreover have "(255::byte) \<noteq> 0" by simp
  ultimately have "take 12 (replicate 16 (0::byte)) \<noteq> replicate 10 0 @ [255, 255]" by metis
  then show ?thesis by (simp add: to4_def)
qed

lemma split_on_octets:
  "split_on (CHR ''.'') (v4_string [a, b, c, d]) =
     [nat_dec (unat a), nat_dec (unat b), nat_dec (unat c), nat_dec (unat d)]"
proof -
  have "CHR ''.'' \<notin> set (nat_dec n)" for n
    using nat_dec_chars [of "CHR ''.''" n] by (auto simp: is_digit_def)
  then show ?thesis unfolding v4_string_def
    using split_on_join [of "map (nat_dec \<circ> unat) [a, b, c, d]" "CHR ''.''"] by simp
qed

lemma hd_nat_dec_zero: "hd (nat_dec n) = CHR ''0'' \<Longrightarrow> n = 0"
proof (induction n rule: nat_dec.induct)
  case (1 n)
  show ?case
  proof (cases "n < 10")
    case True
    then have "hd (nat_dec n) = char_of (48 + n)" by (subst nat_dec.simps) simp
    with 1(2) have "(of_char (char_of (48 + n) :: char) :: nat) = of_char (CHR ''0'')" by simp
    with True show ?thesis by simp
  next
    case False
    then have "hd (nat_dec n) = hd (nat_dec (n div 10))" by (subst nat_dec.simps) simp
    with 1 False have "n div 10 = 0" by simp
    with False show ?thesis by simp
  qed
qed

lemma parse_octet_nat_dec: "n \<le> 255 \<Longrightarrow> parse_octet (nat_dec n) = Some (of_nat n)"
proof -
  assume n: "n \<le> 255"
  have "hd (nat_dec n) \<noteq> CHR ''0'' \<or> length (nat_dec n) = 1"
  proof (cases "hd (nat_dec n) = CHR ''0''")
    case True
    then have "n = 0" by (rule hd_nat_dec_zero)
    then have "length (nat_dec n) = 1" by (simp add: nat_dec.simps [of 0])
    then show ?thesis ..
  qed simp
  then show ?thesis using n by (simp add: parse_octet_def nat_dec_digits)
qed

lemma unat_byte_le [simp]: "unat (b :: byte) \<le> 255"
  using unsigned_less [of b, where ?'a = nat] by simp

lemma parse_ipv4_string: "parse_ipv4 (v4_string [a, b, c, d]) = Some [a, b, c, d]"
  by (simp add: parse_ipv4_def split_on_octets parse_octet_nat_dec)

lemma v4_string_first_dot:
  "\<exists>t. dropWhile (\<lambda>c. c \<notin> {CHR ''.'', CHR '':'', CHR ''%''}) (v4_string [a, b, c, d]) = CHR ''.'' # t"
proof -
  have n: "list_all (\<lambda>c. c \<notin> {CHR ''.'', CHR '':'', CHR ''%''}) (nat_dec (unat a))"
    using nat_dec_chars by (fastforce simp: list_all_iff is_digit_def)
  have "v4_string [a, b, c, d] =
      nat_dec (unat a) @ CHR ''.'' # str_join ''.'' (map (nat_dec \<circ> unat) [b, c, d])"
    by (simp add: v4_string_def)
  with n show ?thesis by (simp add: dropWhile_append3 list_all_iff dropWhile_append)
qed

lemma parse_ip_v4_string [simp]: "parse_ip (v4_string [a, b, c, d]) = Some (ipv4 a b c d)"
  using v4_string_first_dot [of a b c d] by (auto simp: parse_ip_def parse_ipv4_string)

lemma to4_length: "to4 p = Some q \<Longrightarrow> length q = 4"
  by (auto simp: to4_def split: if_splits)

lemma length4_cases: "length q = 4 \<Longrightarrow> \<exists>a b c d. q = [a, b, c, d]"
  by (auto simp: numeral_eq_Suc length_Suc_conv)

text \<open>An address that has an IPv4 form prints to text that parses to the same IPv4 address.\<close>

lemma parse_ip_string_v4:
  assumes "to4 p = Some q"
  shows "\<exists>r. parse_ip (ip_string p) = Some r \<and> to4 r = Some q \<and> ip_string r = ip_string p"
proof -
  from assms obtain a b c d where q: "q = [a, b, c, d]"
    using to4_length length4_cases by blast
  then have "parse_ip (ip_string p) = Some (ipv4 a b c d)" using assms by (simp add: ip_string_def)
  then show ?thesis using assms q by (auto simp: ip_string_def)
qed

lemma v4_string_chars: "c \<in> set (v4_string bs) \<Longrightarrow> is_digit c \<or> c = CHR ''.''"
proof -
  have "c \<in> set (str_join ''.'' ws) \<Longrightarrow> (\<exists>w\<in>set ws. c \<in> set w) \<or> c = CHR ''.''" for ws
    by (induction "''.''" ws rule: str_join.induct) auto
  then show "c \<in> set (v4_string bs) \<Longrightarrow> is_digit c \<or> c = CHR ''.''"
    unfolding v4_string_def using nat_dec_chars by fastforce
qed

lemma trim_space_v4_string [simp]: "trim_space (v4_string bs) = v4_string bs"
proof (rule trim_space_id)
  have "\<not> is_space (CHR ''.'')" by (simp add: is_space_def)
  then have "\<not> is_space c" if "c \<in> set (v4_string bs)" for c
    using v4_string_chars [OF that] digit_not_space by blast
  then show "list_all (\<lambda>c. \<not> is_space c) (v4_string bs)" by (simp add: list_all_iff)
qed

end
