(* ===== verification/Dnsx.thy ===== *)
theory Dnsx
  imports GoNet "HOL-Library.AList" "HOL-Library.Multiset"
begin

text \<open>
  The hostname resolver, package \<open>internal/dnsx\<close> (\<open>dnsx.go\<close>): the server list, the five-minute
  host cache with its bound of 2000 entries, the Android property cache, the parallel direct DNS
  query, the shell fallbacks and the helpers on IPv4 lists.

  A Go map is an association list whose order is the order in which \<open>range\<close> visits it, so what is
  proved for every list holds for every iteration order. Times are nanoseconds as \<open>int\<close>. What the
  platform answers (\<open>getprop\<close>, DNS servers, shell tools, the order in which the parallel answers
  arrive) is the record \<open>dns_env\<close>, a parameter of the definitions.
\<close>

section \<open>Server lists\<close>

definition normalize_server :: "string \<Rightarrow> string option" where
  "normalize_server s =
     (let s = trim_space s in
      if s = [] then None
      else Some (case split_host_port s of Inl _ \<Rightarrow> join_host_port s ''53'' | Inr _ \<Rightarrow> s))"

definition normalize_servers :: "string list \<Rightarrow> string list" where
  "normalize_servers xs = dedup_onto [] (List.map_filter normalize_server xs)"

section \<open>IPv4 lists\<close>

text \<open>The text of the address \<open>f\<close> denotes, when it parses and has an IPv4 form.\<close>

definition canonical_v4 :: "string \<Rightarrow> string option" where
  "canonical_v4 f =
     (case parse_ip f of None \<Rightarrow> None
      | Some ip \<Rightarrow> (case to4 ip of None \<Rightarrow> None | Some _ \<Rightarrow> Some (ip_string ip)))"

definition extract_ipv4s :: "string \<Rightarrow> string list" where
  "extract_ipv4s s =
     dedup_onto [] (List.map_filter canonical_v4 (fields_func (\<lambda>c. \<not> (c = CHR ''.'' \<or> is_digit c)) s))"

definition sanitize_ipv4_list :: "string list \<Rightarrow> string list" where
  "sanitize_ipv4_list xs = dedup_onto [] (List.map_filter (\<lambda>s. canonical_v4 (trim_space s)) xs)"

definition rotate_ips :: "nat \<Rightarrow> string list \<Rightarrow> string list" where
  "rotate_ips nano xs =
     (if length xs \<le> 1 then xs
      else let off = nano mod length xs in drop off xs @ take off xs)"

section \<open>The host cache\<close>

record dns_config =
  dc_mode :: string
  dc_servers :: "string list"
  dc_timeout :: int

record cache_entry =
  ce_ips :: "string list"
  ce_method :: string
  ce_expires :: int

type_synonym host_cache = "(string \<times> cache_entry) list"

definition minute :: int where
  "minute = 60 * 1000000000"

definition cache_key :: "dns_config \<Rightarrow> string \<Rightarrow> string" where
  "cache_key cfg host =
     dc_mode cfg @ ''|'' @ str_join '','' (normalize_servers (dc_servers cfg)) @ ''|'' @ host"

definition oldest_key :: "host_cache \<Rightarrow> string" where
  "oldest_key es =
     fst (foldl (\<lambda>(old, t) (k, e). if old = [] \<or> ce_expires e < t then (k, ce_expires e) else (old, t))
                ([], 0) es)"

definition cache_put :: "int \<Rightarrow> string \<Rightarrow> string list \<Rightarrow> string \<Rightarrow> host_cache \<Rightarrow> host_cache" where
  "cache_put now key ips meth es =
     AList.update key \<lparr>ce_ips = ips, ce_method = meth, ce_expires = now + 5 * minute\<rparr>
       (if 2000 \<le> length es then AList.delete (oldest_key es) es else es)"

definition evict_host :: "string \<Rightarrow> host_cache \<Rightarrow> host_cache" where
  "evict_host host es =
     (let host = to_lower (trim_space host) in
      if host = [] then es else filter (\<lambda>(k, e). \<not> has_suffix k (''|'' @ host)) es)"

section \<open>Resolution\<close>

record dns_state =
  ds_hosts :: host_cache
  ds_prop_servers :: "string list"
  ds_prop_expires :: int

record dns_env =
  env_getprop :: "string \<Rightarrow> string result"
  env_lookup :: "int \<Rightarrow> string \<Rightarrow> string \<Rightarrow> string list result"
  env_arrival :: "string list \<Rightarrow> string list"
  env_shell :: "int \<Rightarrow> string list \<Rightarrow> string \<times> bool"

definition carrier_props :: "string list" where
  "carrier_props =
     [''net.dns1'', ''net.dns2'', ''net.dns3'', ''net.dns4'',
      ''net.rmnet0.dns1'', ''net.rmnet0.dns2'',
      ''net.rmnet_data0.dns1'', ''net.rmnet_data0.dns2'',
      ''net.rmnet_data1.dns1'', ''net.rmnet_data1.dns2'',
      ''net.rmnet_data2.dns1'', ''net.rmnet_data2.dns2'',
      ''dhcp.rmnet_data0.dns1'', ''dhcp.rmnet_data0.dns2'',
      ''dhcp.wlan0.dns1'', ''dhcp.wlan0.dns2'']"

fun scan_props :: "(string \<Rightarrow> string result) \<Rightarrow> string list \<Rightarrow> string list" where
  "scan_props getprop [] = []"
| "scan_props getprop (p # ps) =
     (case getprop p of
        Inl _ \<Rightarrow> scan_props getprop ps
      | Inr out \<Rightarrow>
          (let ip = trim_space out in
           if ip = [] \<or> ip = ''0.0.0.0'' \<or> parse_ip ip = None then scan_props getprop ps
           else [join_host_port ip ''53'']))"

definition android_carrier_dns :: "dns_env \<Rightarrow> int \<Rightarrow> int \<Rightarrow> dns_state \<Rightarrow> string list \<times> dns_state" where
  "android_carrier_dns env check_time store_time st =
     (if check_time < ds_prop_expires st \<and> ds_prop_servers st \<noteq> [] then (ds_prop_servers st, st)
      else let servers = scan_props (env_getprop env) carrier_props in
        (servers, if servers = [] then st
                  else st\<lparr>ds_prop_servers := servers, ds_prop_expires := store_time + 2 * minute\<rparr>))"

definition configured_servers ::
  "dns_env \<Rightarrow> int \<Rightarrow> int \<Rightarrow> dns_config \<Rightarrow> dns_state \<Rightarrow> (string list \<times> string) \<times> dns_state" where
  "configured_servers env check_time store_time cfg st =
     (if dc_mode cfg = ''google'' then ((normalize_servers [''8.8.8.8'', ''8.8.4.4''], ''google_dns''), st)
      else if dc_mode cfg = ''cloudflare'' then ((normalize_servers [''1.1.1.1'', ''1.0.0.1''], ''cloudflare_dns''), st)
      else if dc_mode cfg = ''custom'' then ((normalize_servers (dc_servers cfg), ''custom_dns''), st)
      else let (servers, st) = android_carrier_dns env check_time store_time st
           in ((servers, ''android_real_dns''), st))"

text \<open>One server's answer, and the first non-empty one in the order of arrival. Timeouts are in
  nanoseconds.\<close>

definition server_answer :: "dns_env \<Rightarrow> int \<Rightarrow> string \<Rightarrow> string \<Rightarrow> string list" where
  "server_answer env timeout host srv =
     (case env_lookup env timeout srv host of
        Inl _ \<Rightarrow> [] | Inr addrs \<Rightarrow> dedup_onto [] (List.map_filter canonical_v4 addrs))"

fun first_nonempty :: "'a list list \<Rightarrow> 'a list" where
  "first_nonempty [] = []"
| "first_nonempty (r # rs) = (if r \<noteq> [] then r else first_nonempty rs)"

definition resolve_direct :: "dns_env \<Rightarrow> string \<Rightarrow> string list \<Rightarrow> int \<Rightarrow> string list" where
  "resolve_direct env host servers timeout_sec =
     (let timeout = timeout_sec * 1000000000;
          timeout = (if timeout < 1000000000 then 3 * 1000000000 else timeout)
      in first_nonempty (map (server_answer env timeout host) (env_arrival env servers)))"

definition shell_commands :: "string \<Rightarrow> string list list" where
  "shell_commands host =
     [[''getent'', ''ahostsv4'', host],
      [''toybox'', ''getent'', ''ahostsv4'', host],
      [''ping'', ''-c'', ''1'', ''-W'', ''2'', host]]"

text \<open>\<open>env_shell\<close> returns the combined output and whether the command failed; a failure that printed
  something is still searched for addresses, a silent one has none.\<close>

definition shell_resolve :: "dns_env \<Rightarrow> string \<Rightarrow> int \<Rightarrow> string list" where
  "shell_resolve env host timeout_sec =
     (let timeout = timeout_sec * 1000000000;
          timeout = (if timeout < 1000000000 then 3500000000 else timeout)
      in first_nonempty (map (\<lambda>c. case env_shell env timeout c of
             (out, failed) \<Rightarrow> if failed \<and> out = [] then [] else extract_ipv4s out) (shell_commands host)))"

text \<open>The clock is read up to four times during a call: at the cache check (\<open>clk 0\<close>), at the check and
  the refresh of the property cache (\<open>clk 1\<close>, \<open>clk 2\<close>) and when the answer is cached (\<open>clk 3\<close>).\<close>

definition cache_get :: "int \<Rightarrow> string \<Rightarrow> host_cache \<Rightarrow> (string list \<times> string) option" where
  "cache_get now key es =
     (case map_of es key of
        Some e \<Rightarrow> if now < ce_expires e then Some (ce_ips e, ce_method e) else None
      | None \<Rightarrow> None)"

definition resolve_host ::
  "dns_env \<Rightarrow> (nat \<Rightarrow> int) \<Rightarrow> dns_config \<Rightarrow> string \<Rightarrow> dns_state \<Rightarrow> (string list \<times> string) \<times> dns_state" where
  "resolve_host env clk cfg host st =
     (let host = to_lower (trim_space host);
          key = cache_key cfg host
      in case cache_get (clk 0) key (ds_hosts st) of
           Some (ips, meth) \<Rightarrow> ((ips, ''dns_cached_'' @ meth), st)
         | None \<Rightarrow>
             (let ((servers, meth), st) = configured_servers env (clk 1) (clk 2) cfg st;
                  timeout = (if dc_timeout cfg \<le> 0 then 4 else dc_timeout cfg);
                  direct = (if servers \<noteq> [] then resolve_direct env host servers timeout else [])
              in if direct \<noteq> [] then
                   ((direct, meth), st\<lparr>ds_hosts := cache_put (clk 3) key direct meth (ds_hosts st)\<rparr>)
                 else let ips = shell_resolve env host timeout in
                   if ips \<noteq> [] then
                     ((ips, ''android_shell_dns''),
                      st\<lparr>ds_hosts := cache_put (clk 3) key ips ''android_shell_dns'' (ds_hosts st)\<rparr>)
                   else (([], ''dns_failed''), st)))"

section \<open>Lists of servers and addresses\<close>

lemma set_map_filter: "set (List.map_filter f xs) = {y. \<exists>x\<in>set xs. f x = Some y}"
  by (force simp: List.map_filter_def)

lemma map_filter_id: "(\<And>x. x \<in> set xs \<Longrightarrow> f x = Some x) \<Longrightarrow> List.map_filter f xs = xs"
  by (induction xs) (auto simp: map_filter_simps)

lemma trim_nonspace:
  "s \<noteq> [] \<Longrightarrow> \<not> is_space (hd s) \<Longrightarrow> \<not> is_space (last s) \<Longrightarrow> trim_space s = s"
  by (simp add: trim_space_def trim_with_id)

lemma hd_trim_space: "trim_space s \<noteq> [] \<Longrightarrow> \<not> is_space (hd (trim_space s))"
  and last_trim_space: "trim_space s \<noteq> [] \<Longrightarrow> \<not> is_space (last (trim_space s))"
  by (simp_all add: trim_space_def hd_trim_with last_trim_with)

lemma plain_host_trim: "plain_host s \<Longrightarrow> plain_host (trim_space s)"
  using set_trim_with [of is_space s] by (auto simp: plain_host_def trim_space_def)

lemma plain_port_53 [simp]: "plain_port ''53''"
  by (simp add: plain_port_def)

lemma trim_join_53:
  "s \<noteq> [] \<Longrightarrow> \<not> is_space (hd s) \<Longrightarrow> trim_space (join_host_port s ''53'') = join_host_port s ''53''"
  by (intro trim_nonspace) (auto simp: join_host_port_def is_space_def)

lemma normalize_server_stable:
  assumes "normalize_server s = Some t" "plain_host s \<or> is_ok (split_host_port (trim_space s))"
  shows "normalize_server t = Some t \<and> is_ok (split_host_port t)"
proof -
  let ?u = "trim_space s"
  have u: "?u \<noteq> []" using assms(1) by (auto simp: normalize_server_def Let_def split: if_splits)
  show ?thesis
  proof (cases "split_host_port ?u")
    case (Inr p)
    then have "t = ?u" using assms(1) u by (simp add: normalize_server_def Let_def)
    then show ?thesis using u Inr by (simp add: normalize_server_def Let_def)
  next
    case (Inl e)
    then have t: "t = join_host_port ?u ''53''" using assms(1) u by (simp add: normalize_server_def Let_def)
    have "plain_host ?u" using Inl assms(2) plain_host_trim by (auto simp: is_ok_def)
    then have "split_host_port t = Ok (?u, ''53'')" using t split_join_host_port by simp
    moreover have "trim_space t = t" using t u hd_trim_space trim_join_53 by simp
    moreover have "t \<noteq> []" using t by (simp add: join_host_port_def)
    ultimately show ?thesis by (simp add: normalize_server_def Let_def)
  qed
qed

text \<open>For servers whose text has no bracket or already is \<open>host:port\<close>, the
  normalized list has no duplicate, every entry of it splits into host and port, and normalizing it
  again changes nothing.\<close>

theorem normalize_servers_normal_form:
  assumes "\<forall>s\<in>set xs. plain_host s \<or> is_ok (split_host_port (trim_space s))"
  shows "distinct (normalize_servers xs) \<and> list_all (\<lambda>s. is_ok (split_host_port s)) (normalize_servers xs) \<and>
         normalize_servers (normalize_servers xs) = normalize_servers xs"
proof -
  have s: "normalize_server t = Some t \<and> is_ok (split_host_port t)" if "t \<in> set (normalize_servers xs)" for t
    using that assms normalize_server_stable by (auto simp: normalize_servers_def set_map_filter)
  have d: "distinct (normalize_servers xs)" by (simp add: normalize_servers_def distinct_dedup_onto)
  have "List.map_filter normalize_server (normalize_servers xs) = normalize_servers xs"
    using s by (intro map_filter_id) blast
  then have "normalize_servers (normalize_servers xs) = normalize_servers xs"
    using d by (simp add: normalize_servers_def [of "normalize_servers xs"] dedup_onto_distinct)
  then show ?thesis using s d by (simp add: list_all_iff)
qed

theorem normalize_servers_normal_form_witness:
  "normalize_servers (normalize_servers ['' 8.8.8.8'', ''1.1.1.1:5353'', ''8.8.8.8'']) =
   normalize_servers ['' 8.8.8.8'', ''1.1.1.1:5353'', ''8.8.8.8'']"
  by (rule normalize_servers_normal_form [THEN conjunct2, THEN conjunct2]) (simp add: plain_host_def)

lemma canonical_v4_form: "canonical_v4 f = Some s \<Longrightarrow> \<exists>a b c d. s = v4_string [a, b, c, d]"
  using to4_length length4_cases by (fastforce simp: canonical_v4_def ip_string_def split: option.splits)

lemma canonical_v4_string [simp]: "canonical_v4 (v4_string [a, b, c, d]) = Some (v4_string [a, b, c, d])"
  by (simp add: canonical_v4_def ip_string_def)

lemma canonical_v4_idem: "canonical_v4 f = Some s \<Longrightarrow> canonical_v4 s = Some s \<and> trim_space s = s"
  using canonical_v4_form by fastforce

text \<open>What the callers rely on: a list of distinct addresses in canonical dotted form.\<close>

definition ipv4_list :: "string list \<Rightarrow> bool" where
  "ipv4_list xs = (distinct xs \<and> list_all (\<lambda>s. canonical_v4 s = Some s) xs)"

lemma ipv4_list_Nil [simp, wf_intros]: "ipv4_list []"
  by (simp add: ipv4_list_def)

lemma ipv4_list_dedup [wf_intros]:
  "(\<And>x. x \<in> set xs \<Longrightarrow> canonical_v4 x = Some x) \<Longrightarrow> ipv4_list (dedup_onto [] xs)"
  by (simp add: ipv4_list_def distinct_dedup_onto list_all_iff)

lemma ipv4_list_map_filter [wf_intros]: "ipv4_list (dedup_onto [] (List.map_filter (\<lambda>s. canonical_v4 (f s)) xs))"
  using canonical_v4_idem by (intro ipv4_list_dedup) (auto simp: set_map_filter)

lemma extract_ipv4s_list [wf_intros]: "ipv4_list (extract_ipv4s s)"
  unfolding extract_ipv4s_def by (rule ipv4_list_map_filter)

text \<open>\<open>SanitizeIPv4List\<close> returns exactly the canonical texts of the entries that
  are IPv4 addresses, each once, and leaves such a list unchanged.\<close>

theorem sanitize_ipv4_list_correct:
  "ipv4_list (sanitize_ipv4_list xs) \<and>
   set (sanitize_ipv4_list xs) = {s. \<exists>x\<in>set xs. canonical_v4 (trim_space x) = Some s} \<and>
   sanitize_ipv4_list (sanitize_ipv4_list xs) = sanitize_ipv4_list xs"
proof -
  have w: "ipv4_list (sanitize_ipv4_list xs)"
    unfolding sanitize_ipv4_list_def by (rule ipv4_list_map_filter)
  have "List.map_filter (\<lambda>s. canonical_v4 (trim_space s)) (sanitize_ipv4_list xs) = sanitize_ipv4_list xs"
    using w canonical_v4_idem by (intro map_filter_id) (auto simp: ipv4_list_def list_all_iff)
  then have "sanitize_ipv4_list (sanitize_ipv4_list xs) = sanitize_ipv4_list xs"
    using w by (simp add: sanitize_ipv4_list_def [of "sanitize_ipv4_list xs"] dedup_onto_distinct ipv4_list_def)
  then show ?thesis using w by (simp add: sanitize_ipv4_list_def set_map_filter)
qed

lemma rotate_ips_eq: "rotate_ips nano xs = rotate (if length xs \<le> 1 then 0 else nano) xs"
  by (simp add: rotate_ips_def rotate_drop_take Let_def)

lemma mset_rotate_ips [simp]: "mset (rotate_ips nano xs) = mset xs"
proof -
  have "mset (drop n xs @ take n xs) = mset (take n xs @ drop n xs)" for n
    by (simp only: mset_append union_commute)
  then show ?thesis by (simp add: rotate_ips_def Let_def del: mset_append)
qed

section \<open>The contract of an expiring cache\<close>

text \<open>
  What \<open>ResolveHost\<close> relies on: a value put under a key is found until its time to live is over
  and not later, and other keys never see it (an entry may only disappear).
\<close>

locale expiring_cache =
  fixes valid :: "'s \<Rightarrow> bool"
    and key_ok :: "'k \<Rightarrow> bool"
    and put :: "int \<Rightarrow> 'k \<Rightarrow> 'v \<Rightarrow> 's \<Rightarrow> 's"
    and evict :: "'e \<Rightarrow> 's \<Rightarrow> 's"
    and get :: "int \<Rightarrow> 'k \<Rightarrow> 's \<Rightarrow> 'v option"
    and ttl :: int
  assumes put_valid: "valid s \<Longrightarrow> key_ok k \<Longrightarrow> valid (put now k v s)"
    and evict_valid: "valid s \<Longrightarrow> valid (evict e s)"
    and get_put: "get t k (put now k v s) = (if t < now + ttl then Some v else None)"
    and get_put_other: "k' \<noteq> k \<Longrightarrow> get t k' (put now k v s) \<in> {get t k' s, None}"
    and get_evict: "get t k (evict e s) \<in> {get t k s, None}"
begin

text \<open>After any number of puts and evictions, a lookup answers with a value that was put under that
  very key and has not expired, or that was there before.\<close>

lemma get_after:
  "get t k (foldl (\<lambda>s op. case op of Inl (now, k, v) \<Rightarrow> put now k v s | Inr e \<Rightarrow> evict e s) s ops) = Some v \<Longrightarrow>
   get t k s = Some v \<or> (\<exists>now. Inl (now, k, v) \<in> set ops \<and> t < now + ttl)"
proof (induction ops arbitrary: s)
  case (Cons op ops)
  then show ?case
  proof (cases op)
    case (Inl p)
    obtain now k' v' where p: "p = (now, k', v')" by (cases p) auto
    have "get t k (put now k' v' s) = Some v \<or> (\<exists>now. Inl (now, k, v) \<in> set ops \<and> t < now + ttl)"
      using Cons Inl p by simp
    then show ?thesis
      using Inl p get_put [of t k' now v' s] get_put_other [of k k' t now v' s]
      by (cases "k = k'") (auto split: if_splits)
  next
    case (Inr e)
    have "get t k (evict e s) = Some v \<or> (\<exists>now. Inl (now, k, v) \<in> set ops \<and> t < now + ttl)"
      using Cons Inr by simp
    then show ?thesis using Inr get_evict [of t k e s] by auto
  qed
qed simp

end

section \<open>The host cache\<close>

definition keyed :: "host_cache \<Rightarrow> bool" where
  "keyed es = (list_all (\<lambda>(k, e). k \<noteq> []) es \<and> distinct (map fst es))"

definition hosts_inv :: "host_cache \<Rightarrow> bool" where
  "hosts_inv es = (keyed es \<and> length es \<le> 2000)"

lemma oldest_fold:
  assumes "list_all (\<lambda>(k, e). k \<noteq> []) es" "old \<noteq> []"
  shows "\<exists>k t. foldl (\<lambda>(old, t) (k, e). if old = [] \<or> ce_expires e < t then (k, ce_expires e) else (old, t))
            (old, t0) es = (k, t) \<and> ((k, t) = (old, t0) \<or> (\<exists>e. (k, e) \<in> set es \<and> ce_expires e = t)) \<and>
          t \<le> t0 \<and> (\<forall>(k', e') \<in> set es. t \<le> ce_expires e')"
  using assms
proof (induction es arbitrary: old t0)
  case Nil
  then show ?case by simp
next
  case (Cons x es)
  obtain k1 e1 where x: "x = (k1, e1)" by (cases x)
  let ?o = "if ce_expires e1 < t0 then k1 else old" and ?t = "if ce_expires e1 < t0 then ce_expires e1 else t0"
  have "?o \<noteq> []" "list_all (\<lambda>(k, e). k \<noteq> []) es" using Cons.prems x by simp_all
  with Cons.IH [of ?o ?t] obtain k t where kt: "foldl (\<lambda>(old, t) (k, e). if old = [] \<or> ce_expires e < t then (k, ce_expires e) else (old, t))
      (?o, ?t) es = (k, t)" "(k, t) = (?o, ?t) \<or> (\<exists>e. (k, e) \<in> set es \<and> ce_expires e = t)"
      "t \<le> ?t" "\<forall>(k', e') \<in> set es. t \<le> ce_expires e'"
    by auto
  have step: "(if old = [] \<or> ce_expires e1 < t0 then (k1, ce_expires e1) else (old, t0)) = (?o, ?t)"
    using Cons.prems by simp
  show ?case
    using kt x Cons.prems(2) by (intro exI [of _ k] exI [of _ t]) (auto simp: step split: if_splits)
qed

lemma oldest_key_minimal:
  assumes "keyed es" "es \<noteq> []"
  shows "\<exists>e. (oldest_key es, e) \<in> set es \<and> (\<forall>(k', e') \<in> set es. ce_expires e \<le> ce_expires e')"
proof -
  obtain k1 e1 es' where es: "es = (k1, e1) # es'" using assms(2) by (cases es) auto
  have "list_all (\<lambda>(k, e). k \<noteq> []) es'" "k1 \<noteq> []" using assms(1) es by (auto simp: keyed_def)
  then show ?thesis
    using oldest_fold [of es' k1 "ce_expires e1"] es by (fastforce simp: oldest_key_def)
qed

lemma keyed_delete: "keyed es \<Longrightarrow> keyed (AList.delete k es)"
  by (auto simp: keyed_def list_all_iff AList.delete_eq distinct_map_filter)

lemma update_new: "k \<notin> fst ` set es \<Longrightarrow> AList.update k v es = es @ [(k, v)]"
  by (induction es) auto

lemma set_update_subset: "set (AList.update k v es) \<subseteq> insert (k, v) (set es)"
  by (induction es) auto

lemma length_update_le: "length (AList.update k v es) \<le> Suc (length es)"
  by (induction es) auto

lemma keyed_update: "keyed es \<Longrightarrow> k \<noteq> [] \<Longrightarrow> keyed (AList.update k v es)"
  using set_update_subset [of k v es] distinct_update [of es k v] by (auto simp: keyed_def list_all_iff)

lemma length_delete_member: "k \<in> fst ` set es \<Longrightarrow> length (AList.delete k es) < length es"
  by (induction es) (auto simp: AList.delete_eq intro: le_imp_less_Suc)

lemma cache_put_inv [wf_intros]:
  assumes "hosts_inv es" "key \<noteq> []"
  shows "hosts_inv (cache_put now key ips meth es)"
proof -
  let ?es = "if 2000 \<le> length es then AList.delete (oldest_key es) es else es"
  have k: "keyed ?es" using assms(1) keyed_delete by (auto simp: hosts_inv_def)
  have "length ?es < 2000"
  proof (cases "2000 \<le> length es")
    case True
    then have "oldest_key es \<in> fst ` set es"
      using oldest_key_minimal [of es] assms(1) by (force simp: hosts_inv_def)
    then show ?thesis using True assms(1) length_delete_member by (fastforce simp: hosts_inv_def)
  qed simp
  then have "length (AList.update key v ?es) \<le> 2000" for v
    using length_update_le [of key v ?es] by simp
  then show ?thesis using keyed_update [OF k assms(2)] by (simp only: cache_put_def hosts_inv_def)
qed

lemma cache_get_put:
  "cache_get t key (cache_put now key ips meth es) = (if t < now + 5 * minute then Some (ips, meth) else None)"
  by (simp add: cache_get_def cache_put_def update_conv)

lemma cache_get_put_other:
  "key' \<noteq> key \<Longrightarrow> cache_get t key' (cache_put now key ips meth es) \<in> {cache_get t key' es, None}"
  by (auto simp: cache_get_def cache_put_def update_conv delete_conv)

lemma map_of_filter_key: "map_of (filter (\<lambda>(k, e). P k) es) k = (if P k then map_of es k else None)"
  by (induction es) auto

lemma evict_host_inv [wf_intros]: "hosts_inv es \<Longrightarrow> hosts_inv (evict_host host es)"
proof -
  have "hosts_inv (filter P es)" if "hosts_inv es" for P
    using that le_trans [OF length_filter_le [of P es]]
    by (simp add: hosts_inv_def keyed_def list_all_iff distinct_map_filter)
  then show "hosts_inv es \<Longrightarrow> hosts_inv (evict_host host es)" by (simp add: evict_host_def Let_def)
qed

lemma map_of_evict_host:
  "map_of (evict_host host es) k =
     (if to_lower (trim_space host) \<noteq> [] \<and> has_suffix k (''|'' @ to_lower (trim_space host)) then None
      else map_of es k)"
  by (simp add: evict_host_def Let_def map_of_filter_key)

lemma cache_get_evict: "cache_get t k (evict_host host es) \<in> {cache_get t k es, None}"
  by (simp add: cache_get_def map_of_evict_host)

definition cache_store :: "int \<Rightarrow> string \<Rightarrow> string list \<times> string \<Rightarrow> host_cache \<Rightarrow> host_cache" where
  "cache_store now key v es = cache_put now key (fst v) (snd v) es"

interpretation hosts: expiring_cache hosts_inv "\<lambda>k. k \<noteq> []" cache_store evict_host cache_get "5 * minute"
proof unfold_locales
  show "cache_get t k' (cache_store now k v es) \<in> {cache_get t k' es, None}" if "k' \<noteq> k" for t k' now k v es
    unfolding cache_store_def by (rule cache_get_put_other [OF that])
  show "cache_get t k (evict_host h es) \<in> {cache_get t k es, None}" for t k h es
    by (rule cache_get_evict)
qed (simp_all add: cache_store_def cache_get_put cache_put_inv evict_host_inv)

section \<open>Histories of the cache\<close>

datatype cache_op = Store int dns_config string "string list" string | Evict string

fun cache_step :: "host_cache \<Rightarrow> cache_op \<Rightarrow> host_cache" where
  "cache_step es (Store now cfg host ips meth) = cache_put now (cache_key cfg host) ips meth es"
| "cache_step es (Evict host) = evict_host host es"

lemma cache_key_ne [simp]: "cache_key cfg host \<noteq> []"
  by (simp add: cache_key_def)

interpretation cache_hist: step_invariant cache_step hosts_inv "\<lambda>_ _. True"
proof unfold_locales
  fix es op
  assume "hosts_inv es"
  then show "hosts_inv (cache_step es op)" by (cases op) (simp_all add: wf_intros)
qed

lemma hosts_inv_Nil [simp]: "hosts_inv []"
  by (simp add: hosts_inv_def keyed_def)

text \<open>After any history of stores and evictions the host cache holds at most 2000
  entries, under distinct keys.\<close>

theorem host_cache_bounded:
  "length (run cache_step [] ops) \<le> 2000 \<and> distinct (map fst (run cache_step [] ops))"
  using cache_hist.run_inv [of "[]" ops] by (simp add: hosts_inv_def keyed_def)

text \<open>Storing into a full cache removes one entry, one that expires no later
  than any other, before the new one is added.\<close>

theorem full_cache_evicts_oldest:
  assumes "hosts_inv es" "length es = 2000"
  shows "\<exists>old e. (old, e) \<in> set es \<and> {(k, e'). (k, e') \<in> set es \<and> ce_expires e' < ce_expires e} = {} \<and>
     cache_put now key ips meth es =
       AList.update key \<lparr>ce_ips = ips, ce_method = meth, ce_expires = now + 5 * minute\<rparr> (AList.delete old es)"
proof -
  have "es \<noteq> []" "keyed es" using assms by (auto simp: hosts_inv_def)
  then obtain e where "(oldest_key es, e) \<in> set es" "\<forall>(k', e') \<in> set es. ce_expires e \<le> ce_expires e'"
    using oldest_key_minimal by blast
  then show ?thesis
    using assms(2) by (intro exI [of _ "oldest_key es"] exI [of _ e]) (auto simp: cache_put_def)
qed

section \<open>Keys\<close>

definition bar_free :: "string \<Rightarrow> bool" where
  "bar_free s = (CHR ''|'' \<notin> set s)"

lemma last_bar_unique: "bar_free b \<Longrightarrow> bar_free b' \<Longrightarrow> a @ CHR ''|'' # b = a' @ CHR ''|'' # b' \<longleftrightarrow> a = a' \<and> b = b'"
  by (metis bar_free_def split_last_append option.inject prod.inject)

lemma cache_key_suffix:
  assumes "bar_free h" "bar_free host"
  shows "has_suffix (cache_key cfg host) (''|'' @ h) \<longleftrightarrow> host = h"
proof
  assume "has_suffix (cache_key cfg host) (''|'' @ h)"
  then obtain zs where zs: "cache_key cfg host = zs @ CHR ''|'' # h"
    by (auto simp: has_suffix_def suffix_def)
  have "cache_key cfg host =
      (dc_mode cfg @ ''|'' @ str_join '','' (normalize_servers (dc_servers cfg))) @ CHR ''|'' # host"
    by (simp add: cache_key_def)
  with zs show "host = h" using last_bar_unique [OF assms(2,1)] by metis
qed (auto simp: cache_key_def has_suffix_def suffix_def)

lemma first_bar_unique: "bar_free a \<Longrightarrow> bar_free a' \<Longrightarrow> a @ CHR ''|'' # b = a' @ CHR ''|'' # b' \<longleftrightarrow> a = a' \<and> b = b'"
proof (induction a arbitrary: a')
  case Nil
  then show ?case by (cases a') (auto simp: bar_free_def)
next
  case (Cons x xs)
  then show ?case by (cases a') (auto simp: bar_free_def)
qed

lemma cache_key_inject:
  assumes "bar_free h" "bar_free h'" "bar_free (dc_mode cfg)" "bar_free (dc_mode cfg')"
    and "cache_key cfg h = cache_key cfg' h'"
  shows "h = h' \<and> dc_mode cfg = dc_mode cfg' \<and>
     str_join '','' (normalize_servers (dc_servers cfg)) = str_join '','' (normalize_servers (dc_servers cfg'))"
proof -
  let ?s = "str_join '','' (normalize_servers (dc_servers cfg))"
  let ?s' = "str_join '','' (normalize_servers (dc_servers cfg'))"
  have "dc_mode cfg @ CHR ''|'' # (?s @ CHR ''|'' # h) = dc_mode cfg' @ CHR ''|'' # (?s' @ CHR ''|'' # h')"
    using assms(5) by (simp add: cache_key_def)
  then have "dc_mode cfg = dc_mode cfg'" "?s @ CHR ''|'' # h = ?s' @ CHR ''|'' # h'"
    using first_bar_unique [OF assms(3,4)] by blast+
  then show ?thesis using last_bar_unique [OF assms(1,2)] by blast
qed

text \<open>\<open>EvictHost\<close> removes the entries of exactly the named host, for every mode and
  server list, and leaves the entries of all other hosts alone.\<close>

theorem evict_host_correct:
  assumes "to_lower (trim_space host) \<noteq> []" "bar_free (to_lower (trim_space host))" "bar_free h"
  shows "map_of (evict_host host es) (cache_key cfg h) =
     (if h = to_lower (trim_space host) then None else map_of es (cache_key cfg h))"
  using assms cache_key_suffix [OF assms(2,3)] by (auto simp: map_of_evict_host)

theorem evict_host_correct_witness:
  "map_of (evict_host ''a'' [(cache_key (dns_config.make ''device'' [] 4) ''a'', \<lparr>ce_ips = [], ce_method = [], ce_expires = 5\<rparr>)])
     (cache_key (dns_config.make ''device'' [] 4) ''a'') = None"
proof -
  have "to_lower (trim_space ''a'') = ''a''"
    by (simp add: to_lower_def trim_space_def trim_with_def is_space_def lower_char_def is_upper_def)
  then show ?thesis
    using evict_host_correct [of "''a''" "''a''"
        "[(cache_key (dns_config.make ''device'' [] 4) ''a'', \<lparr>ce_ips = [], ce_method = [], ce_expires = 5\<rparr>)]"
        "dns_config.make ''device'' [] 4"]
    by (simp add: bar_free_def)
qed

fun cache_event :: "cache_op \<Rightarrow> (int \<times> string \<times> string list \<times> string) + string" where
  "cache_event (Store now cfg host ips meth) = Inl (now, cache_key cfg host, ips, meth)"
| "cache_event (Evict host) = Inr host"

lemma cache_event_Inl:
  "cache_event op = Inl (now, k, ips, meth) \<Longrightarrow> \<exists>cfg host. op = Store now cfg host ips meth \<and> k = cache_key cfg host"
  by (cases op) auto

lemma cache_run_eq:
  "run cache_step es ops =
     foldl (\<lambda>s op. case op of Inl (now, k, v) \<Rightarrow> cache_store now k v s | Inr e \<Rightarrow> evict_host e s) es
       (map cache_event ops)"
proof (induction ops arbitrary: es)
  case (Cons op ops)
  then show ?case by (cases op) (simp_all add: cache_store_def)
qed simp

text \<open>C11: whatever was stored and evicted before, an answer the cache gives for a
  host is one that was stored for that very host and mode less than five minutes ago.\<close>

theorem cache_never_crosses_hosts:
  assumes "bar_free h" "bar_free (dc_mode cfg)"
    and "\<forall>op\<in>set ops. case op of Store now cfg' h' ips meth \<Rightarrow> bar_free h' \<and> bar_free (dc_mode cfg') | Evict _ \<Rightarrow> True"
    and "cache_get t (cache_key cfg h) (run cache_step [] ops) = Some (ips, meth)"
  shows "\<exists>now cfg'. Store now cfg' h ips meth \<in> set ops \<and> dc_mode cfg' = dc_mode cfg \<and> t < now + 5 * minute"
proof -
  have "cache_get t (cache_key cfg h) [] \<noteq> Some (ips, meth)" by (simp add: cache_get_def)
  then obtain now where i: "Inl (now, cache_key cfg h, ips, meth) \<in> set (map cache_event ops)"
      and t: "t < now + 5 * minute"
    using hosts.get_after [OF assms(4) [unfolded cache_run_eq]] by blast
  from i obtain op where op: "Inl (now, cache_key cfg h, ips, meth) = cache_event op" "op \<in> set ops"
    unfolding set_map by (rule imageE)
  obtain cfg' h' where "op = Store now cfg' h' ips meth" "cache_key cfg h = cache_key cfg' h'"
    using cache_event_Inl [OF op(1) [symmetric]] by blast
  then have st: "Store now cfg' h' ips meth \<in> set ops" "cache_key cfg' h' = cache_key cfg h"
    using op(2) by simp_all
  moreover have "bar_free h' \<and> bar_free (dc_mode cfg')" using assms(3) st(1) by fastforce
  ultimately have "h' = h" "dc_mode cfg' = dc_mode cfg"
    using cache_key_inject [of h' h cfg' cfg] assms(1,2) by auto
  then show ?thesis using st t by blast
qed

definition device_dns :: dns_config where
  "device_dns = \<lparr>dc_mode = ''device'', dc_servers = [], dc_timeout = 4\<rparr>"

theorem cache_never_crosses_hosts_witness:
  "\<exists>now cfg'. Store now cfg' ''h'' [''1.2.3.4''] ''m'' \<in> set [Store 0 device_dns ''h'' [''1.2.3.4''] ''m'']
     \<and> dc_mode cfg' = ''device'' \<and> 7 < now + 5 * minute"
proof -
  have "cache_get 7 (cache_key device_dns ''h'') (run cache_step [] [Store 0 device_dns ''h'' [''1.2.3.4''] ''m''])
      = Some ([''1.2.3.4''], ''m'')"
    by (simp add: cache_get_put minute_def)
  then show ?thesis
    using cache_never_crosses_hosts [of "''h''" device_dns "[Store 0 device_dns ''h'' [''1.2.3.4''] ''m'']" 7]
    by (simp add: bar_free_def device_dns_def)
qed

section \<open>Resolution\<close>

lemma first_nonempty_eq: "first_nonempty rs = [] \<longleftrightarrow> (\<forall>r\<in>set rs. r = [])"
  by (induction rs) auto

lemma first_nonempty_in: "first_nonempty rs \<noteq> [] \<Longrightarrow> first_nonempty rs \<in> set rs"
  by (induction rs) auto

lemma server_answer_list [wf_intros]: "ipv4_list (server_answer env timeout host srv)"
proof -
  have "ipv4_list (dedup_onto [] (List.map_filter canonical_v4 addrs))" for addrs
    using ipv4_list_map_filter [of "\<lambda>s. s" addrs] by simp
  then show ?thesis by (simp add: server_answer_def split: sum.splits)
qed

lemma first_nonempty_list: "(\<And>r. r \<in> set rs \<Longrightarrow> ipv4_list r) \<Longrightarrow> ipv4_list (first_nonempty rs)"
  by (induction rs) auto

lemma resolve_direct_list [wf_intros]: "ipv4_list (resolve_direct env host servers t)"
  unfolding resolve_direct_def Let_def by (rule first_nonempty_list) (auto intro: server_answer_list)

lemma shell_resolve_list [wf_intros]: "ipv4_list (shell_resolve env host t)"
  unfolding shell_resolve_def Let_def
  by (rule first_nonempty_list) (auto intro: extract_ipv4s_list simp: split_beta)

text \<open>Whatever the order in which the parallel answers arrive,
  \<open>resolveViaDirectDNS\<close> fails only if no server had an address, and otherwise returns one server's whole
  answer.\<close>

theorem resolve_direct_any_order:
  assumes "mset (env_arrival env servers) = mset servers"
  shows "let answers = server_answer env ((if t < 1 then 3 else t) * 1000000000) host ` set servers in
     (resolve_direct env host servers t = []) = (answers \<subseteq> {[]}) \<and>
     resolve_direct env host servers t \<in> insert [] answers"
proof -
  let ?f = "server_answer env ((if t < 1 then 3 else t) * 1000000000) host"
  have r: "resolve_direct env host servers t = first_nonempty (map ?f (env_arrival env servers))"
    by (simp add: resolve_direct_def Let_def)
  have s: "set (map ?f (env_arrival env servers)) = ?f ` set servers"
    using assms by (metis set_map set_mset_mset)
  have "(resolve_direct env host servers t = []) = (?f ` set servers \<subseteq> {[]})"
    unfolding r first_nonempty_eq s by blast
  moreover have "resolve_direct env host servers t \<in> insert [] (?f ` set servers)"
    using first_nonempty_in [of "map ?f (env_arrival env servers)"] unfolding r s by blast
  ultimately show ?thesis by (simp only: Let_def)
qed

definition sample_env :: dns_env where
  "sample_env = \<lparr>env_getprop = (\<lambda>_. Err ''no getprop''), env_lookup = (\<lambda>_ srv _. Ok [''1.2.3.4'']),
     env_arrival = rev, env_shell = (\<lambda>_ _. ([], True))\<rparr>"

theorem resolve_direct_any_order_witness:
  "\<exists>answers. (resolve_direct sample_env ''h'' [''a:53'', ''b:53''] 4 = []) = (answers \<subseteq> {[]})"
proof -
  have "mset (env_arrival sample_env [''a:53'', ''b:53'']) = mset [''a:53'', ''b:53'']"
    by (simp add: sample_env_def)
  from resolve_direct_any_order [OF this, of 4 "''h''"] show ?thesis unfolding Let_def by blast
qed

lemma configured_servers_hosts [frame_simps]:
  "ds_hosts (snd (configured_servers env t1 t2 cfg st)) = ds_hosts st"
  by (simp add: configured_servers_def android_carrier_dns_def Let_def split: prod.splits)

lemma configured_methods:
  "snd (fst (configured_servers env t1 t2 cfg st)) \<in>
     {''google_dns'', ''cloudflare_dns'', ''custom_dns'', ''android_real_dns''}"
  by (simp add: configured_servers_def split: prod.splits)

text \<open>What a fresh resolution answers, and the state it leaves.\<close>

definition fresh_answer ::
  "dns_env \<Rightarrow> (nat \<Rightarrow> int) \<Rightarrow> dns_config \<Rightarrow> string \<Rightarrow> dns_state \<Rightarrow> string list \<times> string" where
  "fresh_answer env clk cfg host st =
     (let ((servers, meth), st') = configured_servers env (clk 1) (clk 2) cfg st;
          timeout = (if dc_timeout cfg \<le> 0 then 4 else dc_timeout cfg);
          direct = (if servers \<noteq> [] then resolve_direct env host servers timeout else [])
      in if direct \<noteq> [] then (direct, meth)
         else if shell_resolve env host timeout \<noteq> [] then (shell_resolve env host timeout, ''android_shell_dns'')
         else ([], ''dns_failed''))"

lemma resolve_host_fresh:
  assumes "cache_get (clk 0) (cache_key cfg (to_lower (trim_space host))) (ds_hosts st) = None"
  shows "fst (resolve_host env clk cfg host st) = fresh_answer env clk cfg (to_lower (trim_space host)) st"
    and "ds_hosts (snd (resolve_host env clk cfg host st)) =
      (case fresh_answer env clk cfg (to_lower (trim_space host)) st of (ips, meth) \<Rightarrow>
         if ips = [] then ds_hosts st
         else cache_put (clk 3) (cache_key cfg (to_lower (trim_space host))) ips meth (ds_hosts st))"
  using assms configured_servers_hosts [of env "clk 1" "clk 2" cfg st]
  by (auto simp: resolve_host_def fresh_answer_def Let_def split: prod.splits)

lemma resolve_host_cached:
  assumes "cache_get (clk 0) (cache_key cfg (to_lower (trim_space host))) (ds_hosts st) = Some (ips, meth)"
  shows "resolve_host env clk cfg host st = ((ips, ''dns_cached_'' @ meth), st)"
  using assms by (simp add: resolve_host_def Let_def)

lemma fresh_answer_ok:
  assumes "fresh_answer env clk cfg h st = (ips, meth)"
  shows "ipv4_list ips \<and> (ips = [] \<longleftrightarrow> meth = ''dns_failed'')"
  using assms configured_methods [of env "clk 1" "clk 2" cfg st]
    resolve_direct_list [of env h] shell_resolve_list [of env h]
  by (auto simp: fresh_answer_def Let_def split: prod.splits if_splits)

section \<open>Histories of the resolver\<close>

datatype dns_op = Resolve dns_env "nat \<Rightarrow> int" dns_config string | Forget string

fun dns_step :: "dns_state \<Rightarrow> dns_op \<Rightarrow> dns_state" where
  "dns_step st (Resolve env clk cfg host) = snd (resolve_host env clk cfg host st)"
| "dns_step st (Forget host) = st\<lparr>ds_hosts := evict_host host (ds_hosts st)\<rparr>"

definition dns_init :: dns_state where
  "dns_init = \<lparr>ds_hosts = [], ds_prop_servers = [], ds_prop_expires = 0\<rparr>"

definition entry_ok :: "string \<times> cache_entry \<Rightarrow> bool" where
  "entry_ok = (\<lambda>(k, e). ipv4_list (ce_ips e) \<and> ce_ips e \<noteq> [])"

definition dns_inv :: "dns_state \<Rightarrow> bool" where
  "dns_inv st = (hosts_inv (ds_hosts st) \<and> list_all entry_ok (ds_hosts st))"

lemma cache_put_entries:
  "list_all entry_ok es \<Longrightarrow> ipv4_list ips \<Longrightarrow> ips \<noteq> [] \<Longrightarrow> list_all entry_ok (cache_put now key ips meth es)"
  using set_update_subset [of key "\<lparr>ce_ips = ips, ce_method = meth, ce_expires = now + 5 * minute\<rparr>"]
  by (fastforce simp: cache_put_def list_all_iff entry_ok_def AList.delete_eq)

lemma cache_get_entry:
  "list_all entry_ok es \<Longrightarrow> cache_get t k es = Some (ips, meth) \<Longrightarrow> ipv4_list ips \<and> ips \<noteq> []"
  by (auto simp: cache_get_def list_all_iff entry_ok_def dest!: map_of_SomeD split: option.splits if_splits)

lemma resolve_host_inv:
  assumes "dns_inv st"
  shows "dns_inv (snd (resolve_host env clk cfg host st))"
proof (cases "cache_get (clk 0) (cache_key cfg (to_lower (trim_space host))) (ds_hosts st)")
  case None
  obtain ips meth where f: "fresh_answer env clk cfg (to_lower (trim_space host)) st = (ips, meth)"
    by fastforce
  show ?thesis
    using assms resolve_host_fresh(2) [of clk cfg host st env] None fresh_answer_ok [OF f] f
    by (auto simp: dns_inv_def intro: cache_put_inv cache_put_entries)
next
  case (Some p)
  then show ?thesis using assms resolve_host_cached [of clk cfg host st "fst p" "snd p" env] by simp
qed

lemma dns_step_inv: "dns_inv st \<Longrightarrow> dns_inv (dns_step st op)"
proof (cases op)
  case (Forget h)
  assume "dns_inv st"
  then show ?thesis using Forget evict_host_inv
    by (auto simp: dns_inv_def evict_host_def Let_def list_all_iff)
qed (simp add: resolve_host_inv)

interpretation resolver: step_invariant dns_step dns_inv "\<lambda>_ _. True"
  by unfold_locales (rule dns_step_inv)

text \<open>After any history of resolutions and evictions, whatever the platform
  answered, \<open>ResolveHost\<close> returns distinct valid IPv4 addresses, and an empty list exactly when it
  reports \<open>dns_failed\<close>; the cache stays within its bound.\<close>

theorem resolver_history_sound:
  "case resolve_host env clk cfg host (run dns_step dns_init ops) of
     ((ips, meth), st') \<Rightarrow> ipv4_list ips \<and> (ips = []) = (meth = ''dns_failed'') \<and> length (ds_hosts st') \<le> 2000"
proof -
  let ?st = "run dns_step dns_init ops"
  have inv: "dns_inv ?st"
    by (rule resolver.run_inv) (simp_all add: dns_inv_def dns_init_def)
  obtain ips meth st' where r: "resolve_host env clk cfg host ?st = ((ips, meth), st')"
    by (metis prod.exhaust)
  have "length (ds_hosts st') \<le> 2000"
    using resolve_host_inv [OF inv, of env clk cfg host] r by (simp add: dns_inv_def hosts_inv_def)
  moreover have "ipv4_list ips \<and> (ips = []) = (meth = ''dns_failed'')"
  proof (cases "cache_get (clk 0) (cache_key cfg (to_lower (trim_space host))) (ds_hosts ?st)")
    case None
    then have "fresh_answer env clk cfg (to_lower (trim_space host)) ?st = (ips, meth)"
      using r resolve_host_fresh(1) [of clk cfg host ?st env] by simp
    then show ?thesis by (rule fresh_answer_ok)
  next
    case (Some p)
    obtain ips' meth' where p: "p = (ips', meth')" by (cases p)
    have "ipv4_list ips' \<and> ips' \<noteq> []"
      using inv Some p by (intro cache_get_entry [of "ds_hosts ?st"]) (simp_all add: dns_inv_def)
    moreover have "ips = ips'" "meth = ''dns_cached_'' @ meth'"
      using r resolve_host_cached [of clk cfg host ?st ips' meth' env] Some p by simp_all
    ultimately show ?thesis by simp
  qed
  ultimately show ?thesis using r by simp
qed

section \<open>How long an answer lasts\<close>

text \<open>Operations that do not touch the answer for a host: resolutions of any host, in any configuration, before the answer
  expires, and evictions of other hosts.\<close>

fun spares :: "string \<Rightarrow> int \<Rightarrow> dns_op \<Rightarrow> bool" where
  "spares host expires (Resolve env clk cfg h) = (clk 0 < expires)"
| "spares host expires (Forget h) = (to_lower (trim_space h) \<noteq> host \<and> bar_free (to_lower (trim_space h)))"

lemma cache_put_other_entry:
  "k \<noteq> key \<Longrightarrow> length es < 2000 \<Longrightarrow> map_of (cache_put now k ips meth es) key = map_of es key"
  by (simp add: cache_put_def update_conv)

lemma cache_put_length: "length es < 2000 \<Longrightarrow> length (cache_put now k ips meth es) \<le> Suc (length es)"
  by (simp add: cache_put_def length_update_le)

lemma resolve_keeps_entry:
  assumes "map_of (ds_hosts st) key = Some e" "clk 0 < ce_expires e" "length (ds_hosts st) < 2000"
  shows "map_of (ds_hosts (snd (resolve_host env clk cfg h st))) key = Some e \<and>
     length (ds_hosts (snd (resolve_host env clk cfg h st))) \<le> Suc (length (ds_hosts st))"
proof (cases "cache_get (clk 0) (cache_key cfg (to_lower (trim_space h))) (ds_hosts st)")
  case None
  then have k: "cache_key cfg (to_lower (trim_space h)) \<noteq> key" using assms(1,2) by (auto simp: cache_get_def)
  obtain ips meth where f: "fresh_answer env clk cfg (to_lower (trim_space h)) st = (ips, meth)" by fastforce
  show ?thesis using resolve_host_fresh(2) [of clk cfg h st env, OF None] f assms(1,3) k
      cache_put_other_entry [OF k assms(3)] cache_put_length [OF assms(3)] by simp
next
  case (Some v)
  then show ?thesis using resolve_host_cached [of clk cfg h st "fst v" "snd v" env] assms(1) by simp
qed

lemma dns_step_keeps_entry:
  assumes "map_of (ds_hosts st) (cache_key cfg host) = Some e" "spares host (ce_expires e) op" "bar_free host"
    and "length (ds_hosts st) < 2000"
  shows "map_of (ds_hosts (dns_step st op)) (cache_key cfg host) = Some e \<and>
     length (ds_hosts (dns_step st op)) \<le> Suc (length (ds_hosts st))"
proof (cases op)
  case (Resolve env clk c h)
  then show ?thesis using resolve_keeps_entry [OF assms(1) _ assms(4)] assms(2) by simp
next
  case (Forget h)
  have "length (evict_host h (ds_hosts st)) \<le> Suc (length (ds_hosts st))"
    by (auto simp: evict_host_def Let_def intro: le_SucI)
  then show ?thesis using Forget assms(1-3) cache_key_suffix [of "to_lower (trim_space h)" host cfg]
    by (auto simp: map_of_evict_host)
qed

lemma run_keeps_entry:
  "map_of (ds_hosts st) (cache_key cfg host) = Some e \<Longrightarrow> list_all (spares host (ce_expires e)) ops \<Longrightarrow> bar_free host \<Longrightarrow>
   length (ds_hosts st) + length ops \<le> 2000 \<Longrightarrow> map_of (ds_hosts (run dns_step st ops)) (cache_key cfg host) = Some e"
proof (induction ops arbitrary: st)
  case (Cons op ops)
  have "map_of (ds_hosts (dns_step st op)) (cache_key cfg host) = Some e \<and>
      length (ds_hosts (dns_step st op)) \<le> Suc (length (ds_hosts st))"
    by (rule dns_step_keeps_entry) (use Cons.prems in simp_all)
  with Cons.IH [of "dns_step st op"] Cons.prems show ?case by simp
qed simp

text \<open>C12: once a fresh resolution has produced addresses, a lookup of the same host (up to case
  and surrounding space) in the same configuration within five minutes returns those addresses from the
  cache, whatever the network answers by then, and changes no state, even after any sequence of resolutions of
  this and other hosts, in this and other configurations, and evictions of other hosts in between, as long as
  these cannot fill the cache of 2000 entries. (An eviction of the host itself ends it.)\<close>

theorem resolve_host_caches:
  assumes "cache_get (clk 0) (cache_key cfg (to_lower (trim_space host))) (ds_hosts st) = None"
    and "resolve_host env clk cfg host st = ((ips, meth), st')" "ips \<noteq> []"
    and "list_all (spares (to_lower (trim_space host)) (clk 3 + 5 * minute)) ops"
    and "length (ds_hosts st') + length ops \<le> 2000" "bar_free (to_lower (trim_space host))"
    and "to_lower (trim_space host') = to_lower (trim_space host)" "clk' 0 < clk 3 + 5 * minute"
  shows "resolve_host env' clk' cfg host' (run dns_step st' ops) = ((ips, ''dns_cached_'' @ meth), run dns_step st' ops)"
proof -
  let ?e = "\<lparr>ce_ips = ips, ce_method = meth, ce_expires = clk 3 + 5 * minute\<rparr>"
  have "fresh_answer env clk cfg (to_lower (trim_space host)) st = (ips, meth)"
    using resolve_host_fresh(1) [of clk cfg host st env] assms(1,2) by simp
  then have "ds_hosts st' = cache_put (clk 3) (cache_key cfg (to_lower (trim_space host))) ips meth (ds_hosts st)"
    using resolve_host_fresh(2) [of clk cfg host st env] assms(1-3) by simp
  then have "map_of (ds_hosts st') (cache_key cfg (to_lower (trim_space host))) = Some ?e"
    by (simp add: cache_put_def update_conv)
  from run_keeps_entry [OF this _ assms(6,5)] assms(4)
  have "map_of (ds_hosts (run dns_step st' ops)) (cache_key cfg (to_lower (trim_space host))) = Some ?e" by simp
  then have "cache_get (clk' 0) (cache_key cfg (to_lower (trim_space host'))) (ds_hosts (run dns_step st' ops)) =
      Some (ips, meth)" using assms(7,8) by (simp add: cache_get_def)
  then show ?thesis by (rule resolve_host_cached)
qed

lemma google_servers: "normalize_servers [''8.8.8.8'', ''8.8.4.4''] \<noteq> []"
proof -
  have "\<exists>srv. srv \<in> set (normalize_servers [''8.8.8.8'', ''8.8.4.4''])"
    by (auto simp: normalize_servers_def set_map_filter normalize_server_def Let_def trim_space_def
        trim_with_def is_space_def)
  then show ?thesis by auto
qed

theorem resolve_host_caches_witness:
  "\<exists>ips meth st' st''. ips \<noteq> [] \<and>
     st'' = run dns_step st' [Resolve sample_env (\<lambda>_. 1) device_dns ''other'', Forget ''g''] \<and>
     resolve_host (sample_env\<lparr>env_lookup := \<lambda>_ _ _. Err ''down''\<rparr>) (\<lambda>_. 1) (device_dns\<lparr>dc_mode := ''google''\<rparr>) ''H'' st'' =
       ((ips, ''dns_cached_'' @ meth), st'')"
proof -
  let ?cfg = "device_dns\<lparr>dc_mode := ''google''\<rparr>"
  obtain ips meth st' where r: "resolve_host sample_env (\<lambda>_. 0) ?cfg ''h'' dns_init = ((ips, meth), st')"
    by (metis prod.exhaust)
  have n: "cache_get 0 k (ds_hosts dns_init) = None" for k by (simp add: cache_get_def dns_init_def)
  have p: "parse_ip ''1.2.3.4'' = Some (ipv4 1 2 3 4)"
  proof -
    have "v4_string [1, 2, 3, 4] = ''1.2.3.4''"
      by (simp add: v4_string_def nat_dec.simps char_of_def bit_0)
    then show ?thesis using parse_ip_v4_string [of 1 2 3 4] by simp
  qed
  have "ips \<noteq> []"
  proof -
    note g = google_servers
    moreover have "server_answer sample_env t ''h'' srv \<noteq> []" for t srv
      by (simp add: server_answer_def sample_env_def map_filter_simps canonical_v4_def p)
    ultimately have "resolve_direct sample_env h (normalize_servers [''8.8.8.8'', ''8.8.4.4'']) 4 \<noteq> []"
      if "h = ''h''" for h
      using that by (auto simp: resolve_direct_def first_nonempty_eq sample_env_def Let_def)
    moreover have "to_lower (trim_space ''h'') = ''h''"
      by (simp add: to_lower_def trim_space_def trim_with_def is_space_def lower_char_def is_upper_def)
    ultimately show ?thesis
      using r g resolve_host_fresh(1) [of "\<lambda>_. 0" ?cfg "''h''" dns_init sample_env] n
      by (auto simp: fresh_answer_def configured_servers_def device_dns_def split: if_splits)
  qed
  moreover have "to_lower (trim_space ''H'') = to_lower (trim_space ''h'')"
    by (simp add: to_lower_def trim_space_def trim_with_def is_space_def lower_char_def is_upper_def
        char_of_def bit_0)
  moreover have "length (ds_hosts st') \<le> 1"
  proof -
    have "ds_hosts dns_init = []" by (simp add: dns_init_def)
    then show ?thesis using resolve_host_fresh(2) [of "\<lambda>_. 0" ?cfg "''h''" dns_init sample_env] n r
      by (auto simp: cache_put_def split: prod.splits if_splits)
  qed
  moreover have "list_all (spares (to_lower (trim_space ''h'')) (0 + 5 * minute))
      [Resolve sample_env (\<lambda>_. 1) device_dns ''other'', Forget ''g'']" "bar_free (to_lower (trim_space ''h''))"
    by (simp_all add: minute_def bar_free_def to_lower_def trim_space_def trim_with_def is_space_def lower_char_def is_upper_def)
  ultimately show ?thesis
    using resolve_host_caches [of "\<lambda>_. 0" ?cfg "''h''" dns_init sample_env ips meth st'
        "[Resolve sample_env (\<lambda>_. 1) device_dns ''other'', Forget ''g'']" "''H''" "\<lambda>_. 1"
        "sample_env\<lparr>env_lookup := \<lambda>_ _ _. Err ''down''\<rparr>"] n r by (simp add: minute_def) blast
qed

end
