(* ===== verification/Netfilter.thy ===== *)
theory Netfilter
  imports GoNet
begin

text \<open>
  The transparent-proxy rules, package \<open>internal/iptables\<close> (\<open>iptables.go\<close>): every command is the
  argument vector the code hands to \<open>exec.Command\<close>, in the order it is run, with the branches the
  code takes on a command's failure. What runs a command is a parameter, \<open>'k exec\<close>: it maps an
  argument vector and the state of the device to the error text (\<open>None\<close> for success), the combined
  output and the new state. The package's own state is \<open>revalidateDone\<close> and the number of
  revalidation goroutines started.
\<close>

section \<open>Configuration and constants\<close>

record ipt_config =
  ic_prefix :: string
  ic_tcp_port :: int
  ic_api_port :: int
  ic_socks_port :: int
  ic_dns_port :: int
  ic_hotspot :: bool
  ic_ifaces :: "string list"

definition default_ifaces :: "string list" where
  "default_ifaces = [''wlan+'', ''swlan+'', ''ap+'', ''rndis+'', ''ncm+'', ''bt-pan+'']"

definition private_cidrs :: "string list" where
  "private_cidrs =
     [''0.0.0.0/8'', ''10.0.0.0/8'', ''100.64.0.0/10'', ''127.0.0.0/8'', ''169.254.0.0/16'',
      ''172.16.0.0/12'', ''192.168.0.0/16'', ''224.0.0.0/4'', ''240.0.0.0/4'']"

definition legacy_chains :: "string \<Rightarrow> string list" where
  "legacy_chains pre =
     map (\<lambda>s. pre @ s) [''_OUTPUT'', ''_PREROUTING'', ''_PROXY'', ''_DNS'', ''_HOTSPOT'', ''_HOTSPOT_DNS'']"

definition chain_prefix :: "ipt_config \<Rightarrow> string" where
  "chain_prefix cfg = (if ic_prefix cfg = [] then ''SSHC'' else ic_prefix cfg)"

definition redirect_port :: "ipt_config \<Rightarrow> int" where
  "redirect_port cfg = (if ic_tcp_port cfg \<le> 0 then 10810 else ic_tcp_port cfg)"

section \<open>Running commands\<close>

type_synonym 'k exec = "string list \<Rightarrow> 'k \<Rightarrow> (string option \<times> string) \<times> 'k"

record 'k nstate =
  ns_kern :: 'k
  ns_reval :: bool
  ns_kicks :: nat

definition ipt :: "string list \<Rightarrow> string list" where
  "ipt args = ''iptables'' # ''-w'' # ''100'' # args"

definition ip6t :: "string list \<Rightarrow> string list" where
  "ip6t args = ''ip6tables'' # ''-w'' # ''100'' # args"

text \<open>A command whose result is ignored (\<open>_ = ....Run()\<close>), and one whose success is tested.\<close>

definition quiet :: "'k exec \<Rightarrow> 'k nstate \<Rightarrow> string list \<Rightarrow> 'k nstate" where
  "quiet exec st argv = st\<lparr>ns_kern := snd (exec argv (ns_kern st))\<rparr>"

definition tested :: "'k exec \<Rightarrow> 'k nstate \<Rightarrow> string list \<Rightarrow> bool \<times> 'k nstate" where
  "tested exec st argv = (case exec argv (ns_kern st) of ((e, _), k) \<Rightarrow> (e = None, st\<lparr>ns_kern := k\<rparr>))"

definition quiets :: "'k exec \<Rightarrow> string list list \<Rightarrow> 'k nstate \<Rightarrow> 'k nstate" where
  "quiets exec argvs st = foldl (quiet exec) st argvs"

text \<open>The closure \<open>run\<close> of \<open>Apply\<close>: errors are collected, not returned.\<close>

definition run_cmd :: "'k exec \<Rightarrow> string list \<times> 'k nstate \<Rightarrow> string list \<Rightarrow> string list \<times> 'k nstate" where
  "run_cmd exec es args =
     (case es of (errs, st) \<Rightarrow>
       (case exec (ipt args) (ns_kern st) of ((e, out), k) \<Rightarrow>
          (case e of None \<Rightarrow> errs
           | Some m \<Rightarrow> errs @ [''iptables '' @ str_join '' '' args @ '': '' @ m @ '' '' @ trim_space out],
           st\<lparr>ns_kern := k\<rparr>)))"

definition shell_path :: string where
  "shell_path = ''/system/bin:/system/xbin:/vendor/bin:/data/adb/magisk:/data/adb/ksu/bin:/data/adb/ap/bin''"

definition sh_run :: "'k exec \<Rightarrow> string \<Rightarrow> 'k nstate \<Rightarrow> 'k nstate" where
  "sh_run exec script st =
     quiet exec st [''/system/bin/sh'', ''-c'', ''export PATH='' @ shell_path @ '':$PATH; '' @ script]"

definition script_lines :: "string list \<Rightarrow> string" where
  "script_lines ls = str_join [CHR 0x0A] ls"

section \<open>The rules of a chain\<close>

text \<open>The closure \<open>addBypasses\<close>: the rules it appends to a chain, in order.\<close>

definition chain_rules :: "ipt_config \<Rightarrow> string list \<Rightarrow> bool \<Rightarrow> string list list" where
  "chain_rules cfg ips is_output =
     (if is_output then [[''-m'', ''owner'', ''--uid-owner'', ''0'', ''-j'', ''RETURN'']] else [])
     @ map (\<lambda>cidr. [''-d'', cidr, ''-j'', ''RETURN'']) private_cidrs
     @ map (\<lambda>ip. [''-d'', ip, ''-j'', ''RETURN'']) (filter (\<lambda>ip. ip \<noteq> []) (map trim_space ips))
     @ map (\<lambda>p. [''-p'', ''tcp'', ''--dport'', itoa p, ''-j'', ''RETURN''])
         (filter (\<lambda>p. 0 < p) [ic_api_port cfg, ic_socks_port cfg, ic_tcp_port cfg, ic_dns_port cfg])
     @ [[''-p'', ''tcp'', ''-j'', ''REDIRECT'', ''--to-ports'', itoa (redirect_port cfg)]]"

definition add_bypasses :: "ipt_config \<Rightarrow> string list \<Rightarrow> string \<Rightarrow> bool \<Rightarrow> string list list" where
  "add_bypasses cfg ips ch is_output =
     map (\<lambda>r. [''-t'', ''nat'', ''-A'', ch] @ r) (chain_rules cfg ips is_output)"

section \<open>QUIC\<close>

definition quic_rule :: "string \<Rightarrow> string list" where
  "quic_rule port = [''-p'', ''udp'', ''--dport'', port]"

definition reject_udp :: "string list" where
  "reject_udp = [''-j'', ''REJECT'', ''--reject-with'', ''icmp-port-unreachable'']"

definition quic_args :: "string \<Rightarrow> string \<Rightarrow> string list \<Rightarrow> string list" where
  "quic_args op port target = ipt ([''-t'', ''filter'', op, ''OUTPUT''] @ quic_rule port @ target)"

definition block_quic_port :: "'k exec \<Rightarrow> string \<Rightarrow> 'k nstate \<Rightarrow> 'k nstate" where
  "block_quic_port exec port st =
     (let (ok, st) = tested exec st (quic_args ''-C'' port reject_udp) in
      if ok then st
      else let (ok, st) = tested exec st (quic_args ''-A'' port reject_udp) in
        if ok then st
        else let (ok, st) = tested exec st (quic_args ''-C'' port [''-j'', ''DROP'']) in
          if ok then st else quiet exec st (quic_args ''-A'' port [''-j'', ''DROP'']))"

definition block_quic :: "'k exec \<Rightarrow> 'k nstate \<Rightarrow> 'k nstate" where
  "block_quic exec st = block_quic_port exec ''80'' (block_quic_port exec ''443'' st)"

text \<open>Up to \<open>n\<close> deletions, stopping at the first that fails.\<close>

fun delete_up_to :: "'k exec \<Rightarrow> string list \<Rightarrow> nat \<Rightarrow> 'k nstate \<Rightarrow> 'k nstate" where
  "delete_up_to exec argv 0 st = st"
| "delete_up_to exec argv (Suc n) st =
     (let (ok, st) = tested exec st argv in if ok then delete_up_to exec argv n st else st)"

definition unblock_quic_port :: "'k exec \<Rightarrow> string \<Rightarrow> 'k nstate \<Rightarrow> 'k nstate" where
  "unblock_quic_port exec port st =
     delete_up_to exec (quic_args ''-D'' port reject_udp) 4
       (delete_up_to exec (quic_args ''-D'' port [''-j'', ''DROP'']) 4 st)"

definition unblock_quic :: "'k exec \<Rightarrow> 'k nstate \<Rightarrow> 'k nstate" where
  "unblock_quic exec st = unblock_quic_port exec ''80'' (unblock_quic_port exec ''443'' st)"

section \<open>Cleanup of the rules\<close>

definition hook_deletes :: "string list \<Rightarrow> string \<Rightarrow> string list list" where
  "hook_deletes ifaces ch =
     [[''-t'', ''nat'', ''-D'', ''OUTPUT'', ''-p'', ''tcp'', ''-j'', ch],
      [''-t'', ''nat'', ''-D'', ''OUTPUT'', ''-j'', ch],
      [''-t'', ''nat'', ''-D'', ''OUTPUT'', ''-p'', ''udp'', ''--dport'', ''53'', ''-j'', ch],
      [''-t'', ''nat'', ''-D'', ''PREROUTING'', ''-p'', ''tcp'', ''-j'', ch],
      [''-t'', ''nat'', ''-D'', ''PREROUTING'', ''-j'', ch]]
     @ concat (map (\<lambda>iface. if trim_space iface = [] then [] else
         [[''-t'', ''nat'', ''-D'', ''PREROUTING'', ''-i'', iface, ''-p'', ''tcp'', ''-j'', ch],
          [''-t'', ''nat'', ''-D'', ''PREROUTING'', ''-i'', iface, ''-j'', ch]]) ifaces)"

definition hotspot_ifaces :: "ipt_config \<Rightarrow> string list" where
  "hotspot_ifaces cfg = (if ic_ifaces cfg = [] then default_ifaces else ic_ifaces cfg)"

definition cleanup_rules :: "'k exec \<Rightarrow> ipt_config \<Rightarrow> 'k nstate \<Rightarrow> 'k nstate" where
  "cleanup_rules exec cfg st =
     (let chains = legacy_chains (chain_prefix cfg);
          st = quiets exec (map ipt (concat (map (hook_deletes (hotspot_ifaces cfg)) chains))) st;
          st = quiets exec (map ipt (concat (map (\<lambda>ch.
                 [[''-t'', ''nat'', ''-F'', ch], [''-t'', ''nat'', ''-X'', ch]]) chains))) st;
          st = quiet exec st (ipt [''-D'', ''FORWARD'', ''-j'', ''ACCEPT''])
      in unblock_quic exec st)"

section \<open>DNS forwarding\<close>

definition setup_dns_forward :: "'k exec \<Rightarrow> string \<Rightarrow> int \<Rightarrow> 'k nstate \<Rightarrow> 'k nstate" where
  "setup_dns_forward exec pre port st =
     (if port \<le> 0 then st
      else
        let ch = pre @ ''_DNS'';
            st = sh_run exec (''sysctl -w net.ipv4.conf.all.route_localnet=1 2>/dev/null || '' @
                   ''echo 1 > /proc/sys/net/ipv4/conf/all/route_localnet'') st;
            (exists, st) = tested exec st (ipt [''-t'', ''nat'', ''-L'', ch, ''-n'']);
            st = (if exists then st else quiet exec st (ipt [''-t'', ''nat'', ''-N'', ch]))
        in quiets exec (map ipt
             [[''-t'', ''nat'', ''-F'', ch],
              [''-t'', ''nat'', ''-A'', ch, ''-m'', ''owner'', ''--uid-owner'', ''0'', ''-j'', ''RETURN''],
              [''-t'', ''nat'', ''-A'', ch, ''-p'', ''udp'', ''--dport'', ''53'',
               ''-j'', ''DNAT'', ''--to-destination'', ''127.0.0.1:'' @ itoa port],
              [''-t'', ''nat'', ''-D'', ''OUTPUT'', ''-p'', ''udp'', ''--dport'', ''53'', ''-j'', ch],
              [''-t'', ''nat'', ''-I'', ''OUTPUT'', ''1'', ''-p'', ''udp'', ''--dport'', ''53'', ''-j'', ch]]) st)"

section \<open>IPv6\<close>

definition drop6 :: string where
  "drop6 = ''SSHC_DROP6''"

definition disable_ipv6_script :: string where
  "disable_ipv6_script = script_lines
     [''sysctl -w net.ipv4.ip_forward=1 2>/dev/null || echo 1 > /proc/sys/net/ipv4/ip_forward'',
      ''sysctl -w net.ipv6.conf.all.disable_ipv6=1 2>/dev/null || echo 1 > /proc/sys/net/ipv6/conf/all/disable_ipv6'',
      ''sysctl -w net.ipv6.conf.default.disable_ipv6=1 2>/dev/null || echo 1 > /proc/sys/net/ipv6/conf/default/disable_ipv6'']"

definition enable_ipv6_script :: string where
  "enable_ipv6_script = script_lines
     [''sysctl -w net.ipv6.conf.all.disable_ipv6=0 2>/dev/null || echo 0 > /proc/sys/net/ipv6/conf/all/disable_ipv6'',
      ''sysctl -w net.ipv6.conf.default.disable_ipv6=0 2>/dev/null || echo 0 > /proc/sys/net/ipv6/conf/default/disable_ipv6'']"

definition disable_ipv6 :: "'k exec \<Rightarrow> 'k nstate \<Rightarrow> 'k nstate" where
  "disable_ipv6 exec st =
     (let st = sh_run exec disable_ipv6_script st;
          (exists, st) = tested exec st (ip6t [''-t'', ''filter'', ''-L'', drop6, ''-n'']);
          st = (if exists then st else quiet exec st (ip6t [''-t'', ''filter'', ''-N'', drop6]));
          st = quiet exec st (ip6t [''-t'', ''filter'', ''-F'', drop6]);
          st = quiet exec st (ip6t [''-t'', ''filter'', ''-A'', drop6, ''-o'', ''lo'', ''-j'', ''RETURN'']);
          (rejects, st) = tested exec st
            (ip6t [''-t'', ''filter'', ''-A'', drop6, ''-j'', ''REJECT'', ''--reject-with'', ''icmp6-adm-prohibited'']);
          st = (if rejects then st else quiet exec st (ip6t [''-t'', ''filter'', ''-A'', drop6, ''-j'', ''DROP'']))
      in quiets exec (map ip6t
           [[''-t'', ''filter'', ''-D'', ''OUTPUT'', ''-j'', drop6],
            [''-t'', ''filter'', ''-I'', ''OUTPUT'', ''1'', ''-j'', drop6],
            [''-t'', ''filter'', ''-D'', ''FORWARD'', ''-j'', drop6],
            [''-t'', ''filter'', ''-I'', ''FORWARD'', ''1'', ''-j'', drop6]]) st)"

definition enable_ipv6 :: "'k exec \<Rightarrow> 'k nstate \<Rightarrow> 'k nstate" where
  "enable_ipv6 exec st =
     quiets exec (map ip6t
       [[''-t'', ''filter'', ''-D'', ''OUTPUT'', ''-j'', drop6],
        [''-t'', ''filter'', ''-D'', ''FORWARD'', ''-j'', drop6],
        [''-t'', ''filter'', ''-F'', drop6],
        [''-t'', ''filter'', ''-X'', drop6]]) (sh_run exec enable_ipv6_script st)"

section \<open>Captive portal and kernel tuning\<close>

definition disable_portal_script :: string where
  \<open>disable_portal_script = script_lines
     [''settings put global captive_portal_mode 0'',
      ''settings put global captive_portal_use_https 0'',
      ''settings put global captive_portal_server 127.0.0.1'',
      ''settings put global captive_portal_http_url "http://127.0.0.1:9190/generate_204"'',
      ''settings delete global captive_portal_https_url 2>/dev/null || true'',
      ''ndc resolver clearnetdns 2>/dev/null || true'']\<close>

definition restore_portal_script :: string where
  "restore_portal_script = script_lines
     [''settings put global captive_portal_mode 1'',
      ''settings put global captive_portal_use_https 1'',
      ''settings delete global captive_portal_server 2>/dev/null || true'',
      ''settings delete global captive_portal_http_url 2>/dev/null || true'',
      ''settings delete global captive_portal_https_url 2>/dev/null || true'']"

text \<open>\<open>kickRevalidation\<close> starts a goroutine that runs the reevaluation script ten seconds later; the model
  counts the goroutines started.\<close>

definition kick_revalidation :: "'k nstate \<Rightarrow> 'k nstate" where
  "kick_revalidation st =
     (if ns_reval st then st else st\<lparr>ns_reval := True, ns_kicks := Suc (ns_kicks st)\<rparr>)"

definition reset_revalidation :: "'k nstate \<Rightarrow> 'k nstate" where
  "reset_revalidation st = st\<lparr>ns_reval := False\<rparr>"

definition disable_captive_portal :: "'k exec \<Rightarrow> 'k nstate \<Rightarrow> 'k nstate" where
  "disable_captive_portal exec st = kick_revalidation (sh_run exec disable_portal_script st)"

definition restore_captive_portal :: "'k exec \<Rightarrow> 'k nstate \<Rightarrow> 'k nstate" where
  "restore_captive_portal exec st = sh_run exec restore_portal_script (reset_revalidation st)"

definition tune_tcp_script :: string where
  \<open>tune_tcp_script = script_lines
     [''sysctl -w net.core.rmem_max=4194304 2>/dev/null || echo 4194304 > /proc/sys/net/core/rmem_max'',
      ''sysctl -w net.core.wmem_max=4194304 2>/dev/null || echo 4194304 > /proc/sys/net/core/wmem_max'',
      ''sysctl -w net.ipv4.tcp_rmem="4096 87380 4194304" 2>/dev/null || echo "4096 87380 4194304" > /proc/sys/net/ipv4/tcp_rmem'',
      ''sysctl -w net.ipv4.tcp_wmem="4096 65536 4194304" 2>/dev/null || echo "4096 65536 4194304" > /proc/sys/net/ipv4/tcp_wmem'']\<close>

definition tune_tcp :: "'k exec \<Rightarrow> 'k nstate \<Rightarrow> 'k nstate" where
  "tune_tcp exec st = sh_run exec tune_tcp_script st"

section \<open>Apply and Cleanup\<close>

definition benign_error :: "string \<Rightarrow> bool" where
  "benign_error e =
     (str_contains e ''No chain/target/match'' \<or> str_contains e ''does a matching rule exist'' \<or>
      str_contains e ''Chain already exists'')"

text \<open>The commands \<open>Apply\<close> runs through its closure \<open>run\<close>, before the best-effort part.\<close>

definition core_cmds :: "ipt_config \<Rightarrow> string list \<Rightarrow> string list list" where
  "core_cmds cfg ips =
     (let out = chain_prefix cfg @ ''_OUTPUT''; pre = chain_prefix cfg @ ''_PREROUTING'' in
      [[''-t'', ''nat'', ''-N'', out], [''-t'', ''nat'', ''-F'', out],
       [''-t'', ''nat'', ''-N'', pre], [''-t'', ''nat'', ''-F'', pre]]
      @ add_bypasses cfg ips out True
      @ add_bypasses cfg ips pre False
      @ [[''-t'', ''nat'', ''-I'', ''OUTPUT'', ''1'', ''-p'', ''tcp'', ''-j'', out]]
      @ (if ic_hotspot cfg then
           map (\<lambda>iface. [''-t'', ''nat'', ''-I'', ''PREROUTING'', ''1'', ''-i'', iface, ''-p'', ''tcp'', ''-j'', pre])
             (filter (\<lambda>iface. trim_space iface \<noteq> []) (hotspot_ifaces cfg))
         else []))"

definition apply_rules :: "'k exec \<Rightarrow> ipt_config \<Rightarrow> string list \<Rightarrow> 'k nstate \<Rightarrow> string option \<times> 'k nstate" where
  "apply_rules exec cfg ips st =
     (let st = cleanup_rules exec cfg st;
          (errs, st) = foldl (run_cmd exec) ([], st) (core_cmds cfg ips);
          st = (if ic_hotspot cfg then
                  quiets exec [[''sysctl'', ''-w'', ''net.ipv4.ip_forward=1''],
                               ipt [''-I'', ''FORWARD'', ''-j'', ''ACCEPT'']] st
                else st);
          st = setup_dns_forward exec (chain_prefix cfg) (ic_dns_port cfg) st;
          st = block_quic exec st;
          st = disable_ipv6 exec st;
          st = tune_tcp exec st;
          st = disable_captive_portal exec st;
          fatal = filter (\<lambda>e. \<not> benign_error e) errs
      in (if fatal = [] then None else Some (str_join ''; '' fatal), st))"

definition cleanup :: "'k exec \<Rightarrow> ipt_config \<Rightarrow> 'k nstate \<Rightarrow> 'k nstate" where
  "cleanup exec cfg st = restore_captive_portal exec (enable_ipv6 exec (cleanup_rules exec cfg st))"

end
