(* ===== verification/Profiles.thy ===== *)
theory Profiles
  imports GoNet
begin

text \<open>
  The profile store of the daemon (\<open>cmd/sshcustomd/main.go\<close>): the records of \<open>profiles.json\<close>, the
  choice of the active profile, selection, deletion and the upsert behind
  \<open>/api/v1/profile/save\<close>, with the transport chain \<open>buildTransport\<close> derives and the checks that
  use it (\<open>validate\<close>, \<open>dialEndpoint\<close>). Operations that mutate \<open>*ProfilesFile\<close> return the error, if
  any, and the mutated file.
\<close>

section \<open>The records of profiles.json\<close>

record ssh_conf =
  ssh_host :: string
  ssh_port :: int
  ssh_user :: string
  ssh_password :: string
  ssh_auth :: string
  ssh_fallback :: "string list"

record http_proxy_cfg =
  hp_host :: string
  hp_port :: int
  hp_method :: string
  hp_fallback :: "string list"

record tls_cfg =
  tls_enabled :: bool
  tls_server_name :: string
  tls_insecure :: bool
  tls_alpn :: "string list"

record payload_cfg =
  pl_enabled :: bool
  pl_template :: string
  pl_timing :: string
  pl_read :: bool
  pl_allow :: "int list"

record tconf =
  t_mode :: string
  t_chain :: "string list"
  t_proxy :: "http_proxy_cfg option"
  t_tls :: "tls_cfg option"
  t_payload :: payload_cfg

record profile =
  p_id :: string
  p_name :: string
  p_selected :: bool
  p_ssh :: ssh_conf
  p_transport :: tconf

record profiles_file =
  pf_selected :: string
  pf_profiles :: "profile list"

record save_request =
  rq_id :: string
  rq_name :: string
  rq_select :: bool
  rq_restart :: bool
  rq_ssh :: ssh_conf
  rq_mode :: string
  rq_proxy :: "http_proxy_cfg option"
  rq_tls :: "tls_cfg option"
  rq_payload :: payload_cfg

section \<open>The active profile\<close>

definition selected_profile :: "profiles_file \<Rightarrow> profile option" where
  "selected_profile pf =
     (let ps = pf_profiles pf;
          by_id = (if pf_selected pf \<noteq> [] then find (\<lambda>p. p_id p = pf_selected pf) ps else None)
      in case by_id of Some p \<Rightarrow> Some p
         | None \<Rightarrow> (case find p_selected ps of Some p \<Rightarrow> Some p
                   | None \<Rightarrow> (case ps of [] \<Rightarrow> None | p # _ \<Rightarrow> Some p)))"

definition select_profile_by_id :: "profiles_file \<Rightarrow> string \<Rightarrow> string option \<times> profiles_file" where
  "select_profile_by_id pf i =
     (let i = trim_space i in
      if i = [] then (Some ''selected_id is required'', pf)
      else let pf' = pf\<lparr>pf_profiles := map (\<lambda>p. p\<lparr>p_selected := (p_id p = i)\<rparr>) (pf_profiles pf)\<rparr>
           in if list_ex (\<lambda>p. p_id p = i) (pf_profiles pf)
              then (None, pf'\<lparr>pf_selected := i\<rparr>)
              else (Some (''profile not found: '' @ i), pf'))"

definition delete_profile :: "profiles_file \<Rightarrow> string \<Rightarrow> string option \<times> profiles_file" where
  "delete_profile pf i =
     (if i = [] then (Some ''id is required'', pf)
      else if \<not> list_ex (\<lambda>p. p_id p = i) (pf_profiles pf) then (Some ''profile not found'', pf)
      else (None, pf\<lparr>pf_profiles := filter (\<lambda>p. p_id p \<noteq> i) (pf_profiles pf),
                     pf_selected := (if pf_selected pf = i then [] else pf_selected pf)\<rparr>))"

section \<open>Identifiers\<close>

definition slug_char :: "char \<Rightarrow> bool" where
  "slug_char c = (is_lower c \<or> is_digit c)"

fun slug_loop :: "string \<Rightarrow> bool \<Rightarrow> string" where
  "slug_loop [] last_dash = []"
| "slug_loop (r # s) last_dash =
     (if slug_char r then r # slug_loop s False
      else if \<not> last_dash then CHR ''-'' # slug_loop s True
      else slug_loop s last_dash)"

definition slugify :: "string \<Rightarrow> string" where
  "slugify s = trim_char (CHR ''-'') (slug_loop (to_lower (trim_space s)) False)"

function next_free :: "string list \<Rightarrow> string \<Rightarrow> nat \<Rightarrow> string option" where
  "next_free used base i =
     (if i < 10000 then
        (let candidate = base @ ''-'' @ nat_dec i in
         if candidate \<notin> set used then Some candidate else next_free used base (Suc i))
      else None)"
  by pat_completeness auto
termination
  by (relation "measure (\<lambda>(used, base, i). 10000 - i)") auto

declare next_free.simps [simp del]

definition unique_profile_id :: "int \<Rightarrow> profiles_file \<Rightarrow> string \<Rightarrow> string" where
  "unique_profile_id now pf base =
     (let b = trim_char (CHR ''-'') (slugify base);
          b = (if b = [] then ''profile'' else b);
          used = map p_id (pf_profiles pf)
      in if b \<notin> set used then b
         else case next_free used b 2 of Some c \<Rightarrow> c | None \<Rightarrow> b @ ''-'' @ itoa now)"

section \<open>Transport\<close>

definition normalize_mode :: "string \<Rightarrow> string" where
  "normalize_mode mode =
     (let m = trim_space (to_lower mode) in
      if m \<in> set [''direct'', ''ssh'', ''ssh_payload'', ''ssh+pl''] then ''direct''
      else if m \<in> set [''http_proxy'', ''ssh_http_proxy'', ''ssh+http'', ''ssh+http_proxy'', ''ssh+pl+http'']
        then ''http_proxy''
      else if m \<in> set [''tls_sni'', ''sni'', ''ssh+sni'', ''ssh+pl+sni''] then ''tls_sni''
      else if m \<in> set [''http_proxy_tls_sni'', ''http_tls'', ''ssh+http+sni'', ''ssh+pl+http+sni'']
        then ''http_proxy_tls_sni''
      else [])"

definition default_timing :: "string \<Rightarrow> string" where
  "default_timing mode =
     (if mode = ''http_proxy'' then ''after_proxy_socket_before_ssh''
      else if mode = ''tls_sni'' \<or> mode = ''http_proxy_tls_sni'' then ''after_tls_before_ssh''
      else ''before_ssh'')"

definition build_payload :: "string \<Rightarrow> payload_cfg \<Rightarrow> payload_cfg" where
  "build_payload mode pl =
     pl\<lparr>pl_timing := (if pl_timing pl = [] then default_timing mode else pl_timing pl),
        pl_allow := (if pl_allow pl = [] then [101, 200, 204, 302] else pl_allow pl)\<rparr>"

definition build_proxy :: "string \<Rightarrow> http_proxy_cfg option \<Rightarrow> ssh_conf \<Rightarrow> http_proxy_cfg" where
  "build_proxy mode hp ssh =
     (let proxy = (case hp of Some h \<Rightarrow> h
                   | None \<Rightarrow> \<lparr>hp_host = ssh_host ssh, hp_port = ssh_port ssh,
                             hp_method = ''socket'', hp_fallback = []\<rparr>);
          proxy = proxy\<lparr>hp_host := (if hp_host proxy = [] then ssh_host ssh else hp_host proxy)\<rparr>;
          proxy = proxy\<lparr>hp_port := (if hp_port proxy \<le> 0 then ssh_port ssh else hp_port proxy)\<rparr>;
          proxy = proxy\<lparr>hp_method := (if hp_method proxy = [] then ''socket'' else hp_method proxy)\<rparr>
      in if mode = ''http_proxy_tls_sni'' \<and> hp_port proxy = 80 then proxy\<lparr>hp_port := 443\<rparr> else proxy)"

definition build_tls :: "tls_cfg option \<Rightarrow> ssh_conf \<Rightarrow> tls_cfg" where
  "build_tls tc ssh =
     (let t = (case tc of Some t \<Rightarrow> t
               | None \<Rightarrow> \<lparr>tls_enabled = True, tls_server_name = ssh_host ssh, tls_insecure = True,
                         tls_alpn = [''http/1.1'']\<rparr>);
          t = t\<lparr>tls_server_name := (if tls_server_name t = [] then ssh_host ssh else tls_server_name t)\<rparr>;
          t = t\<lparr>tls_alpn := (if tls_alpn t = [] then [''http/1.1''] else tls_alpn t)\<rparr>
      in t\<lparr>tls_enabled := True\<rparr>)"

definition build_transport ::
  "string \<Rightarrow> payload_cfg \<Rightarrow> http_proxy_cfg option \<Rightarrow> tls_cfg option \<Rightarrow> ssh_conf \<Rightarrow> tconf" where
  "build_transport mode payload hp tc ssh =
     (let payload = build_payload mode payload;
          with_proxy = (mode = ''http_proxy'' \<or> mode = ''http_proxy_tls_sni'');
          with_tls = (mode = ''tls_sni'' \<or> mode = ''http_proxy_tls_sni'')
      in \<lparr>t_mode = mode,
          t_chain = [''tcp''] @ (if with_proxy then [''http_proxy''] else [])
                    @ (if with_tls then [''tls''] else [])
                    @ (if pl_enabled payload then [''payload''] else []) @ [''ssh''],
          t_proxy = (if with_proxy then Some (build_proxy mode hp ssh) else None),
          t_tls = (if with_tls then Some (build_tls tc ssh) else None),
          t_payload = payload\<rparr>)"

definition uses_http_proxy :: "profile \<Rightarrow> bool" where
  "uses_http_proxy p =
     (t_mode (p_transport p) = ''http_proxy'' \<or> t_mode (p_transport p) = ''http_proxy_tls_sni'' \<or>
      ''http_proxy'' \<in> set (t_chain (p_transport p)))"

definition uses_tls :: "profile \<Rightarrow> bool" where
  "uses_tls p =
     (t_mode (p_transport p) = ''tls_sni'' \<or> t_mode (p_transport p) = ''http_proxy_tls_sni'' \<or>
      ''tls'' \<in> set (t_chain (p_transport p)))"

definition dial_endpoint :: "profile \<Rightarrow> (string \<times> int) result" where
  "dial_endpoint p =
     (let check = (\<lambda>host port. if host = [] \<or> port \<le> 0
            then Err (''invalid dial endpoint '' @ go_quote host @ '':'' @ itoa port)
            else Ok (host, port))
      in if uses_http_proxy p then
           (case t_proxy (p_transport p) of
              None \<Rightarrow> Err ''http_proxy mode selected but http_proxy config is missing''
            | Some hp \<Rightarrow> check (hp_host hp) (hp_port hp))
         else check (ssh_host (p_ssh p)) (ssh_port (p_ssh p)))"

text \<open>The checks of \<open>sshcustomd validate\<close>, after both files have been read.\<close>

definition validate_profiles :: "profiles_file \<Rightarrow> string option" where
  "validate_profiles pf =
     (case selected_profile pf of
        None \<Rightarrow> Some ''no profile found''
      | Some sp \<Rightarrow>
          if ssh_host (p_ssh sp) = [] \<or> ssh_port (p_ssh sp) \<le> 0
            then Some ''selected profile has invalid ssh host/port''
          else if t_chain (p_transport sp) = [] then Some ''selected profile has empty transport chain''
          else None)"

section \<open>Upsert\<close>

fun first_index :: "('a \<Rightarrow> bool) \<Rightarrow> 'a list \<Rightarrow> nat option" where
  "first_index P [] = None"
| "first_index P (x # xs) = (if P x then Some 0 else map_option Suc (first_index P xs))"

definition request_name :: "save_request \<Rightarrow> string" where
  "request_name req = (let n = trim_space (rq_name req) in if n = [] then ''SSHCustom Profile'' else n)"

definition request_id :: "int \<Rightarrow> profiles_file \<Rightarrow> save_request \<Rightarrow> string" where
  "request_id now pf req =
     (let i = trim_space (rq_id req);
          i = (if i = [] then unique_profile_id now pf (slugify (request_name req)) else i)
      in if i = [] then unique_profile_id now pf (''profile-'' @ itoa now) else i)"

definition request_ssh :: "string \<Rightarrow> ssh_conf \<Rightarrow> ssh_conf" where
  "request_ssh old_password s =
     s\<lparr>ssh_password := (if ssh_password s = [] then old_password else ssh_password s),
       ssh_auth := (if ssh_auth s = [] then ''password'' else ssh_auth s)\<rparr>"

text \<open>The index of the profile the request replaces; a request without an identifier never replaces.\<close>

definition request_index :: "int \<Rightarrow> profiles_file \<Rightarrow> save_request \<Rightarrow> nat option" where
  "request_index now pf req =
     (if trim_space (rq_id req) = [] then None
      else first_index (\<lambda>p. p_id p = request_id now pf req) (pf_profiles pf))"

definition request_profile :: "int \<Rightarrow> profiles_file \<Rightarrow> save_request \<Rightarrow> profile" where
  "request_profile now pf req =
     (let old_password = (case request_index now pf req of None \<Rightarrow> []
                          | Some k \<Rightarrow> ssh_password (p_ssh (pf_profiles pf ! k)));
          ssh = request_ssh old_password (rq_ssh req)
      in \<lparr>p_id = request_id now pf req, p_name = request_name req, p_selected = False, p_ssh = ssh,
          p_transport = build_transport (normalize_mode (rq_mode req)) (rq_payload req)
            (rq_proxy req) (rq_tls req) ssh\<rparr>)"

definition upsert_profile :: "int \<Rightarrow> profiles_file \<Rightarrow> save_request \<Rightarrow> string option \<times> profiles_file" where
  "upsert_profile now pf req =
     (if trim_space (ssh_host (rq_ssh req)) = [] then (Some ''SSH host is required'', pf)
      else if ssh_port (rq_ssh req) \<le> 0 \<or> 65535 < ssh_port (rq_ssh req)
        then (Some ''SSH port must be 1-65535'', pf)
      else if trim_space (ssh_user (rq_ssh req)) = [] then (Some ''SSH username is required'', pf)
      else if normalize_mode (rq_mode req) = [] then (Some ''invalid transport mode'', pf)
      else
        let i = request_id now pf req;
            prof = request_profile now pf req;
            pf1 = pf\<lparr>pf_profiles := (case request_index now pf req of
                       Some k \<Rightarrow> (pf_profiles pf)[k := prof] | None \<Rightarrow> pf_profiles pf @ [prof])\<rparr>
        in if rq_select req \<or> pf_selected pf1 = [] \<or> pf_selected pf1 = i
           then (None, snd (select_profile_by_id pf1 i))
           else (None, pf1))"

section \<open>Slugs\<close>

lemma dash_not_slug [simp]: "\<not> slug_char (CHR ''-'')"
  by (simp add: slug_char_def is_lower_def is_digit_def)

definition slug_words :: "string \<Rightarrow> string list" where
  "slug_words s = fields_func (\<lambda>c. \<not> slug_char c) s"

lemma slug_words_simps:
  "slug_words [] = []"
  "\<not> slug_char c \<Longrightarrow> slug_words (c # s) = slug_words s"
  "slug_char c \<Longrightarrow> slug_words (c # s) = (c # takeWhile slug_char s) # slug_words (dropWhile slug_char s)"
  by (simp_all add: slug_words_def)

lemma slug_words_chars: "w \<in> set (slug_words s) \<Longrightarrow> w \<noteq> [] \<and> list_all slug_char w"
  by (induction "\<lambda>c. \<not> slug_char c" s rule: fields_func.induct)
    (auto simp: slug_words_simps slug_words_def split: if_splits)

lemma slug_loop_word:
  "slug_loop s False = takeWhile slug_char s @
     (case dropWhile slug_char s of [] \<Rightarrow> [] | _ # t \<Rightarrow> CHR ''-'' # slug_loop t True)"
  by (induction s) auto

lemma slug_loop_join:
  "\<exists>t \<in> {[], ''-''}. slug_loop s True = str_join ''-'' (slug_words s) @ t \<and> (slug_words s = [] \<longrightarrow> t = [])"
proof (induction s rule: measure_induct_rule [where f = length])
  case (less s)
  show ?case
  proof (cases s)
    case Nil
    then show ?thesis by (simp add: slug_words_simps)
  next
    case (Cons c s')
    show ?thesis
    proof (cases "slug_char c")
      case False
      with less.IH [of s'] Cons show ?thesis by (simp add: slug_words_simps)
    next
      case True
      let ?r = "dropWhile slug_char s'"
      have ws: "slug_words s = (c # takeWhile slug_char s') # slug_words ?r"
        using Cons True by (simp add: slug_words_simps)
      show ?thesis
      proof (cases ?r)
        case Nil
        then have "slug_loop s True = c # takeWhile slug_char s'"
          unfolding Cons using True slug_loop_word [of s'] by (simp only: slug_loop.simps if_True list.case append_Nil2)
        then show ?thesis using ws Nil by (simp add: slug_words_simps)
      next
        case (Cons d r)
        have d: "\<not> slug_char d" using Cons by (metis dropWhile_eq_Cons_conv)
        have l: "slug_loop s True = (c # takeWhile slug_char s') @ CHR ''-'' # slug_loop r True"
          using \<open>s = c # s'\<close> True Cons slug_loop_word [of s'] by simp
        have "length r < length s"
          using \<open>s = c # s'\<close> Cons length_dropWhile_le [of slug_char s'] by simp
        then obtain t where t: "t \<in> {[], ''-''}" "slug_loop r True = str_join ''-'' (slug_words r) @ t"
            "slug_words r = [] \<longrightarrow> t = []"
          using less.IH by blast
        have "slug_words ?r = slug_words r" using Cons d by (simp add: slug_words_simps)
        then show ?thesis using ws l t by (cases "slug_words r") auto
      qed
    qed
  qed
qed

lemma slug_loop_join_False:
  "\<exists>h \<in> {[], ''-''}. \<exists>t \<in> {[], ''-''}. slug_loop s False = h @ str_join ''-'' (slug_words s) @ t
     \<and> (slug_words s = [] \<longrightarrow> t = [])"
proof (cases s)
  case Nil
  then show ?thesis by (simp add: slug_words_simps)
next
  case (Cons c s')
  show ?thesis
  proof (cases "slug_char c")
    case True
    then have "slug_loop s False = slug_loop s True" using Cons by simp
    then show ?thesis using slug_loop_join [of s] by auto
  next
    case False
    then have "slug_loop s False = ''-'' @ slug_loop s' True" "slug_words s = slug_words s'"
      using Cons by (simp_all add: slug_words_simps)
    then show ?thesis using slug_loop_join [of s'] by fastforce
  qed
qed

lemma join_slug_ends:
  assumes "ws \<noteq> []" "\<forall>w\<in>set ws. w \<noteq> [] \<and> list_all slug_char w"
  shows "str_join ''-'' ws \<noteq> [] \<and> slug_char (hd (str_join ''-'' ws)) \<and> slug_char (last (str_join ''-'' ws))"
  using assms
proof (induction "''-''" ws rule: str_join.induct)
  case (2 w)
  then show ?case by (cases w) (auto simp: list_all_iff)
next
  case (3 w v ws)
  then show ?case by (cases w) (auto simp: list_all_iff)
qed simp

lemma slug_join_ends:
  assumes "slug_words s \<noteq> []"
  shows "str_join ''-'' (slug_words s) \<noteq> [] \<and> slug_char (hd (str_join ''-'' (slug_words s))) \<and>
     slug_char (last (str_join ''-'' (slug_words s)))"
  using assms slug_words_chars by (intro join_slug_ends) auto

lemma trim_char_between:
  assumes "j = [] \<or> hd j \<noteq> c \<and> last j \<noteq> c" "j = [] \<Longrightarrow> t = []" "list_all ((=) c) h" "list_all ((=) c) t"
  shows "trim_char c (h @ j @ t) = j"
proof -
  have d: "dropWhile (\<lambda>d. d = c) (a @ b) = dropWhile (\<lambda>d. d = c) b" if "list_all ((=) c) a" for a b
    using that by (induction a) auto
  show ?thesis
  proof (cases "j = []")
    case True
    have "dropWhile (\<lambda>d. d = c) (h @ []) = []" unfolding d [OF assms(3)] by simp
    moreover have "h @ j @ t = h @ []" using True assms(2) by simp
    ultimately show ?thesis unfolding trim_char_def trim_with_def True by (simp only: rev.simps dropWhile.simps)
  next
    case False
    then have "hd j \<noteq> c" "last j \<noteq> c" using assms(1) by auto
    have "dropWhile (\<lambda>d. d = c) (h @ j @ t) = j @ t"
      using d [OF assms(3), of "j @ t"] False \<open>hd j \<noteq> c\<close> by (cases j) auto
    moreover have "dropWhile (\<lambda>d. d = c) (rev t @ rev j) = rev j"
      using d [of "rev t" "rev j"] assms(4) False \<open>last j \<noteq> c\<close>
      by (cases j rule: rev_cases) auto
    ultimately show ?thesis by (simp add: trim_char_def trim_with_def)
  qed
qed

lemma slugify_join: "slugify s = str_join ''-'' (slug_words (to_lower (trim_space s)))"
proof -
  let ?s = "to_lower (trim_space s)" and ?j = "str_join ''-'' (slug_words (to_lower (trim_space s)))"
  obtain h t where ht: "h \<in> {[], ''-''}" "t \<in> {[], ''-''}" "slug_loop ?s False = h @ ?j @ t"
      "slug_words ?s = [] \<longrightarrow> t = []"
    using slug_loop_join_False [of ?s] by blast
  have "?j = [] \<or> hd ?j \<noteq> CHR ''-'' \<and> last ?j \<noteq> CHR ''-''"
    using slug_join_ends [of ?s] dash_not_slug str_join.simps(1) by metis
  moreover have "?j = [] \<Longrightarrow> t = []"
    using ht(4) slug_join_ends [of ?s] by blast
  moreover have "list_all ((=) (CHR ''-'')) h" "list_all ((=) (CHR ''-'')) t"
    using ht(1,2) by auto
  ultimately show ?thesis unfolding slugify_def ht(3) by (rule trim_char_between)
qed

section \<open>The slug of a name is a normal form\<close>

lemma slug_words_append_dash:
  "w \<noteq> [] \<Longrightarrow> list_all slug_char w \<Longrightarrow> slug_words (w @ CHR ''-'' # s) = w # slug_words s"
proof -
  assume "w \<noteq> []" "list_all slug_char w"
  then obtain c w' where w: "w = c # w'" "slug_char c" "list_all slug_char w'"
    by (cases w) auto
  have "takeWhile slug_char (w' @ CHR ''-'' # s) = w'" "dropWhile slug_char (w' @ CHR ''-'' # s) = CHR ''-'' # s"
    using w(3) by (induction w') auto
  then show ?thesis using w by (simp add: slug_words_simps)
qed

lemma slug_words_word:
  assumes "w \<noteq> []" "list_all slug_char w"
  shows "slug_words w = [w]"
proof -
  from assms obtain c s where w: "w = c # s" "slug_char c" "list_all slug_char s"
    by (cases w) auto
  have d: "dropWhile slug_char s = []" "takeWhile slug_char s = s"
    using w(3) by (induction s) auto
  show ?thesis unfolding w(1) slug_words_simps(3) [OF w(2)] d by (simp only: slug_words_simps(1))
qed

lemma slug_words_join:
  "\<forall>w\<in>set ws. w \<noteq> [] \<and> list_all slug_char w \<Longrightarrow> slug_words (str_join ''-'' ws) = ws"
  by (induction "''-''" ws rule: str_join.induct)
    (auto simp: slug_words_simps slug_words_word slug_words_append_dash)

lemma str_join_chars: "set (str_join sep ws) \<subseteq> set sep \<union> \<Union> (set ` set ws)"
  by (induction sep ws rule: str_join.induct) auto

lemma slugify_chars: "set (slugify s) \<subseteq> {c. slug_char c \<or> c = CHR ''-''}"
  using str_join_chars [of "''-''" "slug_words (to_lower (trim_space s))"] slug_words_chars
  by (fastforce simp: slugify_join list_all_iff)

lemma slug_text_plain:
  assumes "set s \<subseteq> {c. slug_char c \<or> c = CHR ''-''}"
  shows "trim_space s = s" "to_lower s = s"
proof -
  have c: "\<not> is_space c \<and> \<not> is_upper c" if "c \<in> set s" for c
  proof -
    have "\<not> is_space (CHR ''-'')" "\<not> is_upper (CHR ''-'')" by (simp_all add: is_space_def is_upper_def)
    then show ?thesis using that assms lower_not_space digit_not_space lower_not_upper digit_not_upper
      by (auto simp: slug_char_def)
  qed
  then show "trim_space s = s" by (intro trim_space_id) (auto simp: list_all_iff)
  show "to_lower s = s" using c by (auto simp: to_lower_def lower_char_id intro: map_idI)
qed

lemma slugify_idem [simp]: "slugify (slugify s) = slugify s"
proof -
  have "slug_words (slugify s) = slug_words (to_lower (trim_space s))"
    unfolding slugify_join using slug_words_chars by (intro slug_words_join) auto
  then show ?thesis
    unfolding slugify_join [of "slugify s"] slug_text_plain [OF slugify_chars [of s]]
    by (simp only: slugify_join [of s])
qed

text \<open>The slug of any name is its lower-cased runs of letters and digits
  joined by single dashes (so it has no leading, trailing or double dash and no other character),
  and slugging a slug changes nothing.\<close>

theorem slugify_normal_form:
  "slugify s = str_join ''-'' (fields_func (\<lambda>c. \<not> slug_char c) (to_lower (trim_space s))) \<and>
   set (slugify s) \<subseteq> {c. slug_char c \<or> c = CHR ''-''} \<and>
   slugify (slugify s) = slugify s"
  using slugify_join [of s, unfolded slug_words_def] slugify_chars [of s] slugify_idem [of s]
  by (intro conjI)

section \<open>Fresh identifiers\<close>

lemma next_free_Some: "next_free used base i = Some c \<Longrightarrow> c \<notin> set used"
proof (induction used base i rule: next_free.induct)
  case (1 used base i)
  then show ?case by (subst (asm) (2) next_free.simps) (auto simp: Let_def split: if_splits)
qed

lemma next_free_form: "next_free used base i = Some c \<Longrightarrow> \<exists>j. c = base @ ''-'' @ nat_dec j"
proof (induction used base i rule: next_free.induct)
  case (1 used base i)
  then show ?case by (subst (asm) (2) next_free.simps) (auto simp: Let_def split: if_splits)
qed

lemma next_free_None:
  "next_free used base i = None \<Longrightarrow> i \<le> j \<Longrightarrow> j < 10000 \<Longrightarrow> base @ ''-'' @ nat_dec j \<in> set used"
proof (induction used base i rule: next_free.induct)
  case (1 used base i)
  have u: "base @ ''-'' @ nat_dec i \<in> set used" "next_free used base (Suc i) = None"
    using 1(2-4) by (simp_all add: next_free.simps [of used base i] Let_def split: if_splits)
  show ?case
  proof (cases "j = i")
    case False
    with 1(3,4) u show ?thesis by (intro 1(1)) auto
  qed (use u in simp)
qed

lemma candidates_all_taken:
  assumes "\<And>j. 2 \<le> j \<Longrightarrow> j < n \<Longrightarrow> b @ ''-'' @ nat_dec j \<in> set used" "b \<in> set used"
  shows "n - 1 \<le> length used"
proof -
  let ?cs = "b # map (\<lambda>j. b @ ''-'' @ nat_dec j) [2..<n]"
  have "set ?cs \<subseteq> set used" using assms by auto
  moreover have "distinct ?cs" by (auto simp: distinct_map inj_on_def)
  ultimately have "length ?cs \<le> length used"
    by (metis card_mono card_length distinct_card finite_set le_trans)
  then show ?thesis by simp
qed

lemma unique_profile_id_fresh:
  assumes "length (pf_profiles pf) < 9999"
  shows "unique_profile_id now pf base \<notin> p_id ` set (pf_profiles pf)"
proof -
  have "False" if "next_free (map p_id (pf_profiles pf)) b 2 = None" "b \<in> p_id ` set (pf_profiles pf)" for b
    using candidates_all_taken [of 10000 b "map p_id (pf_profiles pf)"] next_free_None [OF that(1)] that(2) assms
    by simp
  then show ?thesis
    by (auto simp: unique_profile_id_def Let_def dest!: next_free_Some split: option.splits)
qed

text \<open>\<open>uniqueProfileID\<close> never returns an identifier that a profile of the
  file already has, as long as the file holds fewer than 9999 profiles (the base and its 9998
  numbered variants cannot all be taken, so the timestamp fallback is never reached).\<close>

theorem unique_profile_id_is_fresh:
  assumes "length (pf_profiles pf) < 9999"
  shows "unique_profile_id now pf base \<notin> p_id ` set (pf_profiles pf)"
  by (rule unique_profile_id_fresh [OF assms])

theorem unique_profile_id_is_fresh_witness:
  "\<exists>pf. map p_id (pf_profiles pf) = [''main'', ''main-2''] \<and>
        unique_profile_id 0 pf ''main'' \<notin> p_id ` set (pf_profiles pf)"
proof -
  define p where "p i = \<lparr>p_id = i, p_name = [], p_selected = False,
     p_ssh = \<lparr>ssh_host = [], ssh_port = 0, ssh_user = [], ssh_password = [], ssh_auth = [], ssh_fallback = []\<rparr>,
     p_transport = build_transport ''direct'' \<lparr>pl_enabled = False, pl_template = [], pl_timing = [],
       pl_read = False, pl_allow = []\<rparr> None None
       \<lparr>ssh_host = [], ssh_port = 0, ssh_user = [], ssh_password = [], ssh_auth = [], ssh_fallback = []\<rparr>\<rparr>"
    for i :: string
  let ?pf = "\<lparr>pf_selected = [], pf_profiles = [p ''main'', p ''main-2'']\<rparr>"
  have "length (pf_profiles ?pf) < 9999" by simp
  from unique_profile_id_is_fresh [OF this, of 0 "''main''"]
  show ?thesis by (intro exI [of _ ?pf]) (simp add: p_def)
qed

section \<open>Selection\<close>

definition unselect :: "profile \<Rightarrow> profile" where
  "unselect p = p\<lparr>p_selected := False\<rparr>"

lemma unselect_simps [simp]:
  "unselect (p\<lparr>p_selected := b\<rparr>) = unselect p" "p_id (unselect p) = p_id p"
  "p_ssh (unselect p) = p_ssh p" "p_transport (unselect p) = p_transport p"
  by (simp_all add: unselect_def)

definition has_id :: "profiles_file \<Rightarrow> string \<Rightarrow> bool" where
  "has_id pf i = (i \<in> p_id ` set (pf_profiles pf))"

text \<open>The invariant of a stored file: identifiers are distinct and the selected one, if set, exists.\<close>

definition store_inv :: "profiles_file \<Rightarrow> bool" where
  "store_inv pf = (distinct (map p_id (pf_profiles pf)) \<and>
     (pf_selected pf = [] \<or> has_id pf (pf_selected pf)))"

lemma list_ex_has_id: "list_ex (\<lambda>p. p_id p = i) (pf_profiles pf) = has_id pf i"
  by (auto simp: list_ex_iff has_id_def)

lemma select_ok_iff:
  "fst (select_profile_by_id pf i) = None \<longleftrightarrow> trim_space i \<noteq> [] \<and> has_id pf (trim_space i)"
  by (simp add: select_profile_by_id_def Let_def list_ex_has_id)

lemma select_result:
  assumes "trim_space i \<noteq> []" "has_id pf (trim_space i)"
  shows "select_profile_by_id pf i = (None, pf\<lparr>pf_profiles :=
     map (\<lambda>p. p\<lparr>p_selected := (p_id p = trim_space i)\<rparr>) (pf_profiles pf), pf_selected := trim_space i\<rparr>)"
  using assms by (simp add: select_profile_by_id_def Let_def list_ex_has_id)

lemma find_p_id_map: 
  "find (\<lambda>p. p_id p = i) (map (\<lambda>p. p\<lparr>p_selected := f p\<rparr>) ps)
     = map_option (\<lambda>p. p\<lparr>p_selected := f p\<rparr>) (find (\<lambda>p. p_id p = i) ps)"
  by (induction ps) auto

lemma find_has_id: "has_id pf i \<longleftrightarrow> (\<exists>p. find (\<lambda>p. p_id p = i) (pf_profiles pf) = Some p \<and> p_id p = i)"
proof -
  have "i \<in> p_id ` set ps \<longleftrightarrow> (\<exists>p. find (\<lambda>p. p_id p = i) ps = Some p \<and> p_id p = i)" for ps
    by (induction ps) auto
  then show ?thesis by (simp add: has_id_def)
qed

lemma selected_profile_by_id:
  assumes "pf_selected pf \<noteq> []" "find (\<lambda>p. p_id p = pf_selected pf) (pf_profiles pf) = Some p"
  shows "selected_profile pf = Some p"
  using assms by (simp add: selected_profile_def)

lemma map_selected_ids [simp]: "map p_id (map (\<lambda>p. p\<lparr>p_selected := f p\<rparr>) ps) = map p_id ps"
  by simp

text \<open>A successful \<open>selectProfileByID\<close> makes the named profile the one
  \<open>selectedProfile\<close> returns, flags exactly the profiles with that identifier and changes nothing
  else of any profile; it fails exactly when the trimmed identifier is empty or unknown.\<close>

theorem select_profile_correct:
  "case select_profile_by_id pf i of
     (None, pf') \<Rightarrow>
       (\<exists>p. selected_profile pf' = Some p \<and> p_id p = trim_space i \<and> p_selected p) \<and>
       {p \<in> set (pf_profiles pf'). p_selected p} = {p \<in> set (pf_profiles pf'). p_id p = trim_space i} \<and>
       map unselect (pf_profiles pf') = map unselect (pf_profiles pf)
   | (Some e, pf') \<Rightarrow> \<not> (trim_space i \<noteq> [] \<and> has_id pf (trim_space i)) \<and> pf_selected pf' = pf_selected pf"
proof (cases "trim_space i \<noteq> [] \<and> has_id pf (trim_space i)")
  case True
  then obtain p where p: "find (\<lambda>p. p_id p = trim_space i) (pf_profiles pf) = Some p" "p_id p = trim_space i"
    using find_has_id by blast
  let ?pf' = "pf\<lparr>pf_profiles := map (\<lambda>p. p\<lparr>p_selected := (p_id p = trim_space i)\<rparr>) (pf_profiles pf),
      pf_selected := trim_space i\<rparr>"
  have "selected_profile ?pf' = Some (p\<lparr>p_selected := True\<rparr>)"
    using True p by (intro selected_profile_by_id) (simp_all add: find_p_id_map)
  then show ?thesis using True p by (auto simp: select_result)
next
  case False
  then show ?thesis by (auto simp: select_profile_by_id_def Let_def list_ex_has_id)
qed

lemma select_store_inv: "store_inv pf \<Longrightarrow> store_inv (snd (select_profile_by_id pf i))"
  by (auto simp: store_inv_def select_profile_by_id_def Let_def list_ex_has_id has_id_def comp_def image_image)

lemma select_frame [frame_simps]:
  "map unselect (pf_profiles (snd (select_profile_by_id pf i))) = map unselect (pf_profiles pf)"
  "p_id ` set (pf_profiles (snd (select_profile_by_id pf i))) = p_id ` set (pf_profiles pf)"
  "length (pf_profiles (snd (select_profile_by_id pf i))) = length (pf_profiles pf)"
  by (auto simp: select_profile_by_id_def Let_def comp_def image_image)

section \<open>Deletion\<close>

lemma delete_store_inv: "store_inv pf \<Longrightarrow> store_inv (snd (delete_profile pf i))"
  by (auto simp: store_inv_def delete_profile_def has_id_def distinct_map inj_on_def)

lemma delete_length: "length (pf_profiles (snd (delete_profile pf i))) \<le> length (pf_profiles pf)"
  by (simp add: delete_profile_def)

text \<open>A successful delete removes exactly the profiles with the given
  identifier, keeps the others in order, and never leaves \<open>selected_id\<close> pointing at the deleted
  profile; every failure leaves the file as it was.\<close>

theorem delete_profile_correct:
  "case delete_profile pf i of
     (None, pf') \<Rightarrow> has_id pf i \<and> \<not> has_id pf' i \<and> pf_selected pf' \<noteq> i \<and>
                   subseq (pf_profiles pf') (pf_profiles pf) \<and>
                   set (pf_profiles pf) - set (pf_profiles pf') = {p \<in> set (pf_profiles pf). p_id p = i}
   | (Some e, pf') \<Rightarrow> \<not> (i \<noteq> [] \<and> has_id pf i) \<and> pf' = pf"
  by (auto simp: delete_profile_def list_ex_has_id has_id_def)

section \<open>Upsert\<close>

lemma first_index_Some:
  "first_index P xs = Some k \<Longrightarrow> k < length xs \<and> P (xs ! k) \<and> (\<forall>j<k. \<not> P (xs ! j))"
  by (induction xs arbitrary: k) (auto split: if_splits simp: less_Suc_eq_0_disj)

lemma first_index_None: "first_index P xs = None \<longleftrightarrow> (\<forall>x\<in>set xs. \<not> P x)"
  by (induction xs) auto

lemma request_id_nonempty: "request_id now pf req \<noteq> []"
proof -
  have "unique_profile_id now pf b \<noteq> []" for b
    using next_free_form by (auto simp: unique_profile_id_def Let_def split: option.splits)
  then show ?thesis by (simp add: request_id_def Let_def)
qed

definition request_valid :: "save_request \<Rightarrow> bool" where
  "request_valid req =
     (trim_space (ssh_host (rq_ssh req)) \<noteq> [] \<and> 1 \<le> ssh_port (rq_ssh req) \<and> ssh_port (rq_ssh req) \<le> 65535 \<and>
      trim_space (ssh_user (rq_ssh req)) \<noteq> [] \<and> normalize_mode (rq_mode req) \<noteq> [])"

definition stored :: "int \<Rightarrow> profiles_file \<Rightarrow> save_request \<Rightarrow> profiles_file" where
  "stored now pf req =
     pf\<lparr>pf_profiles := (case request_index now pf req of
          Some k \<Rightarrow> (pf_profiles pf)[k := request_profile now pf req]
        | None \<Rightarrow> pf_profiles pf @ [request_profile now pf req])\<rparr>"

lemma upsert_invalid: "\<not> request_valid req \<Longrightarrow> \<exists>e. upsert_profile now pf req = (Some e, pf)"
  by (auto simp: request_valid_def upsert_profile_def)

lemma upsert_valid:
  "request_valid req \<Longrightarrow> upsert_profile now pf req =
     (None, if rq_select req \<or> pf_selected pf = [] \<or> pf_selected pf = request_id now pf req
            then snd (select_profile_by_id (stored now pf req) (request_id now pf req))
            else stored now pf req)"
  by (auto simp: request_valid_def upsert_profile_def stored_def Let_def)

lemma request_profile_id [simp]: "p_id (request_profile now pf req) = request_id now pf req"
  by (simp add: request_profile_def Let_def)

lemma request_index_Some:
  "request_index now pf req = Some k \<Longrightarrow>
     k < length (pf_profiles pf) \<and> p_id (pf_profiles pf ! k) = request_id now pf req"
  by (auto simp: request_index_def dest: first_index_Some split: if_splits)

lemma request_id_keeps: "trim_space (rq_id req) \<noteq> [] \<Longrightarrow> request_id now pf req = trim_space (rq_id req)"
  by (simp add: request_id_def Let_def)

lemma request_id_new_fresh:
  assumes "trim_space (rq_id req) = []" "length (pf_profiles pf) < 9999"
  shows "\<not> has_id pf (request_id now pf req)"
  using assms unique_profile_id_fresh [of pf now] by (auto simp: request_id_def Let_def has_id_def)

lemma request_index_None_fresh:
  assumes "request_index now pf req = None" "length (pf_profiles pf) < 9999"
  shows "\<not> has_id pf (request_id now pf req)"
proof (cases "trim_space (rq_id req) = []")
  case True
  then show ?thesis using assms request_id_new_fresh by blast
next
  case False
  then show ?thesis using assms by (auto simp: request_index_def first_index_None has_id_def)
qed

lemma stored_ids:
  assumes "length (pf_profiles pf) < 9999"
  shows "map p_id (pf_profiles (stored now pf req)) =
     (if has_id pf (request_id now pf req) then map p_id (pf_profiles pf)
      else map p_id (pf_profiles pf) @ [request_id now pf req])"
proof (cases "request_index now pf req")
  case None
  then show ?thesis using request_index_None_fresh assms by (simp add: stored_def)
next
  case (Some k)
  have k: "k < length (pf_profiles pf)" "p_id (pf_profiles pf ! k) = request_id now pf req"
    using request_index_Some [OF Some] by auto
  then have "map p_id ((pf_profiles pf)[k := request_profile now pf req]) = map p_id (pf_profiles pf)"
    by (simp add: map_update list_update_same_conv)
  moreover have "has_id pf (request_id now pf req)" using k nth_mem by (metis has_id_def image_eqI)
  ultimately show ?thesis using Some by (simp add: stored_def)
qed

lemma stored_has_id [simp]: "has_id (stored now pf req) (request_id now pf req)"
  using request_index_Some [of now pf req]
  by (auto simp: has_id_def stored_def image_iff set_update_memI split: option.splits
      intro!: bexI [of _ "request_profile now pf req"])

lemma stored_store_inv:
  assumes "store_inv pf" "length (pf_profiles pf) < 9999"
  shows "store_inv (stored now pf req)"
proof -
  have ids: "p_id ` set (pf_profiles (stored now pf req)) =
      insert (request_id now pf req) (p_id ` set (pf_profiles pf))"
    using arg_cong [OF stored_ids [OF assms(2), of now req], of set] by (auto simp: has_id_def)
  moreover have "distinct (map p_id (pf_profiles (stored now pf req)))"
    using stored_ids [OF assms(2)] assms(1) by (simp add: store_inv_def has_id_def)
  moreover have "pf_selected (stored now pf req) = pf_selected pf" by (simp add: stored_def)
  ultimately show ?thesis using assms(1) by (auto simp: store_inv_def has_id_def)
qed

lemma upsert_store_inv:
  "store_inv pf \<Longrightarrow> length (pf_profiles pf) < 9999 \<Longrightarrow> store_inv (snd (upsert_profile now pf req))"
  using upsert_invalid [of req now pf] upsert_valid [of req now pf] stored_store_inv [of pf now req]
  by (cases "request_valid req") (auto intro: select_store_inv)

lemma upsert_length: "length (pf_profiles (snd (upsert_profile now pf req))) \<le> Suc (length (pf_profiles pf))"
  using upsert_invalid [of req now pf] upsert_valid [of req now pf]
  by (cases "request_valid req") (auto simp: frame_simps stored_def split: option.splits)

section \<open>Histories of the store\<close>

datatype store_op = Select string | Delete string | Save int save_request

fun store_step :: "profiles_file \<Rightarrow> store_op \<Rightarrow> profiles_file" where
  "store_step pf (Select i) = snd (select_profile_by_id pf i)"
| "store_step pf (Delete i) = snd (delete_profile pf i)"
| "store_step pf (Save now req) = snd (upsert_profile now pf req)"

definition room :: "profiles_file \<Rightarrow> store_op \<Rightarrow> bool" where
  "room pf op = (length (pf_profiles pf) < 9999)"

interpretation store: step_invariant store_step store_inv room
proof unfold_locales
  fix pf op
  assume "store_inv pf" "room pf op"
  then show "store_inv (store_step pf op)"
    by (cases op) (auto simp: room_def intro: select_store_inv delete_store_inv upsert_store_inv)
qed

lemma store_step_length: "length (pf_profiles (store_step pf op)) \<le> Suc (length (pf_profiles pf))"
  using delete_length [of pf] upsert_length [of _ pf]
  by (cases op) (auto simp: frame_simps le_SucI)

lemma store_run_room: "length (pf_profiles pf) + length ops \<le> 9999 \<Longrightarrow> run_ok store_step room pf ops"
proof (induction ops arbitrary: pf)
  case (Cons op ops)
  have "length (pf_profiles (store_step pf op)) + length ops \<le> 9999"
    using Cons.prems store_step_length [of pf op] by simp
  then show ?case using Cons by (simp add: room_def)
qed simp

text \<open>C9: starting from a consistent file, any history of selections, deletions and
  saves that the file has room for keeps it consistent: no two profiles ever share an
  identifier, and \<open>selected_id\<close> is empty or names a profile that exists.\<close>

theorem store_history_inv:
  assumes "store_inv pf" "length (pf_profiles pf) + length ops \<le> 9999"
  shows "store_inv (run store_step pf ops)"
  using store.run_inv assms store_run_room by blast

definition sample_request :: save_request where
  "sample_request = \<lparr>rq_id = [], rq_name = ''My VPN'', rq_select = True, rq_restart = False,
     rq_ssh = \<lparr>ssh_host = ''example.com'', ssh_port = 22, ssh_user = ''u'', ssh_password = ''p'',
               ssh_auth = [], ssh_fallback = []\<rparr>,
     rq_mode = ''http_proxy_tls_sni'', rq_proxy = None, rq_tls = None,
     rq_payload = \<lparr>pl_enabled = True, pl_template = ''[crlf]'', pl_timing = [], pl_read = True, pl_allow = []\<rparr>\<rparr>"

definition empty_store :: profiles_file where
  "empty_store = \<lparr>pf_selected = [], pf_profiles = []\<rparr>"

lemma empty_store_facts [simp]: "store_inv empty_store" "pf_profiles empty_store = []" "pf_selected empty_store = []"
  by (simp_all add: empty_store_def store_inv_def)

theorem store_history_inv_witness:
  "store_inv (run store_step empty_store [Save 0 sample_request, Select ''my-vpn'', Save 1 sample_request, Delete ''my-vpn''])"
  by (rule store_history_inv) simp_all

section \<open>What a save stores\<close>

lemma find_first_index: "find P xs = (case first_index P xs of None \<Rightarrow> None | Some k \<Rightarrow> Some (xs ! k))"
  by (induction xs) (auto split: option.splits)

lemma find_after_None: "find P xs = None \<Longrightarrow> P x \<Longrightarrow> find P (xs @ [x]) = Some x"
  by (induction xs) (auto split: if_splits)

lemma find_stored:
  assumes "length (pf_profiles pf) < 9999"
  shows "find (\<lambda>p. p_id p = request_id now pf req) (pf_profiles (stored now pf req)) =
     Some (request_profile now pf req)"
proof (cases "request_index now pf req")
  case None
  then have "find (\<lambda>p. p_id p = request_id now pf req) (pf_profiles pf) = None"
    using request_index_None_fresh [OF None assms] unfolding find_None_iff has_id_def by (metis image_eqI)
  then show ?thesis using None by (simp add: stored_def find_after_None)
next
  case (Some k)
  then have f: "first_index (\<lambda>p. p_id p = request_id now pf req) (pf_profiles pf) = Some k"
    by (simp add: request_index_def split: if_splits)
  then have "find (\<lambda>p. p_id p = request_id now pf req)
      ((pf_profiles pf)[k := request_profile now pf req]) = Some (request_profile now pf req)"
  proof -
    have "find P (xs[k := x]) = Some x" if "first_index P xs = Some k" "P x" for P xs k and x :: profile
      using that by (induction xs arbitrary: k) (auto split: if_splits nat.splits)
    then show ?thesis using f by simp
  qed
  then show ?thesis using Some by (simp add: stored_def)
qed

lemma stored_others:
  "filter (\<lambda>p. p_id p \<noteq> request_id now pf req) (pf_profiles (stored now pf req)) =
   filter (\<lambda>p. p_id p \<noteq> request_id now pf req) (pf_profiles pf)"
proof (cases "request_index now pf req")
  case None
  then show ?thesis by (simp add: stored_def)
next
  case (Some k)
  have "filter P (xs[k := x]) = filter P xs" if "k < length xs" "\<not> P (xs ! k)" "\<not> P x"
    for P xs k and x :: profile
    using that by (induction xs arbitrary: k) (auto split: nat.splits simp: nth_Cons')
  then show ?thesis using Some request_index_Some [OF Some] by (simp add: stored_def)
qed

lemma filter_id_unselect:
  "map unselect (filter (\<lambda>p. p_id p \<noteq> i) (pf_profiles pf)) = filter (\<lambda>p. p_id p \<noteq> i) (map unselect (pf_profiles pf))"
  by (simp add: filter_map comp_def)

text \<open>The password a save stores: the one sent, or else that of the profile it replaces.\<close>

definition kept_password :: "profiles_file \<Rightarrow> save_request \<Rightarrow> string" where
  "kept_password pf req =
     (if ssh_password (rq_ssh req) \<noteq> [] then ssh_password (rq_ssh req)
      else if trim_space (rq_id req) = [] then []
      else case find (\<lambda>q. p_id q = trim_space (rq_id req)) (pf_profiles pf) of
             Some q \<Rightarrow> ssh_password (p_ssh q) | None \<Rightarrow> [])"

lemma request_profile_ssh:
  "p_ssh (request_profile now pf req) =
     (rq_ssh req)\<lparr>ssh_password := kept_password pf req,
       ssh_auth := (if ssh_auth (rq_ssh req) = [] then ''password'' else ssh_auth (rq_ssh req))\<rparr>"
proof (cases "trim_space (rq_id req) = []")
  case True
  then have "request_index now pf req = None" by (simp add: request_index_def)
  then show ?thesis using True by (simp add: request_profile_def request_ssh_def kept_password_def Let_def)
next
  case False
  then show ?thesis
    by (simp add: request_profile_def request_ssh_def kept_password_def Let_def request_index_def
        request_id_keeps find_first_index split: option.splits)
qed

text \<open>C10: with fewer than 9999 profiles stored, a valid save succeeds and stores under the
  request's identifier (a fresh one if it names none) the trimmed name and the SSH settings of the request.
  These replace the stored ones as a whole: the stored password is kept when none is sent, nothing else is,
  so the \<open>fallback_ips\<close> of an existing profile are lost when the request leaves them out. Every other profile
  stays as it was up to the selection flag; an invalid save returns an error and leaves the file unchanged.\<close>

theorem upsert_profile_correct:
  assumes "length (pf_profiles pf) < 9999"
  shows "if request_valid req then
      (\<exists>pf' p. upsert_profile now pf req = (None, pf') \<and>
         find (\<lambda>p. p_id p = request_id now pf req) (pf_profiles pf') = Some p \<and>
         p_name p = request_name req \<and>
         p_ssh p = (rq_ssh req)\<lparr>ssh_password := kept_password pf req,
           ssh_auth := (if ssh_auth (rq_ssh req) = [] then ''password'' else ssh_auth (rq_ssh req))\<rparr> \<and>
         map unselect (filter (\<lambda>p. p_id p \<noteq> request_id now pf req) (pf_profiles pf')) =
         map unselect (filter (\<lambda>p. p_id p \<noteq> request_id now pf req) (pf_profiles pf)))
    else \<exists>e. upsert_profile now pf req = (Some e, pf)"
proof (cases "request_valid req")
  case True
  let ?i = "request_id now pf req" and ?p = "request_profile now pf req" and ?s = "stored now pf req"
  let ?pf' = "snd (upsert_profile now pf req)"
  have up: "upsert_profile now pf req = (None, ?pf')" using upsert_valid [OF True] by simp
  have cases: "?pf' = ?s \<or> ?pf' = snd (select_profile_by_id ?s ?i)"
    using upsert_valid [OF True, of now pf] by simp
  have "\<exists>b. find (\<lambda>p. p_id p = ?i) (pf_profiles ?pf') = Some (?p\<lparr>p_selected := b\<rparr>)"
    using cases
  proof
    assume "?pf' = ?s"
    then show ?thesis using find_stored [OF assms, of now req]
      by (intro exI [of _ "p_selected ?p"]) simp
  next
    assume "?pf' = snd (select_profile_by_id ?s ?i)"
    then show ?thesis using find_stored [OF assms, of now req]
      by (auto simp: select_profile_by_id_def Let_def find_p_id_map) (intro exI [of _ "p_selected ?p"], simp)
  qed
  then obtain b where "find (\<lambda>p. p_id p = ?i) (pf_profiles ?pf') = Some (?p\<lparr>p_selected := b\<rparr>)" by blast
  moreover have "map unselect (filter (\<lambda>p. p_id p \<noteq> ?i) (pf_profiles ?pf')) =
      map unselect (filter (\<lambda>p. p_id p \<noteq> ?i) (pf_profiles pf))"
    using cases stored_others [of now pf req] by (auto simp: filter_id_unselect frame_simps simp flip: filter_id_unselect [of _ ?s])
  ultimately show ?thesis using True up request_profile_ssh [of now pf req]
    by (auto simp: request_profile_def Let_def)
next
  case False
  then show ?thesis using upsert_invalid by simp
qed

theorem upsert_profile_correct_witness:
  "\<exists>pf'. upsert_profile 7 empty_store sample_request = (None, pf')"
proof -
  have "length (pf_profiles empty_store) < 9999" by simp
  moreover have "request_valid sample_request"
    by (simp add: request_valid_def sample_request_def normalize_mode_def to_lower_def trim_space_def
        trim_with_def is_space_def lower_char_def is_upper_def)
  ultimately show ?thesis
    using upsert_profile_correct [of empty_store sample_request 7] by auto
qed

section \<open>A stored and selected profile can be used\<close>

lemma itoa_chars: "set (itoa n) \<subseteq> {c. slug_char c \<or> c = CHR ''-''}"
  using nat_dec_chars by (fastforce simp: itoa_def slug_char_def split: if_splits)

lemma unique_profile_id_chars: "set (unique_profile_id now pf base) \<subseteq> {c. slug_char c \<or> c = CHR ''-''}"
proof -
  have n: "set (nat_dec j) \<subseteq> {c. slug_char c \<or> c = CHR ''-''}" for j
    using nat_dec_chars by (fastforce simp: slug_char_def)
  have b: "set (trim_char (CHR ''-'') (slugify base)) \<subseteq> {c. slug_char c \<or> c = CHR ''-''}"
    using slugify_chars [of base] set_trim_with unfolding trim_char_def by blast
  have d: "set ''profile'' \<subseteq> {c. slug_char c \<or> c = CHR ''-''}"
    by (simp add: slug_char_def is_lower_def)
  define u where "u = (if trim_char (CHR ''-'') (slugify base) = [] then ''profile''
      else trim_char (CHR ''-'') (slugify base))"
  have u: "set u \<subseteq> {c. slug_char c \<or> c = CHR ''-''}" using b d unfolding u_def by presburger
  have eq: "unique_profile_id now pf base = (if u \<notin> set (map p_id (pf_profiles pf)) then u
      else case next_free (map p_id (pf_profiles pf)) u 2 of Some c \<Rightarrow> c | None \<Rightarrow> u @ ''-'' @ itoa now)"
    by (simp only: unique_profile_id_def Let_def u_def)
  show ?thesis
  proof (cases "next_free (map p_id (pf_profiles pf)) u 2")
    case None
    then show ?thesis using u itoa_chars [of now] unfolding eq by simp
  next
    case (Some c)
    with next_free_form obtain j where "c = u @ ''-'' @ nat_dec j" by blast
    then show ?thesis using Some u n unfolding eq by simp
  qed
qed

lemma request_id_trimmed [simp]: "trim_space (request_id now pf req) = request_id now pf req"
  using slug_text_plain(1) [OF unique_profile_id_chars] by (simp add: request_id_def Let_def)

text \<open>The chain \<open>buildTransport\<close> records is a subsequence of tcp,
  http_proxy, tls, payload, ssh that starts with tcp and ends with ssh; each middle stage is in it
  exactly when the matching configuration is present and enabled, and a proxy that is combined
  with TLS never stays on the plain port 80.\<close>

theorem build_transport_consistent:
  "let t = build_transport mode pl hp tc ssh in
     hd (t_chain t) = ''tcp'' \<and> last (t_chain t) = ''ssh'' \<and>
     subseq (t_chain t) [''tcp'', ''http_proxy'', ''tls'', ''payload'', ''ssh''] \<and>
     (''http_proxy'' \<in> set (t_chain t)) = (t_proxy t \<noteq> None) \<and>
     (''tls'' \<in> set (t_chain t)) = (t_tls t \<noteq> None) \<and>
     (''payload'' \<in> set (t_chain t)) = pl_enabled (t_payload t) \<and>
     pl_timing (t_payload t) \<noteq> [] \<and> pl_allow (t_payload t) \<noteq> [] \<and>
     (case (t_proxy t, t_tls t) of (Some p, Some s) \<Rightarrow> hp_port p \<noteq> 80 \<and> tls_enabled s | _ \<Rightarrow> True)"
  by (auto simp: build_transport_def build_payload_def build_proxy_def build_tls_def default_timing_def Let_def)

lemma build_proxy_usable:
  assumes "ssh_host s \<noteq> []" "0 < ssh_port s"
  shows "hp_host (build_proxy mode hp s) \<noteq> []" "0 < hp_port (build_proxy mode hp s)"
  using assms by (auto simp: build_proxy_def Let_def split: option.splits)

lemma build_transport_usable:
  assumes "ssh_host (p_ssh p) \<noteq> []" "0 < ssh_port (p_ssh p)"
    and "p_transport p = build_transport mode pl hp tc (p_ssh p)"
  shows "\<exists>h port. dial_endpoint p = Ok (h, port) \<and> h \<noteq> [] \<and> 0 < port" "t_chain (p_transport p) \<noteq> []"
proof -
  have u: "uses_http_proxy p \<longleftrightarrow> mode = ''http_proxy'' \<or> mode = ''http_proxy_tls_sni''"
    unfolding uses_http_proxy_def assms(3) by (auto simp: build_transport_def Let_def)
  show "\<exists>h port. dial_endpoint p = Ok (h, port) \<and> h \<noteq> [] \<and> 0 < port"
  proof (cases "uses_http_proxy p")
    case True
    then have "t_proxy (p_transport p) = Some (build_proxy mode hp (p_ssh p))"
      using u unfolding assms(3) by (simp add: build_transport_def Let_def)
    then show ?thesis using True build_proxy_usable [OF assms(1,2), of mode hp]
      by (simp add: dial_endpoint_def Let_def)
  qed (use assms(1,2) in \<open>simp add: dial_endpoint_def Let_def\<close>)
  show "t_chain (p_transport p) \<noteq> []" unfolding assms(3) by (simp add: build_transport_def Let_def)
qed

text \<open>A valid save that asks to select the profile makes it the active one,
  the resulting file passes \<open>sshcustomd validate\<close>, and \<open>dialEndpoint\<close> of the active profile
  yields a non-empty host and a positive port.\<close>

theorem upsert_then_usable:
  assumes "length (pf_profiles pf) < 9999" "request_valid req" "rq_select req"
  shows "\<exists>p h port. selected_profile (snd (upsert_profile now pf req)) = Some p \<and>
      p_id p = request_id now pf req \<and>
      validate_profiles (snd (upsert_profile now pf req)) = None \<and>
      dial_endpoint p = Ok (h, port) \<and> h \<noteq> [] \<and> 0 < port"
proof -
  let ?i = "request_id now pf req" and ?p = "(request_profile now pf req)\<lparr>p_selected := True\<rparr>"
  let ?pf' = "snd (select_profile_by_id (stored now pf req) ?i)"
  have pf': "snd (upsert_profile now pf req) = ?pf'" using upsert_valid [OF assms(2)] assms(3) by simp
  have "find (\<lambda>p. p_id p = ?i) (pf_profiles ?pf') = Some ?p" "pf_selected ?pf' = ?i"
    using find_stored [OF assms(1), of now req] request_id_nonempty [of now pf req]
    by (simp_all add: select_result find_p_id_map)
  then have sel: "selected_profile ?pf' = Some ?p"
    using request_id_nonempty [of now pf req] by (intro selected_profile_by_id) auto
  have ssh: "ssh_host (p_ssh ?p) \<noteq> []" "0 < ssh_port (p_ssh ?p)"
    using assms(2) request_profile_ssh [of now pf req] trim_space_nonempty by (auto simp: request_valid_def)
  moreover have "p_transport ?p = build_transport (normalize_mode (rq_mode req)) (rq_payload req)
      (rq_proxy req) (rq_tls req) (p_ssh ?p)"
    by (simp add: request_profile_def Let_def)
  ultimately have u: "\<exists>h port. dial_endpoint ?p = Ok (h, port) \<and> h \<noteq> [] \<and> 0 < port"
      "t_chain (p_transport ?p) \<noteq> []"
    by (rule build_transport_usable)+
  have "validate_profiles ?pf' = None" using sel ssh u(2) by (simp add: validate_profiles_def)
  then show ?thesis using pf' sel u(1) by auto
qed

theorem upsert_then_usable_witness:
  "\<exists>p. selected_profile (snd (upsert_profile 7 empty_store sample_request)) = Some p \<and> is_ok (dial_endpoint p)"
proof -
  have "length (pf_profiles empty_store) < 9999" by simp
  moreover have "request_valid sample_request" "rq_select sample_request"
    by (simp_all add: request_valid_def sample_request_def normalize_mode_def to_lower_def trim_space_def
        trim_with_def is_space_def lower_char_def is_upper_def)
  ultimately show ?thesis
    using upsert_then_usable [of empty_store sample_request 7] by (auto simp: is_ok_iff)
qed

end
