(* ===== verification/DaemonConfig.thy ===== *)
theory DaemonConfig
  imports Dnsx Netfilter Profiles
begin

text \<open>
  The daemon's configuration (\<open>cmd/sshcustomd/main.go\<close>): the records of \<open>config.json\<close> and of the patch
  request (\<open>internal/apiv1/contracts.go\<close>), normalization and patching, and the values the rest
  of the daemon derives from it: listener addresses, timeouts, the copy buffer, the configurations
  of the resolver and of the iptables package, and the targets that must not be proxied.
\<close>

section \<open>The records of config.json\<close>

record module_cfg =
  mo_name :: string
  mo_work_dir :: string
  mo_log_dir :: string
  mo_manual_start :: bool

record api_cfg =
  api_enabled :: bool
  api_host :: string
  api_port :: int

record dns_cfg =
  dns_enabled :: bool
  dns_mode :: string
  dns_hijack :: bool
  dns_doh :: bool
  dns_servers :: "string list"
  dns_timeout :: int
  dns_note :: string

record transport_cfg =
  tr_modes :: "string list"
  tr_payload_core :: bool

record local_proxy_cfg =
  lp_enabled :: bool
  lp_host :: string
  lp_port :: int

record tproxy_cfg =
  tp_enabled :: bool
  tp_port :: int
  tp_prefix :: string
  tp_apply_after :: bool

record hotspot_cfg =
  hs_enabled :: bool
  hs_tcp :: bool
  hs_dns :: bool
  hs_ifaces :: "string list"

record perf_cfg =
  pf_buffer :: int
  pf_connect_timeout :: int
  pf_keepalive :: int
  pf_pool_size :: int
  pf_max_streams :: int
  pf_idle_timeout :: int
  pf_acquire_timeout :: int
  pf_verbose :: bool
  pf_retry_initial :: int
  pf_retry_max :: int
  pf_probe_timeout :: int

record config =
  c_module :: module_cfg
  c_api :: api_cfg
  c_dns :: dns_cfg
  c_transport :: transport_cfg
  c_local :: local_proxy_cfg
  c_tproxy :: tproxy_cfg
  c_hotspot :: hotspot_cfg
  c_perf :: perf_cfg

record dns_settings =
  pd_mode :: string
  pd_servers :: "string list"
  pd_timeout :: int

record hotspot_settings =
  ph_enabled :: "bool option"
  ph_tcp :: "bool option"
  ph_dns :: "bool option"
  ph_ifaces :: "string list"

record config_patch =
  cp_dns :: "dns_settings option"
  cp_hotspot :: "hotspot_settings option"
  cp_restart :: bool

section \<open>Normalization and patching\<close>

definition normalize_config :: "config \<Rightarrow> config" where
  "normalize_config cfg =
     (let d = c_dns cfg;
          d = (if dns_mode d = [] then d\<lparr>dns_mode := ''device''\<rparr> else d);
          d = (if dns_timeout d \<le> 0 then d\<lparr>dns_timeout := 4\<rparr> else d);
          h = c_hotspot cfg;
          h = (if hs_ifaces h = [] then h\<lparr>hs_ifaces := [''wlan+'', ''swlan+'', ''ap+'', ''rndis+'', ''ncm+'', ''bt-pan+'']\<rparr> else h)
      in cfg\<lparr>c_dns := d, c_hotspot := h\<rparr>)"

definition normalize_dns_mode :: "string \<Rightarrow> string" where
  "normalize_dns_mode mode =
     (let m = to_lower (trim_space mode) in
      if m \<in> set [[], ''system'', ''device'', ''default''] then ''device''
      else if m \<in> set [''google'', ''cloudflare'', ''custom''] then m
      else ''device'')"

definition normalized_dns_servers :: "string list \<Rightarrow> string list" where
  "normalized_dns_servers xs =
     dedup_onto [] (List.map_filter (\<lambda>s.
       let s = trim_space s in
       if s = [] then None
       else Some (case split_host_port s of Inl _ \<Rightarrow> join_host_port s ''53'' | Inr _ \<Rightarrow> s)) xs)"

text \<open>The two halves of \<open>applyConfigPatch\<close>: each returns the new configuration and whether it counts as
  changed; the first fails when custom mode has no server.\<close>

definition patch_dns :: "config \<Rightarrow> dns_settings \<Rightarrow> (config \<times> bool) result" where
  "patch_dns cfg req =
     (let old_mode = normalize_dns_mode (dns_mode (c_dns cfg));
          d = (c_dns cfg)\<lparr>dns_mode := normalize_dns_mode (pd_mode req)\<rparr>;
          d = (if 0 < pd_timeout req then d\<lparr>dns_timeout := pd_timeout req\<rparr> else d);
          d = (if dns_mode d = ''custom'' then d\<lparr>dns_servers := pd_servers req\<rparr> else d)
      in if dns_mode d = ''custom'' \<and> normalized_dns_servers (dns_servers d) = []
         then Err ''custom DNS requires at least one valid resolver IP''
         else let next = normalize_config (cfg\<lparr>c_dns := d\<rparr>) in
           Ok (next, old_mode \<noteq> dns_mode (c_dns next) \<or>
                     str_join '','' (dns_servers (c_dns cfg)) \<noteq> str_join '','' (dns_servers (c_dns next)) \<or>
                     dns_timeout (c_dns cfg) \<noteq> dns_timeout (c_dns next)))"

definition patch_hotspot :: "config \<Rightarrow> hotspot_settings \<Rightarrow> config \<times> bool" where
  "patch_hotspot cfg req =
     (let before = c_hotspot cfg;
          h = before;
          h = (case ph_enabled req of Some b \<Rightarrow> h\<lparr>hs_enabled := b\<rparr> | None \<Rightarrow> h);
          h = (case ph_tcp req of Some b \<Rightarrow> h\<lparr>hs_tcp := b\<rparr> | None \<Rightarrow> h);
          h = (case ph_dns req of Some b \<Rightarrow> h\<lparr>hs_dns := b\<rparr> | None \<Rightarrow> h);
          h = (if ph_ifaces req \<noteq> [] then h\<lparr>hs_ifaces := ph_ifaces req\<rparr> else h);
          next = normalize_config (cfg\<lparr>c_hotspot := h\<rparr>);
          h = c_hotspot next
      in (next, hs_enabled before \<noteq> hs_enabled h \<or> hs_tcp before \<noteq> hs_tcp h \<or> hs_dns before \<noteq> hs_dns h \<or>
                str_join '','' (hs_ifaces before) \<noteq> str_join '','' (hs_ifaces h)))"

definition apply_config_patch :: "config \<Rightarrow> config_patch \<Rightarrow> (config \<times> string list \<times> bool) result" where
  "apply_config_patch cfg req =
     (let dns = (case cp_dns req of None \<Rightarrow> Ok (cfg, False) | Some d \<Rightarrow> patch_dns cfg d) in
      case dns of
        Inl e \<Rightarrow> Err e
      | Inr (next, dns_changed) \<Rightarrow>
          let (next, hs_changed) = (case cp_hotspot req of None \<Rightarrow> (next, False) | Some h \<Rightarrow> patch_hotspot next h)
          in Ok (next, (if dns_changed then [''dns''] else []) @ (if hs_changed then [''hotspot''] else []),
                 dns_changed \<or> hs_changed))"

section \<open>Derived values\<close>

definition seconds_default :: "int \<Rightarrow> int \<Rightarrow> int" where
  "seconds_default v def = (if v \<le> 0 then def else v)"

definition stream_idle_seconds :: "config \<Rightarrow> int" where
  "stream_idle_seconds cfg =
     (let sec = seconds_default (pf_idle_timeout (c_perf cfg)) 150;
          sec = (if sec < 30 then 30 else sec)
      in if 3600 < sec then 3600 else sec)"

definition normalized_copy_buffer_size :: "int \<Rightarrow> int" where
  "normalized_copy_buffer_size n =
     (let n = (if n \<le> 0 then 128 * 1024 else n);
          n = (if n < 32 * 1024 then 32 * 1024 else n);
          n = (if 256 * 1024 < n then 256 * 1024 else n);
          q = 32 * 1024
      in ((n + q - 1) div q) * q)"

definition socks_addr :: "config \<Rightarrow> string" where
  "socks_addr cfg =
     (let host = (if lp_host (c_local cfg) = [] then ''127.0.0.1'' else lp_host (c_local cfg));
          port = (if lp_port (c_local cfg) \<le> 0 then 1080 else lp_port (c_local cfg))
      in join_host_port host (itoa port))"

definition transparent_addr :: "config \<Rightarrow> string" where
  "transparent_addr cfg =
     (let port = (if tp_port (c_tproxy cfg) \<le> 0 then 10810 else tp_port (c_tproxy cfg))
      in join_host_port ''0.0.0.0'' (itoa port))"

text \<open>A port that does not parse is compared as 0, as the discarded error of \<open>strconv.Atoi\<close> leaves it; out
  of range it saturates.\<close>

definition atoi_value :: "string \<Rightarrow> int" where
  "atoi_value s = (case atoi s of Some v \<Rightarrow> v
     | None \<Rightarrow>
       (let d = (if s \<noteq> [] \<and> (hd s = CHR ''-'' \<or> hd s = CHR ''+'') then tl s else s) in
        if d = [] \<or> \<not> list_all is_digit d then 0
        else if hd s = CHR ''-'' then - (2 ^ 63) else 2 ^ 63 - 1))"

definition is_local_or_blocked_target :: "string \<Rightarrow> config \<Rightarrow> bool" where
  "is_local_or_blocked_target target cfg =
     (case split_host_port target of
        Inl _ \<Rightarrow> True
      | Inr (h, p) \<Rightarrow>
          (case parse_ip h of
             None \<Rightarrow> False
           | Some ip \<Rightarrow>
               let port = atoi_value p in
               if port = api_port (c_api cfg) \<or> port = lp_port (c_local cfg) \<or> port = tp_port (c_tproxy cfg) then True
               else is_loopback ip \<or> is_unspecified ip \<or> is_multicast ip))"

definition dns_forward_port :: int where
  "dns_forward_port = 5353"

definition iptables_cfg :: "config \<Rightarrow> ipt_config" where
  "iptables_cfg cfg =
     \<lparr>ic_prefix = tp_prefix (c_tproxy cfg), ic_tcp_port = tp_port (c_tproxy cfg),
      ic_api_port = api_port (c_api cfg), ic_socks_port = lp_port (c_local cfg),
      ic_dns_port = dns_forward_port, ic_hotspot = hs_enabled (c_hotspot cfg) \<and> hs_tcp (c_hotspot cfg),
      ic_ifaces = hs_ifaces (c_hotspot cfg)\<rparr>"

definition apply_transparent_rules ::
  "'k exec \<Rightarrow> config \<Rightarrow> string list \<Rightarrow> 'k nstate \<Rightarrow> string option \<times> 'k nstate" where
  "apply_transparent_rules exec cfg bypass st =
     apply_rules exec (iptables_cfg cfg) (sanitize_ipv4_list bypass) st"

definition cleanup_transparent_rules :: "'k exec \<Rightarrow> config \<Rightarrow> 'k nstate \<Rightarrow> 'k nstate" where
  "cleanup_transparent_rules exec cfg st = cleanup exec (iptables_cfg cfg) st"

definition dns_config_of :: "config \<Rightarrow> dns_config" where
  "dns_config_of cfg =
     \<lparr>dc_mode = normalize_dns_mode (dns_mode (c_dns cfg)), dc_servers = dns_servers (c_dns cfg),
      dc_timeout = dns_timeout (c_dns cfg)\<rparr>"

definition dial_fallback_ips :: "profile \<Rightarrow> string \<Rightarrow> string list" where
  "dial_fallback_ips p host =
     sanitize_ipv4_list
       ((if equal_fold host (ssh_host (p_ssh p)) then ssh_fallback (p_ssh p) else []) @
        (case t_proxy (p_transport p) of
           Some hp \<Rightarrow> if equal_fold host (hp_host hp) then hp_fallback hp @ ssh_fallback (p_ssh p) else []
         | None \<Rightarrow> []))"

text \<open>The capabilities \<open>/api/v1/capabilities\<close> lists, as names with their flag.\<close>

definition api_capabilities :: "config \<Rightarrow> (string \<times> bool) list" where
  "api_capabilities cfg =
     [(''manual_start'', mo_manual_start (c_module cfg)),
      (''ipv4_transparent_tcp'', tp_enabled (c_tproxy cfg)),
      (''hotspot_tcp_share'', hs_enabled (c_hotspot cfg) \<and> hs_tcp (c_hotspot cfg)),
      (''socks5'', lp_enabled (c_local cfg)),
      (''quic_block'', tp_enabled (c_tproxy cfg)),
      (''ipv6_disable'', tp_enabled (c_tproxy cfg)),
      (''captive_portal_bypass'', tp_enabled (c_tproxy cfg)),
      (''ipv6'', False)]"

section \<open>A normal configuration\<close>

definition known_mode :: "string \<Rightarrow> bool" where
  "known_mode m = (m \<in> set [''device'', ''google'', ''cloudflare'', ''custom''])"

lemma normalize_dns_mode_known: "known_mode (normalize_dns_mode m)"
  by (auto simp: normalize_dns_mode_def known_mode_def Let_def)

lemma known_mode_fixed: "known_mode m \<Longrightarrow> normalize_dns_mode m = m"
proof -
  have "normalize_dns_mode m = m" if "m \<in> set [''device'', ''google'', ''cloudflare'', ''custom'']"
  proof -
    have "set m \<subseteq> {c. slug_char c \<or> c = CHR ''-''}"
      using that by (auto simp: slug_char_def is_lower_def)
    then have "to_lower (trim_space m) = m" using slug_text_plain by simp
    then show ?thesis using that by (auto simp: normalize_dns_mode_def)
  qed
  then show "known_mode m \<Longrightarrow> normalize_dns_mode m = m" by (simp add: known_mode_def)
qed

lemma normalize_dns_mode_idem [simp]: "normalize_dns_mode (normalize_dns_mode m) = normalize_dns_mode m"
  by (rule known_mode_fixed [OF normalize_dns_mode_known])

text \<open>What the daemon maintains of its configuration: the DNS settings and the interface list are filled
  in, and custom mode comes with a server.\<close>

definition config_inv :: "config \<Rightarrow> bool" where
  "config_inv cfg =
     (dns_mode (c_dns cfg) \<noteq> [] \<and> 0 < dns_timeout (c_dns cfg) \<and> hs_ifaces (c_hotspot cfg) \<noteq> [] \<and>
      (dns_mode (c_dns cfg) = ''custom'' \<longrightarrow> normalized_dns_servers (dns_servers (c_dns cfg)) \<noteq> []))"

lemma normalize_config_id: "config_inv cfg \<Longrightarrow> normalize_config cfg = cfg"
  by (simp add: config_inv_def normalize_config_def)

lemma normalize_config_fields [frame_simps]:
  "c_module (normalize_config cfg) = c_module cfg" "c_api (normalize_config cfg) = c_api cfg"
  "c_transport (normalize_config cfg) = c_transport cfg" "c_local (normalize_config cfg) = c_local cfg"
  "c_tproxy (normalize_config cfg) = c_tproxy cfg" "c_perf (normalize_config cfg) = c_perf cfg"
  "dns_servers (c_dns (normalize_config cfg)) = dns_servers (c_dns cfg)"
  by (simp_all add: normalize_config_def Let_def)

lemma normalize_config_inv:
  "(dns_mode (c_dns cfg) = ''custom'' \<Longrightarrow> normalized_dns_servers (dns_servers (c_dns cfg)) \<noteq> []) \<Longrightarrow>
   config_inv (normalize_config cfg)"
  by (auto simp: normalize_config_def config_inv_def Let_def)

lemma patch_dns_inv: "patch_dns cfg d = Ok (next, ch) \<Longrightarrow> config_inv next"
  by (auto simp: patch_dns_def Let_def split: if_splits intro!: normalize_config_inv)

lemma patch_hotspot_inv: "config_inv cfg \<Longrightarrow> config_inv (fst (patch_hotspot cfg h))"
  unfolding patch_hotspot_def Let_def fst_conv
  by (rule normalize_config_inv) (simp add: config_inv_def)

lemma apply_config_patch_inv:
  assumes "config_inv cfg" "apply_config_patch cfg req = Ok (next, ch, r)"
  shows "config_inv next"
proof -
  obtain n d where n: "(case cp_dns req of None \<Rightarrow> Ok (cfg, False) | Some d \<Rightarrow> patch_dns cfg d) = Ok (n, d)"
    using assms(2) by (auto simp: apply_config_patch_def split: sum.splits)
  then have i: "config_inv n" using assms(1) patch_dns_inv by (auto split: option.splits)
  have "next = fst (case cp_hotspot req of None \<Rightarrow> (n, False) | Some h \<Rightarrow> patch_hotspot n h)"
    using assms(2) n by (auto simp: apply_config_patch_def split_beta split: option.splits)
  then show ?thesis using i patch_hotspot_inv by (auto split: option.splits)
qed

definition patched :: "config \<Rightarrow> config_patch \<Rightarrow> config" where
  "patched cfg req = (case apply_config_patch cfg req of Inl _ \<Rightarrow> cfg | Inr (next, _, _) \<Rightarrow> next)"

interpretation conf: step_invariant patched config_inv "\<lambda>_ _. True"
proof unfold_locales
  fix cfg req
  assume "config_inv cfg"
  then show "config_inv (patched cfg req)"
    using apply_config_patch_inv by (auto simp: patched_def split: sum.splits)
qed

text \<open>A configuration that is complete stays complete through any history of
  patches, accepted or rejected: it always has a DNS mode, a positive DNS timeout, hotspot
  interfaces, and in custom mode at least one DNS server.\<close>

theorem config_history_inv:
  assumes "config_inv cfg"
  shows "config_inv (run patched cfg reqs)"
  by (rule conf.run_inv [OF assms]) simp

definition sample_config :: config where
  "sample_config =
     \<lparr>c_module = \<lparr>mo_name = ''SSHCustom'', mo_work_dir = ''/data/adb/sshcustom'', mo_log_dir = [], mo_manual_start = True\<rparr>,
      c_api = \<lparr>api_enabled = True, api_host = ''127.0.0.1'', api_port = 9190\<rparr>,
      c_dns = \<lparr>dns_enabled = True, dns_mode = ''device'', dns_hijack = False, dns_doh = False, dns_servers = [],
               dns_timeout = 4, dns_note = []\<rparr>,
      c_transport = \<lparr>tr_modes = [''direct''], tr_payload_core = True\<rparr>,
      c_local = \<lparr>lp_enabled = True, lp_host = ''127.0.0.1'', lp_port = 1080\<rparr>,
      c_tproxy = \<lparr>tp_enabled = True, tp_port = 10810, tp_prefix = ''SSHC'', tp_apply_after = True\<rparr>,
      c_hotspot = \<lparr>hs_enabled = False, hs_tcp = True, hs_dns = False, hs_ifaces = [''wlan+'']\<rparr>,
      c_perf = \<lparr>pf_buffer = 0, pf_connect_timeout = 20, pf_keepalive = 30, pf_pool_size = 1, pf_max_streams = 0,
                pf_idle_timeout = 0, pf_acquire_timeout = 0, pf_verbose = False, pf_retry_initial = 0,
                pf_retry_max = 0, pf_probe_timeout = 0\<rparr>\<rparr>"

theorem config_history_inv_witness:
  "config_inv (run patched sample_config
     [\<lparr>cp_dns = Some \<lparr>pd_mode = ''custom'', pd_servers = [], pd_timeout = 0\<rparr>, cp_hotspot = None, cp_restart = True\<rparr>])"
  by (rule config_history_inv) (simp add: config_inv_def sample_config_def)

section \<open>What a patch changes\<close>

lemma normalized_dns_servers_eq: "normalized_dns_servers = normalize_servers"
  by (rule ext) (simp add: normalized_dns_servers_def normalize_servers_def normalize_server_def [abs_def])

text \<open>All sections but the DNS and hotspot settings agree.\<close>

definition same_rest :: "config \<Rightarrow> config \<Rightarrow> bool" where
  "same_rest cfg next =
     (c_module next = c_module cfg \<and> c_api next = c_api cfg \<and> c_transport next = c_transport cfg \<and>
      c_local next = c_local cfg \<and> c_tproxy next = c_tproxy cfg \<and> c_perf next = c_perf cfg)"

lemma patch_dns_fields: "patch_dns cfg d = Ok (next, ch) \<Longrightarrow> same_rest cfg next"
  by (auto simp: patch_dns_def same_rest_def frame_simps Let_def split: if_splits)

lemma patch_hotspot_fields: "same_rest cfg (fst (patch_hotspot cfg h))"
  by (simp add: patch_hotspot_def same_rest_def frame_simps Let_def)

lemma patch_hotspot_dns:
  "config_inv cfg \<Longrightarrow> c_dns (fst (patch_hotspot cfg h)) = c_dns cfg"
  by (simp add: patch_hotspot_def normalize_config_def Let_def config_inv_def)

definition comma_free :: "string list \<Rightarrow> bool" where
  "comma_free ws = list_all (\<lambda>w. w \<noteq> [] \<and> CHR '','' \<notin> set w) ws"

lemma join_comma_Nil: "comma_free us \<Longrightarrow> str_join '','' us = [] \<Longrightarrow> us = []"
  by (cases "('','', us)" rule: str_join.cases) (auto simp: comma_free_def)

lemma join_comma_inject:
  assumes "comma_free vs" "comma_free ws" "str_join '','' vs = str_join '','' ws"
  shows "vs = ws"
proof -
  show ?thesis
  proof (cases "vs = [] \<or> ws = []")
    case True
    then show ?thesis using assms join_comma_Nil by (metis str_join.simps(1))
  next
    case False
    have "split_on (CHR '','') (str_join '','' vs) = vs" "split_on (CHR '','') (str_join '','' ws) = ws"
      using False assms(1,2) by (intro split_on_join; auto simp: comma_free_def list_all_iff)+
    then show ?thesis using assms(3) by metis
  qed
qed













text \<open>A patch that reports no change really changes nothing the resolver or the
  iptables rules depend on, so not restarting is safe (for names without commas, which is what
  comparing the joined lists can tell apart).\<close>

theorem unreported_patch_is_inert:
  assumes "config_inv cfg" "known_mode (dns_mode (c_dns cfg))"
    and "comma_free (dns_servers (c_dns cfg))" "comma_free (hs_ifaces (c_hotspot cfg))"
    and "apply_config_patch cfg req = Ok (next, [], restart)"
    and "comma_free (dns_servers (c_dns next))" "comma_free (hs_ifaces (c_hotspot next))"
  shows "dns_config_of next = dns_config_of cfg \<and> iptables_cfg next = iptables_cfg cfg"
proof -
  obtain n where n: "(case cp_dns req of None \<Rightarrow> Ok (cfg, False) | Some d \<Rightarrow> patch_dns cfg d) = Ok (n, False)"
      and h: "next = n \<or> (\<exists>h. patch_hotspot n h = (next, False))"
    using assms(5) by (auto simp: apply_config_patch_def split_beta split: sum.splits option.splits if_splits)
      (metis prod.collapse)+
  have i: "config_inv n" using n assms(1) patch_dns_inv by (auto split: option.splits)
  have d: "c_dns next = c_dns n" using h patch_hotspot_dns [OF i] by (metis fst_conv)
  have dns: "dns_config_of n = dns_config_of cfg \<and> c_hotspot n = c_hotspot cfg \<and> c_tproxy n = c_tproxy cfg \<and>
      c_api n = c_api cfg \<and> c_local n = c_local cfg"
  proof (cases "cp_dns req")
    case None
    then show ?thesis using n by simp
  next
    case (Some q)
    then have p: "patch_dns cfg q = Ok (n, False)" using n by simp
    then have e: "normalize_dns_mode (dns_mode (c_dns cfg)) = dns_mode (c_dns n)"
      "str_join '','' (dns_servers (c_dns cfg)) = str_join '','' (dns_servers (c_dns n))"
      "dns_timeout (c_dns cfg) = dns_timeout (c_dns n)"
      by (auto simp: patch_dns_def Let_def split: if_splits)
    have "c_hotspot n = c_hotspot cfg \<and> c_tproxy n = c_tproxy cfg \<and> c_api n = c_api cfg \<and> c_local n = c_local cfg"
      using p assms(1) by (auto simp: patch_dns_def Let_def normalize_config_def config_inv_def split: if_splits)
    moreover have "dns_servers (c_dns n) = dns_servers (c_dns cfg)"
      using join_comma_inject [OF assms(3) _ e(2)] assms(6) d by simp
    ultimately show ?thesis
      using e by (simp add: dns_config_of_def flip: e(1))
  qed
  have hot: "hs_enabled (c_hotspot next) = hs_enabled (c_hotspot n) \<and> hs_tcp (c_hotspot next) = hs_tcp (c_hotspot n) \<and>
      hs_ifaces (c_hotspot next) = hs_ifaces (c_hotspot n) \<and> same_rest n next"
    using h
  proof
    assume "next = n"
    then show ?thesis by (simp add: same_rest_def)
  next
    assume "\<exists>h. patch_hotspot n h = (next, False)"
    then obtain q where q: "patch_hotspot n q = (next, False)" by blast
    then have e: "hs_enabled (c_hotspot n) = hs_enabled (c_hotspot next)" "hs_tcp (c_hotspot n) = hs_tcp (c_hotspot next)"
      "str_join '','' (hs_ifaces (c_hotspot n)) = str_join '','' (hs_ifaces (c_hotspot next))"
      by (auto simp: patch_hotspot_def Let_def)
    have "hs_ifaces (c_hotspot n) = hs_ifaces (c_hotspot next)"
      using join_comma_inject [OF _ assms(7) e(3)] assms(4) dns by simp
    then show ?thesis using e patch_hotspot_fields [of n q] q by simp
  qed
  have "dns_config_of next = dns_config_of n" using d by (simp add: dns_config_of_def)
  moreover have "iptables_cfg next = iptables_cfg n" using hot by (simp add: iptables_cfg_def same_rest_def)
  ultimately show ?thesis using dns by (simp add: iptables_cfg_def)
qed

definition sample_patch :: config_patch where
  "sample_patch = \<lparr>cp_dns = Some \<lparr>pd_mode = ''system'', pd_servers = [], pd_timeout = 0\<rparr>,
     cp_hotspot = Some \<lparr>ph_enabled = Some False, ph_tcp = None, ph_dns = Some False, ph_ifaces = []\<rparr>, cp_restart = False\<rparr>"

lemma sample_known: "known_mode (dns_mode (c_dns sample_config))"
  by (simp add: sample_config_def known_mode_def)

lemma sample_config_inv: "config_inv sample_config"
  by (simp add: config_inv_def sample_config_def)

lemma sample_patch_ok: "apply_config_patch sample_config sample_patch = Ok (sample_config, [], False)"
proof -
  have "set ''system'' \<subseteq> {c. slug_char c \<or> c = CHR ''-''}" by (simp add: slug_char_def is_lower_def)
  then have "to_lower (trim_space ''system'') = ''system''" using slug_text_plain by simp
  then have m: "normalize_dns_mode ''system'' = ''device''" by (simp add: normalize_dns_mode_def)
  have "normalize_dns_mode ''device'' = ''device''" by (rule known_mode_fixed) (simp add: known_mode_def)
  moreover have "patch_dns sample_config \<lparr>pd_mode = ''system'', pd_servers = [], pd_timeout = 0\<rparr> = Ok (sample_config, False)"
    using m calculation by (simp add: patch_dns_def Let_def normalize_config_def) (simp add: sample_config_def)
  moreover have "patch_hotspot sample_config \<lparr>ph_enabled = Some False, ph_tcp = None, ph_dns = Some False, ph_ifaces = []\<rparr>
      = (sample_config, False)"
    by (simp add: patch_hotspot_def Let_def normalize_config_def) (simp add: sample_config_def)
  ultimately show ?thesis by (simp add: apply_config_patch_def sample_patch_def)
qed

theorem unreported_patch_is_inert_witness:
  "dns_config_of (patched sample_config sample_patch) = dns_config_of sample_config"
proof -
  have c: "comma_free (dns_servers (c_dns sample_config))" "comma_free (hs_ifaces (c_hotspot sample_config))"
    by (simp_all add: comma_free_def sample_config_def)
  show ?thesis
    using unreported_patch_is_inert [OF sample_config_inv sample_known c sample_patch_ok c]
    by (simp add: patched_def sample_patch_ok)
qed

section \<open>Derived values\<close>

text \<open>The copy buffer is a multiple of 32 KiB between 32 KiB and 256 KiB, at least
  what was asked for within that bound and less than 32 KiB above it (or the default), and
  normalizing it again changes nothing.\<close>

theorem copy_buffer_size_correct:
  "let b = normalized_copy_buffer_size n in
     32768 \<le> b \<and> b \<le> 262144 \<and> b mod 32768 = 0 \<and> min n 262144 \<le> b \<and> b \<le> max (n + 32767) 131072 \<and>
     normalized_copy_buffer_size b = b"
proof -
  define m where "m = (if n \<le> 0 then 131072 else if n < 32768 then 32768 else if 262144 < n then 262144 else n)"
  have m: "32768 \<le> m" "m \<le> 262144" by (auto simp: m_def)
  have b: "normalized_copy_buffer_size n = ((m + 32767) div 32768) * 32768"
    by (auto simp: normalized_copy_buffer_size_def m_def Let_def)
  define k where "k = (m + 32767) div 32768"
  have k: "1 \<le> k" "k \<le> 8" "m \<le> k * 32768" "k * 32768 \<le> m + 32767"
    using m unfolding k_def by linarith+
  have i: "normalized_copy_buffer_size (k * 32768) = k * 32768"
    using k(1,2) by (simp add: normalized_copy_buffer_size_def Let_def)
  have "min n 262144 \<le> m" "m \<le> max n 131072" by (auto simp: m_def)
  moreover have "k * 32768 \<le> max (n + 32767) 131072"
    using k by (cases "n < 32768") (auto simp: m_def split: if_splits)
  ultimately show ?thesis unfolding b k_def [symmetric] Let_def using k i by (intro conjI) auto
qed

text \<open>The SOCKS and transparent listener addresses always split back into
  the configured host (or its default) and a positive port.\<close>

theorem listener_addresses_wellformed:
  assumes "plain_host (lp_host (c_local cfg))"
  shows "(\<exists>p. split_host_port (socks_addr cfg) =
            Ok (if lp_host (c_local cfg) = [] then ''127.0.0.1'' else lp_host (c_local cfg), itoa p) \<and>
          0 < p \<and> (p = lp_port (c_local cfg) \<or> p = 1080)) \<and>
         (\<exists>p. split_host_port (transparent_addr cfg) = Ok (''0.0.0.0'', itoa p) \<and>
          0 < p \<and> (p = tp_port (c_tproxy cfg) \<or> p = 10810))"
proof -
  have h: "plain_host (if lp_host (c_local cfg) = [] then ''127.0.0.1'' else lp_host (c_local cfg))" "plain_host ''0.0.0.0''"
    using assms by (auto simp: plain_host_def)
  show ?thesis
    unfolding socks_addr_def transparent_addr_def Let_def
    using split_join_host_port [OF h(1) plain_port_itoa] split_join_host_port [OF h(2) plain_port_itoa]
    by (intro conjI exI [of _ "if lp_port (c_local cfg) \<le> 0 then 1080 else lp_port (c_local cfg)"]
        exI [of _ "if tp_port (c_tproxy cfg) \<le> 0 then 10810 else tp_port (c_tproxy cfg)"]) simp_all
qed

theorem listener_addresses_wellformed_witness:
  "\<exists>p. split_host_port (socks_addr sample_config) = Ok (''127.0.0.1'', itoa p) \<and> 0 < p"
proof -
  have "plain_host (lp_host (c_local sample_config))" by (simp add: plain_host_def sample_config_def)
  from listener_addresses_wellformed [OF this] show ?thesis by (auto simp: sample_config_def)
qed

lemma atoi_value_itoa: "- (2 ^ 63) \<le> n \<Longrightarrow> n < 2 ^ 63 \<Longrightarrow> atoi_value (itoa n) = n"
  by (simp add: atoi_value_def atoi_itoa)

lemma plain_host_v4: "plain_host (v4_string q)"
proof -
  have "\<not> is_digit (CHR ''['')" "\<not> is_digit (CHR '']'')" by (simp_all add: is_digit_def)
  then show ?thesis using v4_string_chars [of _ q] by (fastforce simp: plain_host_def)
qed

text \<open>For a target that is an IPv4 address and a port, the check against loops
  says yes exactly when the port is one of the daemon's own configured ports or the address is a loopback,
  unspecified or multicast one; a host name is never blocked.\<close>

theorem blocked_targets_exact:
  assumes "0 \<le> port" "port \<le> 65535"
  shows "(to4 ip = None \<or> is_local_or_blocked_target (join_host_port (ip_string ip) (itoa port)) cfg =
      (port \<in> {api_port (c_api cfg), lp_port (c_local cfg), tp_port (c_tproxy cfg)} \<or>
       is_loopback ip \<or> is_unspecified ip \<or> is_multicast ip)) \<and>
    (\<not> plain_host h \<or> parse_ip h \<noteq> None \<or> \<not> is_local_or_blocked_target (join_host_port h (itoa port)) cfg)"
proof (intro conjI)
  have a: "atoi_value (itoa port) = port" using assms by (intro atoi_value_itoa) auto
  show "to4 ip = None \<or> is_local_or_blocked_target (join_host_port (ip_string ip) (itoa port)) cfg =
      (port \<in> {api_port (c_api cfg), lp_port (c_local cfg), tp_port (c_tproxy cfg)} \<or>
       is_loopback ip \<or> is_unspecified ip \<or> is_multicast ip)"
  proof (cases "to4 ip")
    case (Some q)
    then obtain r where r: "parse_ip (ip_string ip) = Some r" "to4 r = Some q" using parse_ip_string_v4 by blast
    have "plain_host (ip_string ip)" using Some plain_host_v4 by (simp add: ip_string_def)
    then have s: "split_host_port (join_host_port (ip_string ip) (itoa port)) = Ok (ip_string ip, itoa port)"
      using assms by (intro split_join_host_port) simp_all
    note z = to4_zero16
    have "is_loopback r = is_loopback ip" "is_multicast r = is_multicast ip" "is_unspecified r = is_unspecified ip"
      using Some r(2) z by (auto simp: is_loopback_def is_multicast_def is_unspecified_def)
    then show ?thesis using s r(1) a by (simp add: is_local_or_blocked_target_def Let_def)
  qed simp
  show "\<not> plain_host h \<or> parse_ip h \<noteq> None \<or> \<not> is_local_or_blocked_target (join_host_port h (itoa port)) cfg"
    using assms split_join_host_port [of h "itoa port"] by (auto simp: is_local_or_blocked_target_def)
qed

theorem blocked_targets_exact_witness:
  "is_local_or_blocked_target (join_host_port (ip_string (ipv4 127 0 0 1)) (itoa 80)) sample_config"
  using blocked_targets_exact [of 80 "ipv4 127 0 0 1" sample_config "''h''"] by (simp add: is_loopback_def)

end
