(* ===== verification/NetfilterRules.thy ===== *)
theory NetfilterRules
  imports Netfilter "HOL-Library.Multiset"
begin

text \<open>
  What \<open>Apply\<close> and \<open>Cleanup\<close> of \<open>internal/iptables\<close> do to the device's tables. The program only runs
  \<open>iptables\<close> and \<open>ip6tables\<close>; what those commands do is the hypothesis \<open>documented\<close>, which states for
  each form of command the code uses what its manual says: \<open>-A\<close> appends, \<open>-I\<close> inserts at the head,
  \<open>-D\<close> removes the first equal rule or fails, \<open>-C\<close> tests, \<open>-N\<close> creates or fails if the chain exists,
  \<open>-F\<close> empties, \<open>-X\<close> deletes an empty chain no rule jumps to, \<open>-L\<close> tests existence, a missing \<open>-t\<close>
  means the filter table, and a command that fails changes nothing. A firewall maps (tool, table,
  chain) to its rules, a rule being the tokens after the chain name; \<open>krn\<close> says which rules the
  kernel supports (\<open>ipt_REJECT\<close> is missing on some).
\<close>

section \<open>The documented behaviour of iptables\<close>

type_synonym fw = "string \<times> string \<times> string \<Rightarrow> string list list option"

definition jumps :: "string list \<Rightarrow> string \<Rightarrow> bool" where
  "jumps r ch = sublist [''-j'', ch] r"

definition builtin_targets :: "string list" where
  "builtin_targets = [''ACCEPT'', ''DROP'', ''RETURN'', ''REJECT'', ''REDIRECT'', ''DNAT'']"

definition is_rule :: "string list \<Rightarrow> bool" where
  "is_rule r = (r \<noteq> [] \<and> hd r \<noteq> [] \<and> hd (hd r) = CHR ''-'')"

definition rule_ok :: "(string list \<Rightarrow> bool) \<Rightarrow> fw \<Rightarrow> string \<Rightarrow> string \<Rightarrow> string list \<Rightarrow> bool" where
  "rule_ok krn fw tool t r = (krn r \<and> (\<forall>ch. jumps r ch \<longrightarrow> ch \<in> set builtin_targets \<or> fw (tool, t, ch) \<noteq> None))"

definition fw_append :: "(string list \<Rightarrow> bool) \<Rightarrow> string \<Rightarrow> string \<Rightarrow> string \<Rightarrow> string list \<Rightarrow> fw \<Rightarrow> fw option" where
  "fw_append krn tool t c r fw =
     (case fw (tool, t, c) of None \<Rightarrow> None
      | Some rs \<Rightarrow> if rule_ok krn fw tool t r then Some (fw((tool, t, c) \<mapsto> rs @ [r])) else None)"

definition fw_insert :: "(string list \<Rightarrow> bool) \<Rightarrow> string \<Rightarrow> string \<Rightarrow> string \<Rightarrow> string list \<Rightarrow> fw \<Rightarrow> fw option" where
  "fw_insert krn tool t c r fw =
     (case fw (tool, t, c) of None \<Rightarrow> None
      | Some rs \<Rightarrow> if rule_ok krn fw tool t r then Some (fw((tool, t, c) \<mapsto> r # rs)) else None)"

definition fw_delete :: "string \<Rightarrow> string \<Rightarrow> string \<Rightarrow> string list \<Rightarrow> fw \<Rightarrow> fw option" where
  "fw_delete tool t c r fw =
     (case fw (tool, t, c) of None \<Rightarrow> None
      | Some rs \<Rightarrow> if r \<in> set rs then Some (fw((tool, t, c) \<mapsto> remove1 r rs)) else None)"

definition fw_check :: "string \<Rightarrow> string \<Rightarrow> string \<Rightarrow> string list \<Rightarrow> fw \<Rightarrow> fw option" where
  "fw_check tool t c r fw =
     (case fw (tool, t, c) of None \<Rightarrow> None | Some rs \<Rightarrow> if r \<in> set rs then Some fw else None)"

definition fw_new :: "string \<Rightarrow> string \<Rightarrow> string \<Rightarrow> fw \<Rightarrow> fw option" where
  "fw_new tool t c fw = (if fw (tool, t, c) = None then Some (fw((tool, t, c) \<mapsto> [])) else None)"

definition fw_flush :: "string \<Rightarrow> string \<Rightarrow> string \<Rightarrow> fw \<Rightarrow> fw option" where
  "fw_flush tool t c fw = (if fw (tool, t, c) = None then None else Some (fw((tool, t, c) \<mapsto> [])))"

definition fw_remove :: "string \<Rightarrow> string \<Rightarrow> string \<Rightarrow> fw \<Rightarrow> fw option" where
  "fw_remove tool t c fw =
     (if fw (tool, t, c) = Some [] \<and> (\<forall>d rs. fw (tool, t, d) = Some rs \<longrightarrow> (\<forall>r\<in>set rs. \<not> jumps r c))
      then Some (fw((tool, t, c) := None)) else None)"

definition fw_list :: "string \<Rightarrow> string \<Rightarrow> string \<Rightarrow> fw \<Rightarrow> fw option" where
  "fw_list tool t c fw = (if fw (tool, t, c) = None then None else Some fw)"

text \<open>A command that succeeds has the given outcome; one that fails reports an error and changes nothing.\<close>

definition agrees :: "('k \<Rightarrow> fw) \<Rightarrow> 'k \<Rightarrow> (string option \<times> string) \<times> 'k \<Rightarrow> fw option \<Rightarrow> bool" where
  "agrees view k res out =
     ((fst (fst res) = None) = (out \<noteq> None) \<and>
      view (snd res) = (case out of Some fw \<Rightarrow> fw | None \<Rightarrow> view k))"

definition documented :: "'k exec \<Rightarrow> ('k \<Rightarrow> fw) \<Rightarrow> (string list \<Rightarrow> bool) \<Rightarrow> bool" where
  "documented exec view krn =
     ((\<forall>k t c r. \<forall>tool\<in>{''iptables'', ''ip6tables''}. is_rule r \<longrightarrow>
         agrees view k (exec ([tool, ''-w'', ''100'', ''-t'', t, ''-A'', c] @ r) k) (fw_append krn tool t c r (view k)) \<and>
         agrees view k (exec ([tool, ''-w'', ''100'', ''-t'', t, ''-I'', c, ''1''] @ r) k) (fw_insert krn tool t c r (view k)) \<and>
         agrees view k (exec ([tool, ''-w'', ''100'', ''-t'', t, ''-D'', c] @ r) k) (fw_delete tool t c r (view k)) \<and>
         agrees view k (exec ([tool, ''-w'', ''100'', ''-t'', t, ''-C'', c] @ r) k) (fw_check tool t c r (view k)) \<and>
         agrees view k (exec ([tool, ''-w'', ''100'', ''-I'', c] @ r) k) (fw_insert krn tool ''filter'' c r (view k)) \<and>
         agrees view k (exec ([tool, ''-w'', ''100'', ''-D'', c] @ r) k) (fw_delete tool ''filter'' c r (view k))) \<and>
      (\<forall>k t c. \<forall>tool\<in>{''iptables'', ''ip6tables''}.
         agrees view k (exec [tool, ''-w'', ''100'', ''-t'', t, ''-N'', c] k) (fw_new tool t c (view k)) \<and>
         agrees view k (exec [tool, ''-w'', ''100'', ''-t'', t, ''-F'', c] k) (fw_flush tool t c (view k)) \<and>
         agrees view k (exec [tool, ''-w'', ''100'', ''-t'', t, ''-X'', c] k) (fw_remove tool t c (view k)) \<and>
         agrees view k (exec [tool, ''-w'', ''100'', ''-t'', t, ''-L'', c, ''-n''] k) (fw_list tool t c (view k))) \<and>
      (\<forall>k prog args. prog \<notin> {''iptables'', ''ip6tables''} \<longrightarrow> view (snd (exec (prog # args) k)) = view k))"

section \<open>Commands as updates\<close>

definition vw :: "('k \<Rightarrow> fw) \<Rightarrow> 'k nstate \<Rightarrow> fw" where
  "vw view st = view (ns_kern st)"

definition keep :: "fw option \<Rightarrow> fw \<Rightarrow> fw" where
  "keep out fw = (case out of Some fw' \<Rightarrow> fw' | None \<Rightarrow> fw)"

lemma keep_simps [simp]: "keep None fw = fw" "keep (Some fw') fw = fw'"
  by (simp_all add: keep_def)

lemma agrees_quiet: "agrees view (ns_kern st) (exec argv (ns_kern st)) out \<Longrightarrow>
     vw view (quiet exec st argv) = keep out (vw view st)"
  by (auto simp: agrees_def quiet_def vw_def keep_def split: option.splits)

lemma agrees_tested: "agrees view (ns_kern st) (exec argv (ns_kern st)) out \<Longrightarrow>
     fst (tested exec st argv) = (out \<noteq> None) \<and> vw view (snd (tested exec st argv)) = keep out (vw view st)"
  by (auto simp: agrees_def tested_def vw_def keep_def split: option.splits prod.splits)

definition tools :: "string set" where
  "tools = {''iptables'', ''ip6tables''}"

lemma tools [simp]: "''iptables'' \<in> tools" "''ip6tables'' \<in> tools"
  by (simp_all add: tools_def)

lemma is_rule_Cons [simp]: "is_rule ((CHR ''-'' # w) # r)"
  by (simp add: is_rule_def)

lemma documented_rule:
  assumes "documented exec view krn" "tool \<in> tools" "is_rule r"
  shows "agrees view k (exec (tool # ''-w'' # ''100'' # ''-t'' # t # ''-A'' # c # r) k) (fw_append krn tool t c r (view k))"
    and "agrees view k (exec (tool # ''-w'' # ''100'' # ''-t'' # t # ''-I'' # c # ''1'' # r) k) (fw_insert krn tool t c r (view k))"
    and "agrees view k (exec (tool # ''-w'' # ''100'' # ''-t'' # t # ''-D'' # c # r) k) (fw_delete tool t c r (view k))"
    and "agrees view k (exec (tool # ''-w'' # ''100'' # ''-t'' # t # ''-C'' # c # r) k) (fw_check tool t c r (view k))"
    and "agrees view k (exec (tool # ''-w'' # ''100'' # ''-I'' # c # r) k) (fw_insert krn tool ''filter'' c r (view k))"
    and "agrees view k (exec (tool # ''-w'' # ''100'' # ''-D'' # c # r) k) (fw_delete tool ''filter'' c r (view k))"
proof -
  have d: "agrees view k (exec ([tool, ''-w'', ''100'', ''-t'', t, ''-A'', c] @ r) k) (fw_append krn tool t c r (view k)) \<and>
         agrees view k (exec ([tool, ''-w'', ''100'', ''-t'', t, ''-I'', c, ''1''] @ r) k) (fw_insert krn tool t c r (view k)) \<and>
         agrees view k (exec ([tool, ''-w'', ''100'', ''-t'', t, ''-D'', c] @ r) k) (fw_delete tool t c r (view k)) \<and>
         agrees view k (exec ([tool, ''-w'', ''100'', ''-t'', t, ''-C'', c] @ r) k) (fw_check tool t c r (view k)) \<and>
         agrees view k (exec ([tool, ''-w'', ''100'', ''-I'', c] @ r) k) (fw_insert krn tool ''filter'' c r (view k)) \<and>
         agrees view k (exec ([tool, ''-w'', ''100'', ''-D'', c] @ r) k) (fw_delete tool ''filter'' c r (view k))"
    using assms(1) [unfolded documented_def, THEN conjunct1, rule_format, OF assms(2) [unfolded tools_def] assms(3),
        of k t c] by assumption
  note d' = d [unfolded append_Cons append_Nil]
  show "agrees view k (exec (tool # ''-w'' # ''100'' # ''-t'' # t # ''-A'' # c # r) k) (fw_append krn tool t c r (view k))"
    and "agrees view k (exec (tool # ''-w'' # ''100'' # ''-t'' # t # ''-I'' # c # ''1'' # r) k) (fw_insert krn tool t c r (view k))"
    and "agrees view k (exec (tool # ''-w'' # ''100'' # ''-t'' # t # ''-D'' # c # r) k) (fw_delete tool t c r (view k))"
    and "agrees view k (exec (tool # ''-w'' # ''100'' # ''-t'' # t # ''-C'' # c # r) k) (fw_check tool t c r (view k))"
    and "agrees view k (exec (tool # ''-w'' # ''100'' # ''-I'' # c # r) k) (fw_insert krn tool ''filter'' c r (view k))"
    and "agrees view k (exec (tool # ''-w'' # ''100'' # ''-D'' # c # r) k) (fw_delete tool ''filter'' c r (view k))"
    using d' by (simp_all only:)
qed

lemma documented_chain:
  assumes "documented exec view krn" "tool \<in> tools"
  shows "agrees view k (exec [tool, ''-w'', ''100'', ''-t'', t, ''-N'', c] k) (fw_new tool t c (view k))"
    and "agrees view k (exec [tool, ''-w'', ''100'', ''-t'', t, ''-F'', c] k) (fw_flush tool t c (view k))"
    and "agrees view k (exec [tool, ''-w'', ''100'', ''-t'', t, ''-X'', c] k) (fw_remove tool t c (view k))"
    and "agrees view k (exec [tool, ''-w'', ''100'', ''-t'', t, ''-L'', c, ''-n''] k) (fw_list tool t c (view k))"
proof -
  note d = assms(1) [unfolded documented_def, THEN conjunct2, THEN conjunct1, rule_format,
      OF assms(2) [unfolded tools_def], of k t c]
  show "agrees view k (exec [tool, ''-w'', ''100'', ''-t'', t, ''-N'', c] k) (fw_new tool t c (view k))"
    and "agrees view k (exec [tool, ''-w'', ''100'', ''-t'', t, ''-F'', c] k) (fw_flush tool t c (view k))"
    and "agrees view k (exec [tool, ''-w'', ''100'', ''-t'', t, ''-X'', c] k) (fw_remove tool t c (view k))"
    and "agrees view k (exec [tool, ''-w'', ''100'', ''-t'', t, ''-L'', c, ''-n''] k) (fw_list tool t c (view k))"
    using d by (simp_all only:)
qed

lemma documented_other:
  "documented exec view krn \<Longrightarrow> prog \<notin> tools \<Longrightarrow> vw view (quiet exec st (prog # args)) = vw view st"
  by (simp add: documented_def tools_def vw_def quiet_def)

text \<open>The same laws on the state, for commands whose result is ignored and for tested ones.\<close>

lemma quiet_view:
  assumes "documented exec view krn" "tool \<in> tools"
  shows "is_rule r \<Longrightarrow> vw view (quiet exec st (tool # ''-w'' # ''100'' # ''-t'' # t # ''-A'' # c # r)) = keep (fw_append krn tool t c r (vw view st)) (vw view st)"
    and "is_rule r \<Longrightarrow> vw view (quiet exec st (tool # ''-w'' # ''100'' # ''-t'' # t # ''-I'' # c # ''1'' # r)) = keep (fw_insert krn tool t c r (vw view st)) (vw view st)"
    and "is_rule r \<Longrightarrow> vw view (quiet exec st (tool # ''-w'' # ''100'' # ''-t'' # t # ''-D'' # c # r)) = keep (fw_delete tool t c r (vw view st)) (vw view st)"
    and "is_rule r \<Longrightarrow> vw view (quiet exec st (tool # ''-w'' # ''100'' # ''-t'' # t # ''-C'' # c # r)) = keep (fw_check tool t c r (vw view st)) (vw view st)"
    and "is_rule r \<Longrightarrow> vw view (quiet exec st (tool # ''-w'' # ''100'' # ''-I'' # c # r)) = keep (fw_insert krn tool ''filter'' c r (vw view st)) (vw view st)"
    and "is_rule r \<Longrightarrow> vw view (quiet exec st (tool # ''-w'' # ''100'' # ''-D'' # c # r)) = keep (fw_delete tool ''filter'' c r (vw view st)) (vw view st)"
    and "vw view (quiet exec st (tool # ''-w'' # ''100'' # [''-t'', t, ''-N'', c])) = keep (fw_new tool t c (vw view st)) (vw view st)"
    and "vw view (quiet exec st (tool # ''-w'' # ''100'' # [''-t'', t, ''-F'', c])) = keep (fw_flush tool t c (vw view st)) (vw view st)"
    and "vw view (quiet exec st (tool # ''-w'' # ''100'' # [''-t'', t, ''-X'', c])) = keep (fw_remove tool t c (vw view st)) (vw view st)"
    and "vw view (quiet exec st (tool # ''-w'' # ''100'' # [''-t'', t, ''-L'', c, ''-n''])) = keep (fw_list tool t c (vw view st)) (vw view st)"
proof -
  note a = agrees_quiet [of view st exec, unfolded vw_def]
  show "is_rule r \<Longrightarrow> vw view (quiet exec st (tool # ''-w'' # ''100'' # ''-t'' # t # ''-A'' # c # r)) = keep (fw_append krn tool t c r (vw view st)) (vw view st)"
    unfolding vw_def by (rule a) (rule documented_rule(1) [OF assms])
  show "is_rule r \<Longrightarrow> vw view (quiet exec st (tool # ''-w'' # ''100'' # ''-t'' # t # ''-I'' # c # ''1'' # r)) = keep (fw_insert krn tool t c r (vw view st)) (vw view st)"
    unfolding vw_def by (rule a) (rule documented_rule(2) [OF assms])
  show "is_rule r \<Longrightarrow> vw view (quiet exec st (tool # ''-w'' # ''100'' # ''-t'' # t # ''-D'' # c # r)) = keep (fw_delete tool t c r (vw view st)) (vw view st)"
    unfolding vw_def by (rule a) (rule documented_rule(3) [OF assms])
  show "is_rule r \<Longrightarrow> vw view (quiet exec st (tool # ''-w'' # ''100'' # ''-t'' # t # ''-C'' # c # r)) = keep (fw_check tool t c r (vw view st)) (vw view st)"
    unfolding vw_def by (rule a) (rule documented_rule(4) [OF assms])
  show "is_rule r \<Longrightarrow> vw view (quiet exec st (tool # ''-w'' # ''100'' # ''-I'' # c # r)) = keep (fw_insert krn tool ''filter'' c r (vw view st)) (vw view st)"
    unfolding vw_def by (rule a) (rule documented_rule(5) [OF assms])
  show "is_rule r \<Longrightarrow> vw view (quiet exec st (tool # ''-w'' # ''100'' # ''-D'' # c # r)) = keep (fw_delete tool ''filter'' c r (vw view st)) (vw view st)"
    unfolding vw_def by (rule a) (rule documented_rule(6) [OF assms])
  show "vw view (quiet exec st (tool # ''-w'' # ''100'' # [''-t'', t, ''-N'', c])) = keep (fw_new tool t c (vw view st)) (vw view st)"
    unfolding vw_def by (rule a) (rule documented_chain(1) [OF assms])
  show "vw view (quiet exec st (tool # ''-w'' # ''100'' # [''-t'', t, ''-F'', c])) = keep (fw_flush tool t c (vw view st)) (vw view st)"
    unfolding vw_def by (rule a) (rule documented_chain(2) [OF assms])
  show "vw view (quiet exec st (tool # ''-w'' # ''100'' # [''-t'', t, ''-X'', c])) = keep (fw_remove tool t c (vw view st)) (vw view st)"
    unfolding vw_def by (rule a) (rule documented_chain(3) [OF assms])
  show "vw view (quiet exec st (tool # ''-w'' # ''100'' # [''-t'', t, ''-L'', c, ''-n''])) = keep (fw_list tool t c (vw view st)) (vw view st)"
    unfolding vw_def by (rule a) (rule documented_chain(4) [OF assms])
qed

lemma tested_view:
  assumes "documented exec view krn" "tool \<in> tools"
  shows "is_rule r \<Longrightarrow> fst (tested exec st (tool # ''-w'' # ''100'' # ''-t'' # t # ''-A'' # c # r)) = (fw_append krn tool t c r (vw view st) \<noteq> None) \<and>
        vw view (snd (tested exec st (tool # ''-w'' # ''100'' # ''-t'' # t # ''-A'' # c # r))) = keep (fw_append krn tool t c r (vw view st)) (vw view st)"
    and "is_rule r \<Longrightarrow> fst (tested exec st (tool # ''-w'' # ''100'' # ''-t'' # t # ''-I'' # c # ''1'' # r)) = (fw_insert krn tool t c r (vw view st) \<noteq> None) \<and>
        vw view (snd (tested exec st (tool # ''-w'' # ''100'' # ''-t'' # t # ''-I'' # c # ''1'' # r))) = keep (fw_insert krn tool t c r (vw view st)) (vw view st)"
    and "is_rule r \<Longrightarrow> fst (tested exec st (tool # ''-w'' # ''100'' # ''-t'' # t # ''-D'' # c # r)) = (fw_delete tool t c r (vw view st) \<noteq> None) \<and>
        vw view (snd (tested exec st (tool # ''-w'' # ''100'' # ''-t'' # t # ''-D'' # c # r))) = keep (fw_delete tool t c r (vw view st)) (vw view st)"
    and "is_rule r \<Longrightarrow> fst (tested exec st (tool # ''-w'' # ''100'' # ''-t'' # t # ''-C'' # c # r)) = (fw_check tool t c r (vw view st) \<noteq> None) \<and>
        vw view (snd (tested exec st (tool # ''-w'' # ''100'' # ''-t'' # t # ''-C'' # c # r))) = keep (fw_check tool t c r (vw view st)) (vw view st)"
    and "is_rule r \<Longrightarrow> fst (tested exec st (tool # ''-w'' # ''100'' # ''-I'' # c # r)) = (fw_insert krn tool ''filter'' c r (vw view st) \<noteq> None) \<and>
        vw view (snd (tested exec st (tool # ''-w'' # ''100'' # ''-I'' # c # r))) = keep (fw_insert krn tool ''filter'' c r (vw view st)) (vw view st)"
    and "is_rule r \<Longrightarrow> fst (tested exec st (tool # ''-w'' # ''100'' # ''-D'' # c # r)) = (fw_delete tool ''filter'' c r (vw view st) \<noteq> None) \<and>
        vw view (snd (tested exec st (tool # ''-w'' # ''100'' # ''-D'' # c # r))) = keep (fw_delete tool ''filter'' c r (vw view st)) (vw view st)"
    and "fst (tested exec st (tool # ''-w'' # ''100'' # [''-t'', t, ''-N'', c])) = (fw_new tool t c (vw view st) \<noteq> None) \<and>
        vw view (snd (tested exec st (tool # ''-w'' # ''100'' # [''-t'', t, ''-N'', c]))) = keep (fw_new tool t c (vw view st)) (vw view st)"
    and "fst (tested exec st (tool # ''-w'' # ''100'' # [''-t'', t, ''-F'', c])) = (fw_flush tool t c (vw view st) \<noteq> None) \<and>
        vw view (snd (tested exec st (tool # ''-w'' # ''100'' # [''-t'', t, ''-F'', c]))) = keep (fw_flush tool t c (vw view st)) (vw view st)"
    and "fst (tested exec st (tool # ''-w'' # ''100'' # [''-t'', t, ''-X'', c])) = (fw_remove tool t c (vw view st) \<noteq> None) \<and>
        vw view (snd (tested exec st (tool # ''-w'' # ''100'' # [''-t'', t, ''-X'', c]))) = keep (fw_remove tool t c (vw view st)) (vw view st)"
    and "fst (tested exec st (tool # ''-w'' # ''100'' # [''-t'', t, ''-L'', c, ''-n''])) = (fw_list tool t c (vw view st) \<noteq> None) \<and>
        vw view (snd (tested exec st (tool # ''-w'' # ''100'' # [''-t'', t, ''-L'', c, ''-n'']))) = keep (fw_list tool t c (vw view st)) (vw view st)"
proof -
  note a = agrees_tested [of view st exec, unfolded vw_def]
  show "is_rule r \<Longrightarrow> fst (tested exec st (tool # ''-w'' # ''100'' # ''-t'' # t # ''-A'' # c # r)) = (fw_append krn tool t c r (vw view st) \<noteq> None) \<and>
        vw view (snd (tested exec st (tool # ''-w'' # ''100'' # ''-t'' # t # ''-A'' # c # r))) = keep (fw_append krn tool t c r (vw view st)) (vw view st)"
    unfolding vw_def by (rule a) (rule documented_rule(1) [OF assms])
  show "is_rule r \<Longrightarrow> fst (tested exec st (tool # ''-w'' # ''100'' # ''-t'' # t # ''-I'' # c # ''1'' # r)) = (fw_insert krn tool t c r (vw view st) \<noteq> None) \<and>
        vw view (snd (tested exec st (tool # ''-w'' # ''100'' # ''-t'' # t # ''-I'' # c # ''1'' # r))) = keep (fw_insert krn tool t c r (vw view st)) (vw view st)"
    unfolding vw_def by (rule a) (rule documented_rule(2) [OF assms])
  show "is_rule r \<Longrightarrow> fst (tested exec st (tool # ''-w'' # ''100'' # ''-t'' # t # ''-D'' # c # r)) = (fw_delete tool t c r (vw view st) \<noteq> None) \<and>
        vw view (snd (tested exec st (tool # ''-w'' # ''100'' # ''-t'' # t # ''-D'' # c # r))) = keep (fw_delete tool t c r (vw view st)) (vw view st)"
    unfolding vw_def by (rule a) (rule documented_rule(3) [OF assms])
  show "is_rule r \<Longrightarrow> fst (tested exec st (tool # ''-w'' # ''100'' # ''-t'' # t # ''-C'' # c # r)) = (fw_check tool t c r (vw view st) \<noteq> None) \<and>
        vw view (snd (tested exec st (tool # ''-w'' # ''100'' # ''-t'' # t # ''-C'' # c # r))) = keep (fw_check tool t c r (vw view st)) (vw view st)"
    unfolding vw_def by (rule a) (rule documented_rule(4) [OF assms])
  show "is_rule r \<Longrightarrow> fst (tested exec st (tool # ''-w'' # ''100'' # ''-I'' # c # r)) = (fw_insert krn tool ''filter'' c r (vw view st) \<noteq> None) \<and>
        vw view (snd (tested exec st (tool # ''-w'' # ''100'' # ''-I'' # c # r))) = keep (fw_insert krn tool ''filter'' c r (vw view st)) (vw view st)"
    unfolding vw_def by (rule a) (rule documented_rule(5) [OF assms])
  show "is_rule r \<Longrightarrow> fst (tested exec st (tool # ''-w'' # ''100'' # ''-D'' # c # r)) = (fw_delete tool ''filter'' c r (vw view st) \<noteq> None) \<and>
        vw view (snd (tested exec st (tool # ''-w'' # ''100'' # ''-D'' # c # r))) = keep (fw_delete tool ''filter'' c r (vw view st)) (vw view st)"
    unfolding vw_def by (rule a) (rule documented_rule(6) [OF assms])
  show "fst (tested exec st (tool # ''-w'' # ''100'' # [''-t'', t, ''-N'', c])) = (fw_new tool t c (vw view st) \<noteq> None) \<and>
        vw view (snd (tested exec st (tool # ''-w'' # ''100'' # [''-t'', t, ''-N'', c]))) = keep (fw_new tool t c (vw view st)) (vw view st)"
    unfolding vw_def by (rule a) (rule documented_chain(1) [OF assms])
  show "fst (tested exec st (tool # ''-w'' # ''100'' # [''-t'', t, ''-F'', c])) = (fw_flush tool t c (vw view st) \<noteq> None) \<and>
        vw view (snd (tested exec st (tool # ''-w'' # ''100'' # [''-t'', t, ''-F'', c]))) = keep (fw_flush tool t c (vw view st)) (vw view st)"
    unfolding vw_def by (rule a) (rule documented_chain(2) [OF assms])
  show "fst (tested exec st (tool # ''-w'' # ''100'' # [''-t'', t, ''-X'', c])) = (fw_remove tool t c (vw view st) \<noteq> None) \<and>
        vw view (snd (tested exec st (tool # ''-w'' # ''100'' # [''-t'', t, ''-X'', c]))) = keep (fw_remove tool t c (vw view st)) (vw view st)"
    unfolding vw_def by (rule a) (rule documented_chain(3) [OF assms])
  show "fst (tested exec st (tool # ''-w'' # ''100'' # [''-t'', t, ''-L'', c, ''-n''])) = (fw_list tool t c (vw view st) \<noteq> None) \<and>
        vw view (snd (tested exec st (tool # ''-w'' # ''100'' # [''-t'', t, ''-L'', c, ''-n'']))) = keep (fw_list tool t c (vw view st)) (vw view st)"
    unfolding vw_def by (rule a) (rule documented_chain(4) [OF assms])
qed

lemma sh_run_view: "documented exec view krn \<Longrightarrow> vw view (sh_run exec script st) = vw view st"
  unfolding sh_run_def by (rule documented_other) (simp_all add: tools_def)

section \<open>Updates\<close>

lemma keep_delete: "keep (fw_delete tool t c r fw) fw = fw((tool, t, c) := map_option (remove1 r) (fw (tool, t, c)))"
  by (auto simp: keep_def fw_delete_def remove1_idem split: option.splits)

lemma keep_flush: "keep (fw_flush tool t c fw) fw = fw((tool, t, c) := map_option (\<lambda>_. []) (fw (tool, t, c)))"
  by (auto simp: keep_def fw_flush_def)

lemma keep_append:
  "fw (tool, t, c) = Some rs \<Longrightarrow> rule_ok krn fw tool t r \<Longrightarrow>
   keep (fw_append krn tool t c r fw) fw = fw((tool, t, c) \<mapsto> rs @ [r])"
  by (simp add: keep_def fw_append_def)

lemma keep_insert:
  "fw (tool, t, c) = Some rs \<Longrightarrow> rule_ok krn fw tool t r \<Longrightarrow>
   keep (fw_insert krn tool t c r fw) fw = fw((tool, t, c) \<mapsto> r # rs)"
  by (simp add: keep_def fw_insert_def)

lemma keep_new: "keep (fw_new tool t c fw) fw = fw((tool, t, c) := Some (case fw (tool, t, c) of None \<Rightarrow> [] | Some rs \<Rightarrow> rs))"
  by (auto simp: keep_def fw_new_def split: option.splits)

lemma keep_check [simp]: "keep (fw_check tool t c r fw) fw = fw"
  by (auto simp: keep_def fw_check_def split: option.splits)

lemma keep_list [simp]: "keep (fw_list tool t c fw) fw = fw"
  by (simp add: keep_def fw_list_def)

definition deletes :: "string list list \<Rightarrow> string list list \<Rightarrow> string list list" where
  "deletes ds rs = foldl (\<lambda>rs r. remove1 r rs) rs ds"

lemma deletes_Nil [simp]: "deletes ds [] = []"
  by (induction ds) (auto simp: deletes_def)

lemma deletes_simps [simp]: "deletes [] rs = rs" "deletes (d # ds) rs = deletes ds (remove1 d rs)"
  by (simp_all add: deletes_def)

lemma deletes_Cons_out: "r \<notin> set ds \<Longrightarrow> deletes ds (r # rs) = r # deletes ds rs"
  by (induction ds arbitrary: rs) auto

lemma deletes_disjoint: "set ds \<inter> set rs = {} \<Longrightarrow> deletes ds rs = rs"
  by (induction rs) (auto simp: deletes_Cons_out)

lemma deletes_append: "set ds \<inter> set rs = {} \<Longrightarrow> deletes ds (hs @ rs) = deletes ds hs @ rs"
  by (induction ds arbitrary: hs) (auto simp: remove1_append remove1_idem)

lemma mset_deletes: "mset (deletes ds hs) = mset hs - mset ds"
  by (induction ds arbitrary: hs) (auto simp: diff_add_mset_swap)

lemma deletes_own: "mset hs \<subseteq># mset ds \<Longrightarrow> set ds \<inter> set rs = {} \<Longrightarrow> deletes ds (hs @ rs) = rs"
  using mset_deletes [of ds hs] by (simp add: deletes_append Diff_eq_empty_iff_mset flip: mset_zero_iff)

section \<open>Cleanup\<close>

definition hook_specs :: "string list \<Rightarrow> string \<Rightarrow> (string \<times> string list) list" where
  "hook_specs ifaces ch =
     [(''OUTPUT'', [''-p'', ''tcp'', ''-j'', ch]), (''OUTPUT'', [''-j'', ch]),
      (''OUTPUT'', [''-p'', ''udp'', ''--dport'', ''53'', ''-j'', ch]),
      (''PREROUTING'', [''-p'', ''tcp'', ''-j'', ch]), (''PREROUTING'', [''-j'', ch])]
     @ concat (map (\<lambda>i. if trim_space i = [] then [] else
         [(''PREROUTING'', [''-i'', i, ''-p'', ''tcp'', ''-j'', ch]), (''PREROUTING'', [''-i'', i, ''-j'', ch])]) ifaces)"

lemma hook_deletes_specs: "hook_deletes ifaces ch = map (\<lambda>(c, r). [''-t'', ''nat'', ''-D'', c] @ r) (hook_specs ifaces ch)"
proof -
  have "concat (map (\<lambda>i. if P i then [] else [[''-t'', ''nat'', ''-D'', c i] @ a i, [''-t'', ''nat'', ''-D'', d i] @ b i]) xs)
      = map (\<lambda>(c, r). [''-t'', ''nat'', ''-D'', c] @ r) (concat (map (\<lambda>i. if P i then [] else [(c i, a i), (d i, b i)]) xs))"
    for P a b c d and xs :: "string list"
    by (induction xs) auto
  from this [of "\<lambda>i. trim_space i = []" "\<lambda>_. ''PREROUTING''" "\<lambda>i. [''-i'', i, ''-p'', ''tcp'', ''-j'', ch]"
      "\<lambda>_. ''PREROUTING''" "\<lambda>i. [''-i'', i, ''-j'', ch]" ifaces]
  show ?thesis by (simp only: hook_deletes_def hook_specs_def append_Cons append_Nil map_append list.map prod.case)
qed

lemma hook_specs_rule: "(c, r) \<in> set (hook_specs ifaces ch) \<Longrightarrow> is_rule r"
  by (auto simp: hook_specs_def split: if_splits)

definition del_for :: "string \<Rightarrow> (string \<times> string list) list \<Rightarrow> string list list" where
  "del_for c ds = map snd (filter (\<lambda>d. fst d = c) ds)"

definition fw_deletes :: "(string \<times> string list) list \<Rightarrow> fw \<Rightarrow> fw" where
  "fw_deletes ds fw = (\<lambda>(tool, t, c). if tool = ''iptables'' \<and> t = ''nat''
     then map_option (deletes (del_for c ds)) (fw (tool, t, c)) else fw (tool, t, c))"

lemma fw_deletes_Nil [simp]: "fw_deletes [] fw = fw"
proof -
  have "map_option (deletes (del_for c [])) x = x" for c x by (cases x) (auto simp: del_for_def)
  then show ?thesis by (auto simp: fw_deletes_def fun_eq_iff)
qed

lemma fw_deletes_Cons:
  "fw_deletes (d # ds) fw =
     fw_deletes ds (fw((''iptables'', ''nat'', fst d) := map_option (remove1 (snd d)) (fw (''iptables'', ''nat'', fst d))))"
proof -
  have "map_option (deletes (d # ds)) x = map_option (deletes ds) (map_option (remove1 d) x)" for d ds x
    by (cases x) auto
  then show ?thesis by (auto simp: fw_deletes_def del_for_def fun_eq_iff simp del: deletes_simps)
qed

lemma quiets_Nil [simp]: "quiets exec [] st = st"
  and quiets_Cons [simp]: "quiets exec (a # as) st = quiets exec as (quiet exec st a)"
  and quiets_append [simp]: "quiets exec (as @ bs) st = quiets exec bs (quiets exec as st)"
  by (simp_all add: quiets_def)

lemma quiets_deletes:
  assumes doc: "documented exec view krn" and "\<forall>(c, r) \<in> set ds. is_rule r"
  shows "vw view (quiets exec (map ipt (map (\<lambda>(c, r). [''-t'', ''nat'', ''-D'', c] @ r) ds)) st) =
     fw_deletes ds (vw view st)"
  using assms(2)
proof (induction ds arbitrary: st)
  case (Cons d ds)
  obtain c r where d: "d = (c, r)" "is_rule r" using Cons.prems by (cases d) auto
  have "vw view (quiet exec st (ipt ([''-t'', ''nat'', ''-D'', c] @ r))) =
      (vw view st)((''iptables'', ''nat'', c) := map_option (remove1 r) (vw view st (''iptables'', ''nat'', c)))"
    using quiet_view(3) [OF doc tools(1) d(2), of st "''nat''" c] by (simp add: ipt_def keep_delete)
  then show ?case using Cons d by (simp add: fw_deletes_Cons)
qed simp

definition fw_drop :: "string set \<Rightarrow> fw \<Rightarrow> fw" where
  "fw_drop chs fw = (\<lambda>key. if fst key = ''iptables'' \<and> fst (snd key) = ''nat'' \<and> snd (snd key) \<in> chs then None else fw key)"

definition unreferenced :: "string set \<Rightarrow> fw \<Rightarrow> bool" where
  "unreferenced chs fw = (\<forall>d rs. fw (''iptables'', ''nat'', d) = Some rs \<longrightarrow> (\<forall>r\<in>set rs. \<forall>ch\<in>chs. \<not> jumps r ch))"

lemma unreferenced_drop: "unreferenced chs fw \<Longrightarrow> unreferenced chs (fw_drop ds fw)"
  by (auto simp: unreferenced_def fw_drop_def)

lemma flush_remove_view:
  assumes doc: "documented exec view krn" and "unreferenced {ch} (vw view st)"
  shows "vw view (quiets exec (map ipt [[''-t'', ''nat'', ''-F'', ch], [''-t'', ''nat'', ''-X'', ch]]) st) =
     fw_drop {ch} (vw view st)"
proof -
  let ?key = "(''iptables'', ''nat'', ch)" and ?fw = "vw view st"
  let ?fl = "?fw(?key := map_option (\<lambda>_. []) (?fw ?key))"
  have fl: "vw view (quiet exec st (ipt [''-t'', ''nat'', ''-F'', ch])) = ?fl"
    using quiet_view(8) [OF doc tools(1), of st "''nat''" ch] by (simp add: ipt_def keep_flush)
  have x: "vw view (quiet exec s (ipt [''-t'', ''nat'', ''-X'', ch])) =
      keep (fw_remove ''iptables'' ''nat'' ch (vw view s)) (vw view s)" for s
    using quiet_view(9) [OF doc tools(1), of s "''nat''" ch] by (simp add: ipt_def)
  have "keep (fw_remove ''iptables'' ''nat'' ch ?fl) ?fl = fw_drop {ch} ?fw"
  proof (cases "?fw ?key")
    case None
    then show ?thesis by (auto simp: keep_def fw_remove_def fw_drop_def fun_eq_iff)
  next
    case (Some rs)
    then have "fw_remove ''iptables'' ''nat'' ch ?fl = Some (?fl(?key := None))"
      using assms(2) by (auto simp: fw_remove_def unreferenced_def)
    then show ?thesis by (auto simp: keep_def fw_drop_def fun_eq_iff)
  qed
  then show ?thesis using fl x by simp
qed

lemma flush_remove_all:
  assumes doc: "documented exec view krn" and "unreferenced (set chs) (vw view st)"
  shows "vw view (quiets exec (map ipt (concat (map (\<lambda>ch. [[''-t'', ''nat'', ''-F'', ch], [''-t'', ''nat'', ''-X'', ch]]) chs))) st)
     = fw_drop (set chs) (vw view st)"
  using assms(2)
proof (induction chs arbitrary: st)
  case Nil
  then show ?case by (simp add: fw_drop_def)
next
  case (Cons ch chs)
  let ?st = "quiets exec (map ipt [[''-t'', ''nat'', ''-F'', ch], [''-t'', ''nat'', ''-X'', ch]]) st"
  have "unreferenced {ch} (vw view st)" using Cons.prems by (auto simp: unreferenced_def)
  then have st: "vw view ?st = fw_drop {ch} (vw view st)" by (rule flush_remove_view [OF doc])
  have "unreferenced (set chs) (vw view ?st)"
    using Cons.prems unfolding st by (intro unreferenced_drop) (auto simp: unreferenced_def)
  from Cons.IH [OF this] show ?case using st by (auto simp: fw_drop_def)
qed

lemma delete_up_to_view:
  assumes doc: "documented exec view krn" and "is_rule r"
    and "vw view st (''iptables'', ''filter'', ''OUTPUT'') = Some rs" "count_list rs r \<le> n"
  shows "vw view (delete_up_to exec (ipt ([''-t'', ''filter'', ''-D'', ''OUTPUT''] @ r)) n st) =
     (vw view st)((''iptables'', ''filter'', ''OUTPUT'') \<mapsto> filter (\<lambda>x. x \<noteq> r) rs)"
  using assms(3,4)
proof (induction n arbitrary: st rs)
  case 0
  then have "filter (\<lambda>x. x \<noteq> r) rs = rs" by (auto simp: filter_id_conv count_list_0_iff)
  with 0 show ?case by auto
next
  case (Suc n)
  let ?t = "tested exec st (ipt ([''-t'', ''filter'', ''-D'', ''OUTPUT''] @ r))"
  let ?del = "fw_delete ''iptables'' ''filter'' ''OUTPUT'' r (vw view st)"
  have t: "fst ?t = (?del \<noteq> None)" "vw view (snd ?t) = keep ?del (vw view st)"
    using tested_view(3) [OF doc tools(1) assms(2), of st "''filter''" "''OUTPUT''"] by (simp_all add: ipt_def)
  show ?case
  proof (cases "r \<in> set rs")
    case True
    then have d: "?del = Some ((vw view st)((''iptables'', ''filter'', ''OUTPUT'') \<mapsto> remove1 r rs))"
      using Suc.prems by (simp add: fw_delete_def)
    have v: "vw view (snd ?t) (''iptables'', ''filter'', ''OUTPUT'') = Some (remove1 r rs)"
      using t(2) d by (simp add: keep_def)
    have c: "count_list (remove1 r rs) r \<le> n"
      using Suc.prems(2) True by (metis count_list_remove1 diff_Suc_1 diff_le_mono)
    have f: "filter (\<lambda>x. x \<noteq> r) (remove1 r rs) = filter (\<lambda>x. x \<noteq> r) rs"
      by (induction rs) auto
    have "vw view (delete_up_to exec (ipt ([''-t'', ''filter'', ''-D'', ''OUTPUT''] @ r)) n (snd ?t)) =
        (vw view st)((''iptables'', ''filter'', ''OUTPUT'') \<mapsto> filter (\<lambda>x. x \<noteq> r) rs)"
      unfolding Suc.IH [OF v c] f t(2) d by (simp add: keep_def)
    then show ?thesis using t(1) d by (simp add: split_beta)
  next
    case False
    then have "?del = None" "filter (\<lambda>x. x \<noteq> r) rs = rs"
      using Suc.prems by (auto simp: fw_delete_def filter_id_conv)
    then show ?thesis using t Suc.prems by (auto simp: keep_def split_beta)
  qed
qed

section \<open>A firewall that holds this module's rules and nothing else of its kind\<close>

definition accept_all :: "string list" where
  "accept_all = [''-j'', ''ACCEPT'']"

definition quic_rules :: "string list list" where
  "quic_rules = [quic_rule ''443'' @ [''-j'', ''DROP''], quic_rule ''443'' @ reject_udp,
                 quic_rule ''80'' @ [''-j'', ''DROP''], quic_rule ''80'' @ reject_udp]"

definition own_hooks :: "ipt_config \<Rightarrow> string \<Rightarrow> string list list" where
  "own_hooks cfg c = del_for c (concat (map (hook_specs (hotspot_ifaces cfg)) (legacy_chains (chain_prefix cfg))))"

definition legacy :: "ipt_config \<Rightarrow> string set" where
  "legacy cfg = set (legacy_chains (chain_prefix cfg))"

text \<open>The device's own firewall \<open>base\<close>: the built-in chains exist and nothing in them is ours.\<close>

definition pristine :: "ipt_config \<Rightarrow> fw \<Rightarrow> bool" where
  "pristine cfg base =
     ((\<exists>rs. base (''iptables'', ''nat'', ''OUTPUT'') = Some rs \<and> set (own_hooks cfg ''OUTPUT'') \<inter> set rs = {}) \<and>
      (\<exists>rs. base (''iptables'', ''nat'', ''PREROUTING'') = Some rs \<and> set (own_hooks cfg ''PREROUTING'') \<inter> set rs = {}) \<and>
      (\<exists>rs. base (''iptables'', ''filter'', ''FORWARD'') = Some rs \<and> accept_all \<notin> set rs) \<and>
      (\<exists>rs. base (''iptables'', ''filter'', ''OUTPUT'') = Some rs \<and> set quic_rules \<inter> set rs = {}) \<and>
      unreferenced (legacy cfg) base \<and> (\<forall>ch\<in>legacy cfg. base (''iptables'', ''nat'', ch) = None) \<and>
      (\<exists>rs. base (''ip6tables'', ''filter'', ''OUTPUT'') = Some rs \<and> [''-j'', drop6] \<notin> set rs) \<and>
      (\<exists>rs. base (''ip6tables'', ''filter'', ''FORWARD'') = Some rs \<and> [''-j'', drop6] \<notin> set rs) \<and>
      base (''ip6tables'', ''filter'', drop6) = None \<and>
      (\<forall>d rs. base (''ip6tables'', ''filter'', d) = Some rs \<longrightarrow> (\<forall>r\<in>set rs. \<not> jumps r drop6)))"

text \<open>\<open>base\<close> with any of this module's hooks, chains, QUIC rules and forwarding rule on top, no hook more
  often than the code can have installed it.\<close>

definition ours :: "ipt_config \<Rightarrow> fw \<Rightarrow> fw \<Rightarrow> bool" where
  "ours cfg base fw =
     ((\<exists>hs. fw (''iptables'', ''nat'', ''OUTPUT'') = Some (hs @ the (base (''iptables'', ''nat'', ''OUTPUT''))) \<and>
         mset hs \<subseteq># mset (own_hooks cfg ''OUTPUT'')) \<and>
      (\<exists>hs. fw (''iptables'', ''nat'', ''PREROUTING'') = Some (hs @ the (base (''iptables'', ''nat'', ''PREROUTING''))) \<and>
         mset hs \<subseteq># mset (own_hooks cfg ''PREROUTING'')) \<and>
      (\<exists>hs. fw (''iptables'', ''filter'', ''FORWARD'') = Some (hs @ the (base (''iptables'', ''filter'', ''FORWARD''))) \<and>
         hs \<in> {[], [accept_all]}) \<and>
      (\<exists>qs. fw (''iptables'', ''filter'', ''OUTPUT'') = Some (the (base (''iptables'', ''filter'', ''OUTPUT'')) @ qs) \<and>
         set qs \<subseteq> set quic_rules \<and> (\<forall>r. count_list qs r \<le> 4)) \<and>
      (\<forall>ch\<in>legacy cfg. \<forall>rs. fw (''iptables'', ''nat'', ch) = Some rs \<longrightarrow> (\<forall>r\<in>set rs. \<forall>ch\<in>legacy cfg. \<not> jumps r ch)) \<and>
      (\<forall>key. fst key = ''iptables'' \<longrightarrow> key \<notin> {(''iptables'', ''nat'', ''OUTPUT''), (''iptables'', ''nat'', ''PREROUTING''),
          (''iptables'', ''filter'', ''FORWARD''), (''iptables'', ''filter'', ''OUTPUT'')} \<longrightarrow>
          \<not> (fst (snd key) = ''nat'' \<and> snd (snd key) \<in> legacy cfg) \<longrightarrow> fw key = base key))"

text \<open>The IPv4 part of \<open>base\<close>, the rest of \<open>fw\<close>.\<close>

definition over :: "fw \<Rightarrow> fw \<Rightarrow> fw" where
  "over base fw = (\<lambda>key. if fst key = ''iptables'' then base key else fw key)"

lemma own_hooks_other: "c \<noteq> ''OUTPUT'' \<Longrightarrow> c \<noteq> ''PREROUTING'' \<Longrightarrow> own_hooks cfg c = []"
proof -
  assume c: "c \<noteq> ''OUTPUT''" "c \<noteq> ''PREROUTING''"
  have "fst d \<in> {''OUTPUT'', ''PREROUTING''}" if "d \<in> set (hook_specs ifaces ch)" for d ifaces ch
    using that by (auto simp: hook_specs_def split: if_splits)
  then show ?thesis using c by (fastforce simp: own_hooks_def del_for_def filter_empty_conv)
qed

lemma legacy_names: "ch \<in> legacy cfg \<Longrightarrow> CHR ''_'' \<in> set ch"
  by (auto simp: legacy_def legacy_chains_def)

lemma legacy_not_builtin [simp]:
  "''OUTPUT'' \<notin> legacy cfg" "''PREROUTING'' \<notin> legacy cfg" "''FORWARD'' \<notin> legacy cfg"
  using legacy_names by fastforce+

lemma count_list_filter_le: "count_list (filter P rs) r \<le> count_list rs r"
  by (induction rs) auto

lemma unblock_quic_port_view:
  assumes doc: "documented exec view krn"
    and "vw view st (''iptables'', ''filter'', ''OUTPUT'') = Some rs"
    and "count_list rs (quic_rule port @ [''-j'', ''DROP'']) \<le> 4" "count_list rs (quic_rule port @ reject_udp) \<le> 4"
  shows "vw view (unblock_quic_port exec port st) = (vw view st)((''iptables'', ''filter'', ''OUTPUT'') \<mapsto>
     filter (\<lambda>r. r \<notin> {quic_rule port @ [''-j'', ''DROP''], quic_rule port @ reject_udp}) rs)"
proof -
  let ?d = "quic_rule port @ [''-j'', ''DROP'']" and ?r = "quic_rule port @ reject_udp"
  let ?st = "delete_up_to exec (ipt ([''-t'', ''filter'', ''-D'', ''OUTPUT''] @ ?d)) 4 st"
  have r: "is_rule ?d" "is_rule ?r" by (simp_all add: quic_rule_def)
  have 1: "vw view ?st = (vw view st)((''iptables'', ''filter'', ''OUTPUT'') \<mapsto> filter (\<lambda>x. x \<noteq> ?d) rs)"
    by (rule delete_up_to_view [OF doc r(1) assms(2,3)])
  have "count_list (filter (\<lambda>x. x \<noteq> ?d) rs) ?r \<le> 4"
    using assms(4) count_list_filter_le by (metis order_trans)
  with delete_up_to_view [OF doc r(2), of ?st "filter (\<lambda>x. x \<noteq> ?d) rs" 4] 1
  have "vw view (delete_up_to exec (ipt ([''-t'', ''filter'', ''-D'', ''OUTPUT''] @ ?r)) 4 ?st) =
      (vw view st)((''iptables'', ''filter'', ''OUTPUT'') \<mapsto> filter (\<lambda>x. x \<noteq> ?r) (filter (\<lambda>x. x \<noteq> ?d) rs))"
    by simp
  then show ?thesis by (simp add: unblock_quic_port_def quic_args_def conj_commute)
qed

lemma unblock_quic_view:
  assumes doc: "documented exec view krn"
    and "vw view st (''iptables'', ''filter'', ''OUTPUT'') = Some (rs @ qs)"
    and "set quic_rules \<inter> set rs = {}" "set qs \<subseteq> set quic_rules" "\<forall>r. count_list qs r \<le> 4"
  shows "vw view (unblock_quic exec st) = (vw view st)((''iptables'', ''filter'', ''OUTPUT'') \<mapsto> rs)"
proof -
  let ?P = "\<lambda>port r. r \<notin> {quic_rule port @ [''-j'', ''DROP''], quic_rule port @ reject_udp}"
  have n: "count_list rs r = 0" if "r \<in> set quic_rules" for r
    using that assms(3) by (auto simp: count_list_0_iff)
  have c: "count_list (rs @ qs) r \<le> 4" if "r \<in> set quic_rules" for r
    using n [OF that] assms(5) by simp
  let ?st = "unblock_quic_port exec ''443'' st"
  have 1: "vw view ?st = (vw view st)((''iptables'', ''filter'', ''OUTPUT'') \<mapsto> filter (?P ''443'') (rs @ qs))"
    by (rule unblock_quic_port_view [OF doc assms(2)]) (rule c, simp add: quic_rules_def)+
  have c': "count_list (filter (?P ''443'') (rs @ qs)) r \<le> 4" if "r \<in> set quic_rules" for r
    by (rule order_trans [OF count_list_filter_le c [OF that]])
  have "vw view (unblock_quic_port exec ''80'' ?st) =
      (vw view ?st)((''iptables'', ''filter'', ''OUTPUT'') \<mapsto> filter (?P ''80'') (filter (?P ''443'') (rs @ qs)))"
    by (rule unblock_quic_port_view [OF doc]) (simp add: 1, (rule c', simp add: quic_rules_def)+)
  moreover have "filter (?P ''80'') (filter (?P ''443'') (rs @ qs)) = rs"
  proof -
    have "filter (?P ''80'') (filter (?P ''443'') rs) = rs"
      using assms(3) by (simp add: filter_id_conv quic_rules_def) blast
    moreover have "filter (?P ''80'') (filter (?P ''443'') qs) = []"
      using assms(4) by (auto simp: filter_empty_conv quic_rules_def)
    ultimately show ?thesis by (simp only: filter_append append_Nil2)
  qed
  ultimately show ?thesis using 1 by (simp add: unblock_quic_def)
qed

lemma deletes_hooks_unreferenced:
  assumes "pristine cfg base" "ours cfg base fw"
  defines "del \<equiv> fw_deletes (concat (map (hook_specs (hotspot_ifaces cfg)) (legacy_chains (chain_prefix cfg)))) fw"
  shows "unreferenced (legacy cfg) del"
    and "del (''iptables'', ''nat'', c) =
      (if c = ''OUTPUT'' \<or> c = ''PREROUTING'' then base (''iptables'', ''nat'', c) else fw (''iptables'', ''nat'', c))"
proof -
  let ?fw = del
  have e: "?fw (''iptables'', ''nat'', d) = map_option (deletes (own_hooks cfg d)) (fw (''iptables'', ''nat'', d))" for d
    by (simp add: del_def fw_deletes_def own_hooks_def)
  have b: "?fw (''iptables'', ''nat'', d) = base (''iptables'', ''nat'', d)" if "d = ''OUTPUT'' \<or> d = ''PREROUTING''" for d
    using that assms unfolding e pristine_def ours_def by (elim disjE conjE exE) (simp_all add: deletes_own)
  have o: "?fw (''iptables'', ''nat'', d) = fw (''iptables'', ''nat'', d)" if "d \<noteq> ''OUTPUT''" "d \<noteq> ''PREROUTING''" for d
    using own_hooks_other [OF that] unfolding e by (cases "fw (''iptables'', ''nat'', d)") simp_all
  show "?fw (''iptables'', ''nat'', c) =
      (if c = ''OUTPUT'' \<or> c = ''PREROUTING'' then base (''iptables'', ''nat'', c) else fw (''iptables'', ''nat'', c))"
    using b o by simp
  have u: "\<forall>r\<in>set rs. \<forall>ch\<in>legacy cfg. \<not> jumps r ch" if "base (''iptables'', ''nat'', d) = Some rs" for d rs
    using that assms(1) by (auto simp: pristine_def unreferenced_def)
  show "unreferenced (legacy cfg) ?fw"
    unfolding unreferenced_def
  proof (intro allI impI)
    fix d rs
    assume d: "?fw (''iptables'', ''nat'', d) = Some rs"
    show "\<forall>r\<in>set rs. \<forall>ch\<in>legacy cfg. \<not> jumps r ch"
    proof (cases "d = ''OUTPUT'' \<or> d = ''PREROUTING''")
      case True
      then have "base (''iptables'', ''nat'', d) = Some rs" using b [OF True] d by simp
      then show ?thesis by (rule u)
    next
      case False
      then have f: "fw (''iptables'', ''nat'', d) = Some rs" using o d by simp
      show ?thesis
      proof (cases "d \<in> legacy cfg")
        case True
        then show ?thesis using f assms(2) unfolding ours_def by blast
      next
        case False
        then have "fw (''iptables'', ''nat'', d) = base (''iptables'', ''nat'', d)"
          using assms(2) \<open>\<not> (d = ''OUTPUT'' \<or> d = ''PREROUTING'')\<close> unfolding ours_def by simp
        then have "base (''iptables'', ''nat'', d) = Some rs" using f by simp
        then show ?thesis by (rule u)
      qed
    qed
  qed
qed

lemma cleanup_rules_view:
  assumes doc: "documented exec view krn" and "pristine cfg base" "ours cfg base (vw view st)"
  shows "vw view (cleanup_rules exec cfg st) = over base (vw view st)"
proof -
  let ?fw = "vw view st" and ?ds = "concat (map (hook_specs (hotspot_ifaces cfg)) (legacy_chains (chain_prefix cfg)))"
  let ?fw1 = "fw_deletes ?ds ?fw" and ?fo = "(''iptables'', ''filter'', ''FORWARD'')"
    and ?fq = "(''iptables'', ''filter'', ''OUTPUT'')"
  define st1 where "st1 = quiets exec (map ipt (concat (map (hook_deletes (hotspot_ifaces cfg)) (legacy_chains (chain_prefix cfg))))) st"
  define st2 where "st2 = quiets exec (map ipt (concat (map (\<lambda>ch.
      [[''-t'', ''nat'', ''-F'', ch], [''-t'', ''nat'', ''-X'', ch]]) (legacy_chains (chain_prefix cfg))))) st1"
  define st3 where "st3 = quiet exec st2 (ipt [''-D'', ''FORWARD'', ''-j'', ''ACCEPT''])"
  have st1: "vw view st1 = ?fw1"
  proof -
    have "\<forall>(c, r) \<in> set ?ds. is_rule r" using hook_specs_rule by auto
    moreover have "concat (map (hook_deletes (hotspot_ifaces cfg)) chs) =
        map (\<lambda>(c, r). [''-t'', ''nat'', ''-D'', c] @ r) (concat (map (hook_specs (hotspot_ifaces cfg)) chs))" for chs
      by (induction chs) (simp_all only: list.map concat.simps map_append hook_deletes_specs)
    ultimately show ?thesis using quiets_deletes [OF doc] by (simp only: st1_def)
  qed
  have "unreferenced (set (legacy_chains (chain_prefix cfg))) (vw view st1)"
    unfolding st1 using deletes_hooks_unreferenced(1) [OF assms(2,3)] by (simp add: legacy_def)
  then have st2: "vw view st2 = fw_drop (legacy cfg) ?fw1"
    unfolding st2_def using flush_remove_all [OF doc] st1 by (simp add: legacy_def)
  have st3: "vw view st3 = (vw view st2)(?fo := map_option (remove1 accept_all) (vw view st2 ?fo))"
    using quiet_view(6) [OF doc tools(1), of "[''-j'', ''ACCEPT'']" st2 "''FORWARD''"]
    by (simp add: st3_def ipt_def keep_delete accept_all_def)
  have f: "?fw1 (''iptables'', ''filter'', c) = ?fw (''iptables'', ''filter'', c)" for c
    by (simp add: fw_deletes_def)
  obtain rs qs where q: "base ?fq = Some rs" "?fw ?fq = Some (rs @ qs)" "set quic_rules \<inter> set rs = {}"
      "set qs \<subseteq> set quic_rules" "\<forall>r. count_list qs r \<le> 4"
    using assms(2,3) unfolding pristine_def ours_def by force
  have "vw view st3 ?fq = Some (rs @ qs)" using q(2) by (simp add: st3 st2 fw_drop_def f)
  from unblock_quic_view [OF doc this q(3-5)]
  have v: "vw view (cleanup_rules exec cfg st) = (vw view st3)(?fq \<mapsto> rs)"
    by (simp add: cleanup_rules_def Let_def st1_def [symmetric] st2_def [symmetric] st3_def [symmetric])
  obtain bs hs where fo: "base ?fo = Some bs" "?fw ?fo = Some (hs @ bs)" "hs \<in> {[], [accept_all]}" "accept_all \<notin> set bs"
    using assms(2,3) unfolding pristine_def ours_def by force
  have fo3: "vw view st3 ?fo = base ?fo"
    using fo by (auto simp: st3 st2 fw_drop_def f remove1_idem)
  show ?thesis
  proof (rule ext)
    fix key
    obtain tool t c :: string where key: "key = (tool, t, c)" by (cases key)
    have "vw view st3 key = base key" if "tool = ''iptables''" "key \<noteq> ?fq" "key \<noteq> ?fo"
    proof -
      have s: "vw view st3 key = fw_drop (legacy cfg) ?fw1 key" using that st3 st2 by simp
      show ?thesis
      proof (cases "t = ''nat''")
        case True
        show ?thesis
        proof (cases "c \<in> legacy cfg")
          case True
          then show ?thesis using s key that \<open>t = ''nat''\<close> assms(2) by (simp add: fw_drop_def pristine_def)
        next
          case False
          then have "vw view st3 key = ?fw1 key" using s key by (simp add: fw_drop_def)
          then show ?thesis
            using key True that False deletes_hooks_unreferenced(2) [OF assms(2,3), of c] assms(3)
            unfolding ours_def by (auto split: if_splits)
        qed
      next
        case False
        then have "vw view st3 key = ?fw key" using s key by (simp add: fw_drop_def fw_deletes_def)
        then show ?thesis using key False that assms(3) unfolding ours_def by simp
      qed
    qed
    moreover have "vw view st3 key = ?fw key" if "tool \<noteq> ''iptables''"
      using that key by (auto simp: st3 st2 fw_drop_def fw_deletes_def)
    ultimately show "vw view (cleanup_rules exec cfg st) key = over base ?fw key"
      unfolding v over_def using key fo3 q(1) by auto
  qed
qed

section \<open>The commands Apply runs through its closure\<close>

lemma jumps_simps [simp]: "jumps [] ch = False"
  "jumps (a # r) ch = ((a = ''-j'' \<and> r \<noteq> [] \<and> hd r = ch) \<or> jumps r ch)"
  by (cases r; auto simp: jumps_def sublist_Cons_right)+

lemma run_cmd_agrees:
  "agrees view (ns_kern st) (exec (ipt args) (ns_kern st)) (Some fw) \<Longrightarrow>
   fst (run_cmd exec (errs, st) args) = errs \<and> vw view (snd (run_cmd exec (errs, st) args)) = fw"
  by (auto simp: agrees_def run_cmd_def vw_def split: prod.splits option.splits)

text \<open>The commands all succeed, taking one firewall to another.\<close>

definition core_run :: "'k exec \<Rightarrow> ('k \<Rightarrow> fw) \<Rightarrow> string list list \<Rightarrow> fw \<Rightarrow> fw \<Rightarrow> bool" where
  "core_run exec view cmds fw fw' =
     (\<forall>errs st. vw view st = fw \<longrightarrow>
        fst (foldl (run_cmd exec) (errs, st) cmds) = errs \<and> vw view (snd (foldl (run_cmd exec) (errs, st) cmds)) = fw')"

lemma core_run_Nil [intro!]: "core_run exec view [] fw fw"
  by (simp add: core_run_def)

lemma core_run_append:
  "core_run exec view cs fw fw1 \<Longrightarrow> core_run exec view ds fw1 fw2 \<Longrightarrow> core_run exec view (cs @ ds) fw fw2"
  unfolding core_run_def foldl_append by (metis prod.collapse)

lemma core_run_one:
  assumes "\<And>k. view k = fw \<Longrightarrow> agrees view k (exec (ipt c) k) (Some fw')"
  shows "core_run exec view [c] fw fw'"
  unfolding core_run_def foldl.simps
  by (intro allI impI run_cmd_agrees) (simp add: assms vw_def)

lemma core_run_Cons:
  assumes "\<And>k. view k = fw \<Longrightarrow> agrees view k (exec (ipt c) k) (Some fw1)" "core_run exec view cs fw1 fw2"
  shows "core_run exec view (c # cs) fw fw2"
  using core_run_append [OF core_run_one [of view fw exec c fw1] assms(2)] assms(1) by simp

lemma core_run_new:
  assumes doc: "documented exec view krn" and "fw (''iptables'', ''nat'', ch) = None"
  shows "core_run exec view [[''-t'', ''nat'', ''-N'', ch], [''-t'', ''nat'', ''-F'', ch]] fw
     (fw((''iptables'', ''nat'', ch) \<mapsto> []))"
proof (intro core_run_Cons core_run_Nil)
  show "agrees view k (exec (ipt [''-t'', ''nat'', ''-N'', ch]) k) (Some (fw((''iptables'', ''nat'', ch) \<mapsto> [])))"
    if "view k = fw" for k
    using documented_chain(1) [OF doc tools(1), of k "''nat''" ch] that assms(2) by (simp add: ipt_def fw_new_def)
  show "agrees view k (exec (ipt [''-t'', ''nat'', ''-F'', ch]) k) (Some (fw((''iptables'', ''nat'', ch) \<mapsto> [])))"
    if "view k = fw((''iptables'', ''nat'', ch) \<mapsto> [])" for k
    using documented_chain(2) [OF doc tools(1), of k "''nat''" ch] that by (simp add: ipt_def fw_flush_def)
qed (rule core_run_Nil)

lemma rule_ok_upd [simp]: "fw (tool, t, c) \<noteq> None \<Longrightarrow> rule_ok krn (fw((tool, t, c) \<mapsto> x)) tool t r = rule_ok krn fw tool t r"
  by (auto simp: rule_ok_def)

lemma core_run_appends:
  assumes doc: "documented exec view krn" and "fw (''iptables'', ''nat'', ch) = Some rs"
    and "\<forall>r\<in>set rls. is_rule r \<and> rule_ok krn fw ''iptables'' ''nat'' r"
  shows "core_run exec view (map (\<lambda>r. [''-t'', ''nat'', ''-A'', ch] @ r) rls) fw
     (fw((''iptables'', ''nat'', ch) \<mapsto> rs @ rls))"
  using assms(2,3)
proof (induction rls arbitrary: fw rs)
  case Nil
  then have "fw((''iptables'', ''nat'', ch) \<mapsto> rs @ []) = fw" by auto
  then show ?case by (simp only: list.map core_run_Nil)
next
  case (Cons r rls)
  let ?fw1 = "fw((''iptables'', ''nat'', ch) \<mapsto> rs @ [r])"
  have "agrees view k (exec (ipt ([''-t'', ''nat'', ''-A'', ch] @ r)) k) (Some ?fw1)" if "view k = fw" for k
    using documented_rule(1) [OF doc tools(1), of r k "''nat''" ch] that Cons.prems by (simp add: ipt_def fw_append_def)
  moreover have "core_run exec view (map (\<lambda>r. [''-t'', ''nat'', ''-A'', ch] @ r) rls) ?fw1
      (?fw1((''iptables'', ''nat'', ch) \<mapsto> (rs @ [r]) @ rls))"
    by (rule Cons.IH) (use Cons.prems in \<open>simp_all del: fun_upd_apply add: fun_upd_same\<close>)
  ultimately show ?case
    unfolding list.map rev.simps append_assoc append_Cons append_Nil fun_upd_upd by (rule core_run_Cons)
qed

lemma core_run_inserts:
  assumes doc: "documented exec view krn" and "fw (''iptables'', ''nat'', c) = Some rs"
    and "\<forall>r\<in>set rls. is_rule r \<and> rule_ok krn fw ''iptables'' ''nat'' r"
  shows "core_run exec view (map (\<lambda>r. [''-t'', ''nat'', ''-I'', c, ''1''] @ r) rls) fw
     (fw((''iptables'', ''nat'', c) \<mapsto> rev rls @ rs))"
  using assms(2,3)
proof (induction rls arbitrary: fw rs)
  case Nil
  then have "fw((''iptables'', ''nat'', c) \<mapsto> rev [] @ rs) = fw" by auto
  then show ?case by (simp only: list.map core_run_Nil)
next
  case (Cons r rls)
  let ?fw1 = "fw((''iptables'', ''nat'', c) \<mapsto> r # rs)"
  have "agrees view k (exec (ipt ([''-t'', ''nat'', ''-I'', c, ''1''] @ r)) k) (Some ?fw1)" if "view k = fw" for k
    using documented_rule(2) [OF doc tools(1), of r k "''nat''" c] that Cons.prems by (simp add: ipt_def fw_insert_def)
  moreover have "core_run exec view (map (\<lambda>r. [''-t'', ''nat'', ''-I'', c, ''1''] @ r) rls) ?fw1
      (?fw1((''iptables'', ''nat'', c) \<mapsto> rev rls @ r # rs))"
    by (rule Cons.IH) (use Cons.prems in \<open>simp_all del: fun_upd_apply add: fun_upd_same\<close>)
  ultimately show ?case
    unfolding list.map rev.simps append_assoc append_Cons append_Nil fun_upd_upd by (rule core_run_Cons)
qed

section \<open>What Apply installs\<close>

definition out_chain :: "ipt_config \<Rightarrow> string" where
  "out_chain cfg = chain_prefix cfg @ ''_OUTPUT''"

definition pre_chain :: "ipt_config \<Rightarrow> string" where
  "pre_chain cfg = chain_prefix cfg @ ''_PREROUTING''"

definition dns_chain :: "ipt_config \<Rightarrow> string" where
  "dns_chain cfg = chain_prefix cfg @ ''_DNS''"

lemma chains_distinct [simp]:
  "out_chain cfg \<noteq> pre_chain cfg" "pre_chain cfg \<noteq> out_chain cfg" "out_chain cfg \<noteq> dns_chain cfg"
  "dns_chain cfg \<noteq> out_chain cfg" "pre_chain cfg \<noteq> dns_chain cfg" "dns_chain cfg \<noteq> pre_chain cfg"
  by (simp_all add: out_chain_def pre_chain_def dns_chain_def)

lemma chains_legacy [simp]:
  "out_chain cfg \<in> legacy cfg" "pre_chain cfg \<in> legacy cfg" "dns_chain cfg \<in> legacy cfg"
  by (simp_all add: out_chain_def pre_chain_def dns_chain_def legacy_def legacy_chains_def)

lemma legacy_neq: "ch \<in> legacy cfg \<Longrightarrow> CHR ''_'' \<notin> set s \<Longrightarrow> ch \<noteq> s \<and> s \<noteq> ch"
  using legacy_names by blast

lemma chains_not_builtin:
  assumes "ch \<in> legacy cfg"
  shows "ch \<noteq> ''OUTPUT''" "ch \<noteq> ''PREROUTING''" "ch \<noteq> ''FORWARD''" "ch \<notin> set builtin_targets" "ch \<noteq> ''-p''" "ch \<noteq> ''-j''"
    "ch \<noteq> ''tcp''" "ch \<noteq> ''udp''" "''OUTPUT'' \<noteq> ch" "''PREROUTING'' \<noteq> ch" "''FORWARD'' \<noteq> ch"
  using legacy_names [OF assms] by (auto simp: builtin_targets_def)

lemmas chain_names [simp] = chains_not_builtin [OF chains_legacy(1)] chains_not_builtin [OF chains_legacy(2)]
  chains_not_builtin [OF chains_legacy(3)]

definition uid0_rule :: "string list" where
  "uid0_rule = [''-m'', ''owner'', ''--uid-owner'', ''0'', ''-j'', ''RETURN'']"

definition dns_rules :: "ipt_config \<Rightarrow> string list list" where
  "dns_rules cfg = [uid0_rule,
     [''-p'', ''udp'', ''--dport'', ''53'', ''-j'', ''DNAT'', ''--to-destination'', ''127.0.0.1:'' @ itoa (ic_dns_port cfg)]]"

definition dns_hook :: "ipt_config \<Rightarrow> string list" where
  "dns_hook cfg = [''-p'', ''udp'', ''--dport'', ''53'', ''-j'', dns_chain cfg]"

definition tcp_hook :: "ipt_config \<Rightarrow> string list" where
  "tcp_hook cfg = [''-p'', ''tcp'', ''-j'', out_chain cfg]"

definition iface_hooks :: "ipt_config \<Rightarrow> string list list" where
  "iface_hooks cfg = (if ic_hotspot cfg then
     map (\<lambda>i. [''-i'', i, ''-p'', ''tcp'', ''-j'', pre_chain cfg]) (filter (\<lambda>i. trim_space i \<noteq> []) (hotspot_ifaces cfg))
     else [])"

definition quic_block :: "(string list \<Rightarrow> bool) \<Rightarrow> string \<Rightarrow> string list" where
  "quic_block krn port =
     (if krn (quic_rule port @ reject_udp) then quic_rule port @ reject_udp else quic_rule port @ [''-j'', ''DROP''])"

definition reject6 :: "string list" where
  "reject6 = [''-j'', ''REJECT'', ''--reject-with'', ''icmp6-adm-prohibited'']"

definition drop6_rules :: "(string list \<Rightarrow> bool) \<Rightarrow> string list list" where
  "drop6_rules krn = [[''-o'', ''lo'', ''-j'', ''RETURN''], if krn reject6 then reject6 else [''-j'', ''DROP'']]"

definition drop6_hook :: "string list" where
  "drop6_hook = [''-j'', drop6]"

text \<open>The rules the kernel must support; \<open>REJECT\<close> is not among them.\<close>

definition needed_rules :: "ipt_config \<Rightarrow> string list \<Rightarrow> string list list" where
  "needed_rules cfg ips =
     chain_rules cfg ips True @ dns_rules cfg @ [dns_hook cfg, tcp_hook cfg, accept_all, drop6_hook,
       quic_rule ''443'' @ [''-j'', ''DROP''], quic_rule ''80'' @ [''-j'', ''DROP''],
       [''-o'', ''lo'', ''-j'', ''RETURN''], [''-j'', ''DROP'']] @ iface_hooks cfg"

definition installable :: "(string list \<Rightarrow> bool) \<Rightarrow> ipt_config \<Rightarrow> string list \<Rightarrow> bool" where
  "installable krn cfg ips =
     (list_all krn (needed_rules cfg ips) \<and> ''-j'' \<notin> trim_space ` set ips \<and> ''-j'' \<notin> set (ic_ifaces cfg))"

definition forward_rules :: "ipt_config \<Rightarrow> string list list" where
  "forward_rules cfg = (if ic_hotspot cfg then [accept_all] else [])"

definition out_hooks :: "ipt_config \<Rightarrow> string list list" where
  "out_hooks cfg = (if 0 < ic_dns_port cfg then [dns_hook cfg] else []) @ [tcp_hook cfg]"

text \<open>The IPv4 tables after \<open>Apply\<close> on top of \<open>base\<close>.\<close>

definition installed4 :: "(string list \<Rightarrow> bool) \<Rightarrow> ipt_config \<Rightarrow> string list \<Rightarrow> fw \<Rightarrow> fw" where
  "installed4 krn cfg ips base = base(
     (''iptables'', ''nat'', out_chain cfg) \<mapsto> chain_rules cfg ips True,
     (''iptables'', ''nat'', pre_chain cfg) \<mapsto> chain_rules cfg ips False,
     (''iptables'', ''nat'', ''OUTPUT'') \<mapsto> out_hooks cfg @ the (base (''iptables'', ''nat'', ''OUTPUT'')),
     (''iptables'', ''nat'', ''PREROUTING'') \<mapsto> rev (iface_hooks cfg) @ the (base (''iptables'', ''nat'', ''PREROUTING'')),
     (''iptables'', ''filter'', ''FORWARD'') \<mapsto> forward_rules cfg @ the (base (''iptables'', ''filter'', ''FORWARD'')),
     (''iptables'', ''nat'', dns_chain cfg) := (if 0 < ic_dns_port cfg then Some (dns_rules cfg) else None),
     (''iptables'', ''filter'', ''OUTPUT'') \<mapsto> the (base (''iptables'', ''filter'', ''OUTPUT'')) @ [quic_block krn ''443'', quic_block krn ''80''])"

definition installed :: "(string list \<Rightarrow> bool) \<Rightarrow> ipt_config \<Rightarrow> string list \<Rightarrow> fw \<Rightarrow> fw" where
  "installed krn cfg ips base = (installed4 krn cfg ips base)(
     (''ip6tables'', ''filter'', drop6) \<mapsto> drop6_rules krn,
     (''ip6tables'', ''filter'', ''OUTPUT'') \<mapsto> drop6_hook # the (base (''ip6tables'', ''filter'', ''OUTPUT'')),
     (''ip6tables'', ''filter'', ''FORWARD'') \<mapsto> drop6_hook # the (base (''ip6tables'', ''filter'', ''FORWARD'')))"

lemma itoa_not_j [simp]: "0 < p \<Longrightarrow> itoa p \<noteq> ''-j''"
  using digit_hd_nat_dec [of "nat p"] dash_not_digit by (auto simp: itoa_def)

lemma chain_rules_True: "chain_rules cfg ips True = uid0_rule # chain_rules cfg ips False"
  by (simp add: chain_rules_def uid0_rule_def)

lemma chain_rules_cases:
  assumes "r \<in> set (chain_rules cfg ips False)"
  obtains cidr where "cidr \<in> set private_cidrs" "r = [''-d'', cidr, ''-j'', ''RETURN'']"
    | ip where "ip \<in> trim_space ` set ips" "r = [''-d'', ip, ''-j'', ''RETURN'']"
    | p where "0 < p" "r = [''-p'', ''tcp'', ''--dport'', itoa p, ''-j'', ''RETURN'']"
    | p where "0 < p" "r = [''-p'', ''tcp'', ''-j'', ''REDIRECT'', ''--to-ports'', itoa p]"
proof -
  have "0 < redirect_port cfg" by (simp add: redirect_port_def)
  then show thesis
    using assms that unfolding chain_rules_def set_append Un_iff set_map set_filter by fastforce
qed

lemma return_jumps: "jumps r ch \<Longrightarrow> r \<in> {[''-d'', a, ''-j'', ''RETURN''], [''-p'', ''tcp'', ''--dport'', a, ''-j'', ''RETURN''],
     [''-p'', ''tcp'', ''-j'', ''REDIRECT'', ''--to-ports'', a]} \<Longrightarrow> a \<noteq> ''-j'' \<Longrightarrow> ch \<in> set builtin_targets"
  by (auto simp: builtin_targets_def)

lemma chain_rules_ok:
  assumes "installable krn cfg ips" "r \<in> set (chain_rules cfg ips b)"
  shows "is_rule r" "rule_ok krn fw ''iptables'' ''nat'' r" "jumps r ch \<Longrightarrow> ch \<in> set builtin_targets"
proof -
  have r: "r = uid0_rule \<or> r \<in> set (chain_rules cfg ips False)"
    using assms(2) by (cases b) (auto simp only: chain_rules_True list.set insert_iff)
  have "krn r"
  proof -
    have "list_all krn (uid0_rule # chain_rules cfg ips False)"
      using assms(1) unfolding installable_def needed_rules_def chain_rules_True list_all_append by blast
    then show ?thesis using r unfolding list_all_iff by auto
  qed
  moreover have j: "is_rule r \<and> (jumps r ch \<longrightarrow> ch \<in> set builtin_targets)" for ch
  proof (cases "r = uid0_rule")
    case True
    then show ?thesis by (simp add: uid0_rule_def builtin_targets_def)
  next
    case False
    with r have "r \<in> set (chain_rules cfg ips False)" by blast
    then show ?thesis
    proof (cases rule: chain_rules_cases)
      case (1 cidr)
      then have "cidr \<noteq> ''-j''" by (auto simp: private_cidrs_def)
      then show ?thesis using 1 return_jumps [of r ch cidr] by simp
    next
      case (2 ip)
      then have "ip \<noteq> ''-j''" using assms(1) unfolding installable_def by metis
      then show ?thesis using 2 return_jumps [of r ch ip] by simp
    next
      case (3 p)
      then show ?thesis using return_jumps [of r ch "itoa p"] by simp
    next
      case (4 p)
      then show ?thesis using return_jumps [of r ch "itoa p"] by simp
    qed
  qed
  ultimately show "is_rule r" "rule_ok krn fw ''iptables'' ''nat'' r" "jumps r ch \<Longrightarrow> ch \<in> set builtin_targets"
    by (auto simp: rule_ok_def)
qed

lemma rule_ok_target: "krn r \<Longrightarrow> (\<And>ch. jumps r ch \<Longrightarrow> ch \<in> set builtin_targets \<or> fw (tool, t, ch) \<noteq> None) \<Longrightarrow> rule_ok krn fw tool t r"
  by (auto simp: rule_ok_def)

lemma installable_needed: "installable krn cfg ips \<Longrightarrow> r \<in> set (needed_rules cfg ips) \<Longrightarrow> krn r"
  unfolding installable_def list_all_iff by blast

lemma builtin_simps [simp]:
  "''RETURN'' \<in> set builtin_targets" "''DROP'' \<in> set builtin_targets" "''ACCEPT'' \<in> set builtin_targets"
  "''REJECT'' \<in> set builtin_targets" "''DNAT'' \<in> set builtin_targets"
  by (simp_all add: builtin_targets_def)

lemma needed_ok:
  assumes "installable krn cfg ips"
  shows "rule_ok krn fw tool t (dns_rules cfg ! 0)" "rule_ok krn fw tool t (dns_rules cfg ! 1)"
    "fw (tool, t, dns_chain cfg) \<noteq> None \<Longrightarrow> rule_ok krn fw tool t (dns_hook cfg)"
    "fw (tool, t, out_chain cfg) \<noteq> None \<Longrightarrow> rule_ok krn fw tool t (tcp_hook cfg)"
    "fw (tool, t, drop6) \<noteq> None \<Longrightarrow> rule_ok krn fw tool t drop6_hook"
    "rule_ok krn fw tool t accept_all" "rule_ok krn fw tool t [''-o'', ''lo'', ''-j'', ''RETURN'']"
    "rule_ok krn fw tool t [''-j'', ''DROP'']"
    "rule_ok krn fw tool t (quic_rule ''443'' @ [''-j'', ''DROP''])"
    "rule_ok krn fw tool t (quic_rule ''80'' @ [''-j'', ''DROP''])"
proof -
  note n = installable_needed [OF assms, unfolded needed_rules_def]
  show "rule_ok krn fw tool t (dns_rules cfg ! 0)"
    by (rule rule_ok_target, rule n) (simp_all add: dns_rules_def, simp add: uid0_rule_def)
  show "rule_ok krn fw tool t (dns_rules cfg ! 1)"
    by (rule rule_ok_target, rule n) (simp add: dns_rules_def, auto simp: dns_rules_def)
  show "rule_ok krn fw tool t (dns_hook cfg)" if "fw (tool, t, dns_chain cfg) \<noteq> None"
    by (rule rule_ok_target, rule n) (use that in \<open>auto simp: dns_hook_def\<close>)
  show "rule_ok krn fw tool t (tcp_hook cfg)" if "fw (tool, t, out_chain cfg) \<noteq> None"
    by (rule rule_ok_target, rule n) (use that in \<open>auto simp: tcp_hook_def\<close>)
  show "rule_ok krn fw tool t drop6_hook" if "fw (tool, t, drop6) \<noteq> None"
    by (rule rule_ok_target, rule n) (use that in \<open>auto simp: drop6_hook_def drop6_def\<close>)
  show "rule_ok krn fw tool t accept_all"
    by (rule rule_ok_target, rule n) (auto simp: accept_all_def)
  show "rule_ok krn fw tool t [''-o'', ''lo'', ''-j'', ''RETURN'']"
    by (rule rule_ok_target, rule n) auto
  show "rule_ok krn fw tool t [''-j'', ''DROP'']"
    by (rule rule_ok_target, rule n) auto
  show "rule_ok krn fw tool t (quic_rule ''443'' @ [''-j'', ''DROP''])"
    by (rule rule_ok_target, rule n) (auto simp: quic_rule_def)
  show "rule_ok krn fw tool t (quic_rule ''80'' @ [''-j'', ''DROP''])"
    by (rule rule_ok_target, rule n) (auto simp: quic_rule_def)
qed

lemma iface_hooks_ok:
  assumes "installable krn cfg ips" "fw (''iptables'', ''nat'', pre_chain cfg) \<noteq> None" "r \<in> set (iface_hooks cfg)"
  shows "is_rule r" "rule_ok krn fw ''iptables'' ''nat'' r"
proof -
  have "r \<in> set (needed_rules cfg ips)" using assms(3) unfolding needed_rules_def set_append by blast
  then have k: "krn r" by (rule installable_needed [OF assms(1)])
  obtain i where i: "i \<in> set (hotspot_ifaces cfg)" "r = [''-i'', i, ''-p'', ''tcp'', ''-j'', pre_chain cfg]"
    using assms(3) by (auto simp: iface_hooks_def split: if_splits)
  have "i \<noteq> ''-j''"
    using i(1) assms(1) by (auto simp: hotspot_ifaces_def default_ifaces_def installable_def split: if_splits)
  then show "rule_ok krn fw ''iptables'' ''nat'' r"
    using k i(2) assms(2) by (intro rule_ok_target) auto
  show "is_rule r" using i(2) by simp
qed

lemma core_cmds_run:
  assumes doc: "documented exec view krn" and inst: "installable krn cfg ips"
    and free: "fw (''iptables'', ''nat'', out_chain cfg) = None" "fw (''iptables'', ''nat'', pre_chain cfg) = None"
    and nat: "fw (''iptables'', ''nat'', ''OUTPUT'') = Some os" "fw (''iptables'', ''nat'', ''PREROUTING'') = Some ps"
  shows "core_run exec view (core_cmds cfg ips) fw (fw(
     (''iptables'', ''nat'', out_chain cfg) \<mapsto> chain_rules cfg ips True,
     (''iptables'', ''nat'', pre_chain cfg) \<mapsto> chain_rules cfg ips False,
     (''iptables'', ''nat'', ''OUTPUT'') \<mapsto> tcp_hook cfg # os,
     (''iptables'', ''nat'', ''PREROUTING'') \<mapsto> rev (iface_hooks cfg) @ ps))"
proof -
  let ?o = "(''iptables'', ''nat'', out_chain cfg)" and ?p = "(''iptables'', ''nat'', pre_chain cfg)"
  let ?O = "(''iptables'', ''nat'', ''OUTPUT'')" and ?P = "(''iptables'', ''nat'', ''PREROUTING'')"
  let ?fw1 = "fw(?o \<mapsto> [])" let ?fw2 = "?fw1(?p \<mapsto> [])"
  let ?fw3 = "?fw2(?o \<mapsto> [] @ chain_rules cfg ips True)" let ?fw4 = "?fw3(?p \<mapsto> [] @ chain_rules cfg ips False)"
  let ?fw5 = "?fw4(?O \<mapsto> rev [tcp_hook cfg] @ os)" let ?fw6 = "?fw5(?P \<mapsto> rev (iface_hooks cfg) @ ps)"
  have r1: "core_run exec view [[''-t'', ''nat'', ''-N'', out_chain cfg], [''-t'', ''nat'', ''-F'', out_chain cfg]] fw ?fw1"
    by (rule core_run_new [OF doc, of fw "out_chain cfg", OF free(1)])
  have r2: "core_run exec view [[''-t'', ''nat'', ''-N'', pre_chain cfg], [''-t'', ''nat'', ''-F'', pre_chain cfg]] ?fw1 ?fw2"
    by (rule core_run_new [OF doc, of ?fw1 "pre_chain cfg"]) (use free(2) in simp)
  have r3: "core_run exec view (add_bypasses cfg ips (out_chain cfg) True) ?fw2 ?fw3"
    unfolding add_bypasses_def by (rule core_run_appends [OF doc]) (use chain_rules_ok [OF inst] in auto)
  have r4: "core_run exec view (add_bypasses cfg ips (pre_chain cfg) False) ?fw3 ?fw4"
    unfolding add_bypasses_def by (rule core_run_appends [OF doc]) (use chain_rules_ok [OF inst] in auto)
  have r5: "core_run exec view (map (\<lambda>r. [''-t'', ''nat'', ''-I'', ''OUTPUT'', ''1''] @ r) [tcp_hook cfg]) ?fw4 ?fw5"
    by (rule core_run_inserts [OF doc])
      (use nat(1) needed_ok(4) [OF inst, of ?fw4] in \<open>simp_all del: fun_upd_apply add: fun_upd_same fun_upd_other tcp_hook_def\<close>)
  have ok6: "\<forall>r\<in>set (iface_hooks cfg). is_rule r \<and> rule_ok krn ?fw5 ''iptables'' ''nat'' r"
    using iface_hooks_ok [OF inst, of ?fw5] by simp
  have r6: "core_run exec view (map (\<lambda>r. [''-t'', ''nat'', ''-I'', ''PREROUTING'', ''1''] @ r) (iface_hooks cfg)) ?fw5 ?fw6"
    by (rule core_run_inserts [OF doc _ ok6]) (use nat(2) in simp)
  have c: "core_cmds cfg ips =
      [[''-t'', ''nat'', ''-N'', out_chain cfg], [''-t'', ''nat'', ''-F'', out_chain cfg]]
      @ [[''-t'', ''nat'', ''-N'', pre_chain cfg], [''-t'', ''nat'', ''-F'', pre_chain cfg]]
      @ add_bypasses cfg ips (out_chain cfg) True @ add_bypasses cfg ips (pre_chain cfg) False
      @ map (\<lambda>r. [''-t'', ''nat'', ''-I'', ''OUTPUT'', ''1''] @ r) [tcp_hook cfg]
      @ map (\<lambda>r. [''-t'', ''nat'', ''-I'', ''PREROUTING'', ''1''] @ r) (iface_hooks cfg)"
    by (simp add: core_cmds_def Let_def out_chain_def pre_chain_def tcp_hook_def iface_hooks_def comp_def)
  have "core_run exec view (core_cmds cfg ips) fw ?fw6"
    unfolding c by (rule core_run_append [OF r1 core_run_append [OF r2 core_run_append [OF r3
        core_run_append [OF r4 core_run_append [OF r5 r6]]]]])
  moreover have "?fw6 = fw(?o \<mapsto> chain_rules cfg ips True, ?p \<mapsto> chain_rules cfg ips False,
      ?O \<mapsto> tcp_hook cfg # os, ?P \<mapsto> rev (iface_hooks cfg) @ ps)"
    by (auto simp: fun_eq_iff)
  ultimately show ?thesis by (simp only:)
qed

section \<open>The best-effort part\<close>

lemma tested_split: "(let (ok, st) = tested exec st argv in f ok st) = f (fst (tested exec st argv)) (snd (tested exec st argv))"
  by (simp add: split_beta)

lemma setup_dns_view:
  assumes doc: "documented exec view krn" and inst: "installable krn cfg ips" and port: "0 < ic_dns_port cfg"
    and fw: "vw view st (''iptables'', ''nat'', dns_chain cfg) = None"
      "vw view st (''iptables'', ''nat'', ''OUTPUT'') = Some os" "dns_hook cfg \<notin> set os"
  shows "vw view (setup_dns_forward exec (chain_prefix cfg) (ic_dns_port cfg) st) = (vw view st)(
     (''iptables'', ''nat'', dns_chain cfg) \<mapsto> dns_rules cfg,
     (''iptables'', ''nat'', ''OUTPUT'') \<mapsto> dns_hook cfg # os)"
proof -
  let ?c = "dns_chain cfg" and ?O = "(''iptables'', ''nat'', ''OUTPUT'')" and ?fw = "vw view st"
  let ?D = "(''iptables'', ''nat'', ?c)"
  define st0 where "st0 = sh_run exec (''sysctl -w net.ipv4.conf.all.route_localnet=1 2>/dev/null || '' @
                   ''echo 1 > /proc/sys/net/ipv4/conf/all/route_localnet'') st"
  define t where "t = tested exec st0 (ipt [''-t'', ''nat'', ''-L'', ?c, ''-n''])"
  define st2 where "st2 = quiet exec (snd t) (ipt [''-t'', ''nat'', ''-N'', ?c])"
  define st3 where "st3 = quiet exec st2 (ipt [''-t'', ''nat'', ''-F'', ?c])"
  define st4 where "st4 = quiet exec st3 (ipt ([''-t'', ''nat'', ''-A'', ?c] @ dns_rules cfg ! 0))"
  define st5 where "st5 = quiet exec st4 (ipt ([''-t'', ''nat'', ''-A'', ?c] @ dns_rules cfg ! 1))"
  define st6 where "st6 = quiet exec st5 (ipt ([''-t'', ''nat'', ''-D'', ''OUTPUT''] @ dns_hook cfg))"
  define st7 where "st7 = quiet exec st6 (ipt ([''-t'', ''nat'', ''-I'', ''OUTPUT'', ''1''] @ dns_hook cfg))"
  have r: "is_rule (dns_rules cfg ! 0)" "is_rule (dns_rules cfg ! 1)" "is_rule (dns_hook cfg)"
    by (simp_all add: dns_rules_def uid0_rule_def dns_hook_def)
  have v0: "vw view st0 = ?fw" unfolding st0_def by (rule sh_run_view [OF doc])
  have t: "\<not> fst t" "vw view (snd t) = ?fw"
    using tested_view(10) [OF doc tools(1), of st0 "''nat''" ?c] fw(1) v0
    by (simp_all add: t_def ipt_def fw_list_def keep_def)
  have v2: "vw view st2 = ?fw(?D \<mapsto> [])"
    using quiet_view(7) [OF doc tools(1), of "snd t" "''nat''" ?c] t fw(1) by (simp add: st2_def ipt_def keep_new)
  have v3: "vw view st3 = ?fw(?D \<mapsto> [])"
    using quiet_view(8) [OF doc tools(1), of st2 "''nat''" ?c] v2 by (simp add: st3_def ipt_def keep_flush)
  have v4: "vw view st4 = ?fw(?D \<mapsto> [dns_rules cfg ! 0])"
    using quiet_view(1) [OF doc tools(1) r(1), of st3 "''nat''" ?c] v3 needed_ok(1) [OF inst]
    by (simp add: st4_def ipt_def keep_append)
  have v5: "vw view st5 = ?fw(?D \<mapsto> dns_rules cfg)"
    using quiet_view(1) [OF doc tools(1) r(2), of st4 "''nat''" ?c] v4 needed_ok(2) [OF inst]
    by (simp add: st5_def ipt_def keep_append) (simp add: dns_rules_def)
  have v6: "vw view st6 = vw view st5"
  proof -
    have "vw view st5 ?O = Some os" using v5 fw(2) by simp
    then have "fw_delete ''iptables'' ''nat'' ''OUTPUT'' (dns_hook cfg) (vw view st5) = None"
      using fw(3) by (simp add: fw_delete_def)
    then show ?thesis
      using quiet_view(3) [OF doc tools(1) r(3), of st5 "''nat''" "''OUTPUT''"] by (simp add: st6_def ipt_def keep_def)
  qed
  have o6: "vw view st6 ?O = Some os" "rule_ok krn (vw view st6) ''iptables'' ''nat'' (dns_hook cfg)"
    using v6 v5 fw(2) needed_ok(3) [OF inst, of "vw view st6"] by simp_all
  have "vw view st7 = (vw view st6)(?O \<mapsto> dns_hook cfg # os)"
    using quiet_view(2) [OF doc tools(1) r(3), of st6 "''nat''" "''OUTPUT''"] keep_insert [OF o6]
    by (simp add: st7_def ipt_def)
  then have "vw view st7 = ?fw(?D \<mapsto> dns_rules cfg, ?O \<mapsto> dns_hook cfg # os)"
    unfolding v6 v5 .
  moreover have "setup_dns_forward exec (chain_prefix cfg) (ic_dns_port cfg) st = st7"
    using port t(1) unfolding setup_dns_forward_def Let_def dns_chain_def [symmetric] st0_def [symmetric] t_def [symmetric]
    by (simp add: split_beta st7_def st6_def st5_def st4_def st3_def st2_def dns_rules_def uid0_rule_def dns_hook_def)
  ultimately show ?thesis by simp
qed

lemma drop_rule_target: "rule_ok krn fw tool t (quic_rule port @ [''-j'', ''DROP'']) = krn (quic_rule port @ [''-j'', ''DROP''])"
  if "port \<noteq> ''-j''"
  using that by (auto simp: rule_ok_def quic_rule_def)

lemma reject_rule_target: "rule_ok krn fw tool t (quic_rule port @ reject_udp) = krn (quic_rule port @ reject_udp)"
  if "port \<noteq> ''-j''"
  using that by (auto simp: rule_ok_def quic_rule_def reject_udp_def)

lemma block_quic_port_view:
  assumes doc: "documented exec view krn" and port: "port \<noteq> ''-j''"
    and drop: "krn (quic_rule port @ [''-j'', ''DROP''])"
    and fw: "vw view st (''iptables'', ''filter'', ''OUTPUT'') = Some rs"
    and free: "quic_rule port @ reject_udp \<notin> set rs" "quic_rule port @ [''-j'', ''DROP''] \<notin> set rs"
  shows "vw view (block_quic_port exec port st) =
     (vw view st)((''iptables'', ''filter'', ''OUTPUT'') \<mapsto> rs @ [quic_block krn port])"
proof -
  let ?K = "(''iptables'', ''filter'', ''OUTPUT'')" and ?d = "quic_rule port @ [''-j'', ''DROP'']"
    and ?r = "quic_rule port @ reject_udp"
  have ru: "is_rule ?d" "is_rule ?r" by (simp_all add: quic_rule_def)
  define t1 where "t1 = tested exec st (quic_args ''-C'' port reject_udp)"
  define t2 where "t2 = tested exec (snd t1) (quic_args ''-A'' port reject_udp)"
  define t3 where "t3 = tested exec (snd t2) (quic_args ''-C'' port [''-j'', ''DROP''])"
  define st4 where "st4 = quiet exec (snd t3) (quic_args ''-A'' port [''-j'', ''DROP''])"
  have b: "block_quic_port exec port st = (if fst t1 then snd t1 else if fst t2 then snd t2
      else if fst t3 then snd t3 else st4)"
    by (simp add: block_quic_port_def split_beta t1_def t2_def t3_def st4_def)
  have 1: "\<not> fst t1" "vw view (snd t1) = vw view st"
    using tested_view(4) [OF doc tools(1) ru(2), of st "''filter''" "''OUTPUT''"] fw free(1)
    by (simp_all add: t1_def quic_args_def ipt_def fw_check_def)
  have 2: "fst t2 = krn ?r" "vw view (snd t2) = (if krn ?r then (vw view st)(?K \<mapsto> rs @ [?r]) else vw view st)"
    using tested_view(1) [OF doc tools(1) ru(2), of "snd t1" "''filter''" "''OUTPUT''"] fw 1 reject_rule_target [OF port]
    by (simp_all add: t2_def quic_args_def ipt_def fw_append_def keep_def)
  show ?thesis
  proof (cases "krn ?r")
    case True
    then show ?thesis using b 1 2 by (simp add: quic_block_def)
  next
    case False
    have 3: "\<not> fst t3" "vw view (snd t3) = vw view st"
      using tested_view(4) [OF doc tools(1) ru(1), of "snd t2" "''filter''" "''OUTPUT''"] fw free(2) 2 False
      by (simp_all add: t3_def quic_args_def ipt_def fw_check_def)
    have "vw view st4 = (vw view st)(?K \<mapsto> rs @ [?d])"
      using quiet_view(1) [OF doc tools(1) ru(1), of "snd t3" "''filter''" "''OUTPUT''"] fw 3 drop drop_rule_target [OF port]
      by (simp add: st4_def quic_args_def ipt_def keep_append)
    then show ?thesis using b 1 2 3 False by (simp add: quic_block_def)
  qed
qed

lemma quic_rules_distinct:
  "quic_rule ''80'' @ x \<noteq> quic_rule ''443'' @ y" "quic_rule ''443'' @ x \<noteq> quic_rule ''80'' @ y"
  "quic_rule ''80'' \<noteq> quic_rule ''443''"
  by (simp_all add: quic_rule_def)

lemma quic_block_cases: "quic_block krn port \<in> {quic_rule port @ [''-j'', ''DROP''], quic_rule port @ reject_udp}"
  by (simp add: quic_block_def)

lemma block_quic_view:
  assumes doc: "documented exec view krn" and inst: "installable krn cfg ips"
    and fw: "vw view st (''iptables'', ''filter'', ''OUTPUT'') = Some rs" "set quic_rules \<inter> set rs = {}"
  shows "vw view (block_quic exec st) =
     (vw view st)((''iptables'', ''filter'', ''OUTPUT'') \<mapsto> rs @ [quic_block krn ''443'', quic_block krn ''80''])"
proof -
  let ?K = "(''iptables'', ''filter'', ''OUTPUT'')"
  have k: "krn (quic_rule ''443'' @ [''-j'', ''DROP''])" "krn (quic_rule ''80'' @ [''-j'', ''DROP''])"
    by (rule installable_needed [OF inst], simp only: needed_rules_def set_append list.set Un_iff insert_iff, blast)+
  have 1: "vw view (block_quic_port exec ''443'' st) = (vw view st)(?K \<mapsto> rs @ [quic_block krn ''443''])"
    by (rule block_quic_port_view [OF doc _ k(1) fw(1)]) (use fw(2) in \<open>simp_all add: quic_rules_def\<close>)
  have "vw view (block_quic_port exec ''80'' (block_quic_port exec ''443'' st)) =
      (vw view (block_quic_port exec ''443'' st))(?K \<mapsto> (rs @ [quic_block krn ''443'']) @ [quic_block krn ''80''])"
    by (rule block_quic_port_view [OF doc _ k(2)])
      (use fw(2) 1 quic_block_cases [of krn "''443''"] in \<open>auto simp: quic_rules_def quic_rules_distinct quic_block_def\<close>)
  then show ?thesis using 1 by (simp add: block_quic_def)
qed

text \<open>The IPv6 tables of \<open>base\<close>, possibly with this module's chain and hooks on top.\<close>

definition ours6 :: "fw \<Rightarrow> fw \<Rightarrow> bool" where
  "ours6 base fw =
     ((\<forall>c\<in>{''OUTPUT'', ''FORWARD''}. \<exists>hs. hs \<in> {[], [drop6_hook]} \<and>
         fw (''ip6tables'', ''filter'', c) = Some (hs @ the (base (''ip6tables'', ''filter'', c)))) \<and>
      (\<forall>rs. fw (''ip6tables'', ''filter'', drop6) = Some rs \<longrightarrow> (\<forall>r\<in>set rs. \<not> jumps r drop6)) \<and>
      (\<forall>key. fst key \<noteq> ''iptables'' \<longrightarrow> key \<notin> {(''ip6tables'', ''filter'', ''OUTPUT''),
          (''ip6tables'', ''filter'', ''FORWARD''), (''ip6tables'', ''filter'', drop6)} \<longrightarrow> fw key = base key))"

lemma drop6_names [simp]: "drop6 \<noteq> ''OUTPUT''" "drop6 \<noteq> ''FORWARD''" "''OUTPUT'' \<noteq> drop6" "''FORWARD'' \<noteq> drop6"
  by (simp_all add: drop6_def)

lemma rehook_view:
  assumes doc: "documented exec view krn" and krn: "krn drop6_hook"
    and fw: "vw view st (''ip6tables'', ''filter'', c) = Some (hs @ rs)" "hs \<in> {[], [drop6_hook]}" "drop6_hook \<notin> set rs"
      "vw view st (''ip6tables'', ''filter'', drop6) \<noteq> None" and c: "c \<noteq> drop6"
  shows "vw view (quiets exec (map ip6t [[''-t'', ''filter'', ''-D'', c, ''-j'', drop6],
       [''-t'', ''filter'', ''-I'', c, ''1'', ''-j'', drop6]]) st) =
     (vw view st)((''ip6tables'', ''filter'', c) \<mapsto> drop6_hook # rs)"
proof -
  let ?K = "(''ip6tables'', ''filter'', c)"
  define st1 where "st1 = quiet exec st (ip6t ([''-t'', ''filter'', ''-D'', c] @ drop6_hook))"
  have r: "is_rule drop6_hook" by (simp add: drop6_hook_def)
  have 1: "vw view st1 = (vw view st)(?K \<mapsto> rs)"
    using quiet_view(3) [OF doc tools(2) r, of st "''filter''" c] fw(1-3)
    by (auto simp: st1_def ip6t_def keep_delete remove1_idem)
  have "rule_ok krn (vw view st1) ''ip6tables'' ''filter'' drop6_hook"
    using krn fw(4) 1 c by (intro rule_ok_target) (auto simp: drop6_hook_def drop6_def)
  then have "vw view (quiet exec st1 (ip6t ([''-t'', ''filter'', ''-I'', c, ''1''] @ drop6_hook))) =
      (vw view st1)(?K \<mapsto> drop6_hook # rs)"
    using quiet_view(2) [OF doc tools(2) r, of st1 "''filter''" c] 1 by (simp add: ip6t_def keep_insert)
  then show ?thesis using 1 by (simp add: st1_def drop6_hook_def)
qed

lemma disable_ipv6_view:
  assumes doc: "documented exec view krn" and inst: "installable krn cfg ips"
    and base: "pristine cfg base" and o6: "ours6 base (vw view st)"
  shows "vw view (disable_ipv6 exec st) = (vw view st)(
     (''ip6tables'', ''filter'', drop6) \<mapsto> drop6_rules krn,
     (''ip6tables'', ''filter'', ''OUTPUT'') \<mapsto> drop6_hook # the (base (''ip6tables'', ''filter'', ''OUTPUT'')),
     (''ip6tables'', ''filter'', ''FORWARD'') \<mapsto> drop6_hook # the (base (''ip6tables'', ''filter'', ''FORWARD'')))"
proof -
  let ?D = "(''ip6tables'', ''filter'', drop6)" and ?O = "(''ip6tables'', ''filter'', ''OUTPUT'')"
    and ?F = "(''ip6tables'', ''filter'', ''FORWARD'')" and ?fw = "vw view st"
  define st0 where "st0 = sh_run exec disable_ipv6_script st"
  define t where "t = tested exec st0 (ip6t [''-t'', ''filter'', ''-L'', drop6, ''-n''])"
  define st1 where "st1 = (if fst t then snd t else quiet exec (snd t) (ip6t [''-t'', ''filter'', ''-N'', drop6]))"
  define st2 where "st2 = quiet exec st1 (ip6t [''-t'', ''filter'', ''-F'', drop6])"
  define st3 where "st3 = quiet exec st2 (ip6t [''-t'', ''filter'', ''-A'', drop6, ''-o'', ''lo'', ''-j'', ''RETURN''])"
  define t4 where "t4 = tested exec st3 (ip6t ([''-t'', ''filter'', ''-A'', drop6] @ reject6))"
  define st5 where "st5 = (if fst t4 then snd t4 else quiet exec (snd t4) (ip6t [''-t'', ''filter'', ''-A'', drop6, ''-j'', ''DROP'']))"
  define st6 where "st6 = quiets exec (map ip6t [[''-t'', ''filter'', ''-D'', ''OUTPUT'', ''-j'', drop6],
       [''-t'', ''filter'', ''-I'', ''OUTPUT'', ''1'', ''-j'', drop6]]) st5"
  have v0: "vw view st0 = ?fw" unfolding st0_def by (rule sh_run_view [OF doc])
  have t: "fst t = (?fw ?D \<noteq> None)" "vw view (snd t) = ?fw"
    using tested_view(10) [OF doc tools(2), of st0 "''filter''" drop6] v0 by (simp_all add: t_def ip6t_def fw_list_def keep_def)
  have v2: "vw view st2 = ?fw(?D \<mapsto> [])"
    using quiet_view(7) [OF doc tools(2), of "snd t" "''filter''" drop6] t
      quiet_view(8) [OF doc tools(2), of st1 "''filter''" drop6]
    by (auto simp: st1_def st2_def ip6t_def keep_new keep_flush)
  have v3: "vw view st3 = ?fw(?D \<mapsto> [[''-o'', ''lo'', ''-j'', ''RETURN'']])"
    using quiet_view(1) [OF doc tools(2), of "[''-o'', ''lo'', ''-j'', ''RETURN'']" st2 "''filter''" drop6] v2
      needed_ok(7) [OF inst] by (simp add: st3_def ip6t_def keep_append)
  have r6: "is_rule reject6" "rule_ok krn fw tool tb reject6 = krn reject6" for fw tool tb
    by (auto simp: reject6_def rule_ok_def)
  have t4: "fst t4 = krn reject6" "vw view (snd t4) =
      (if krn reject6 then ?fw(?D \<mapsto> [[''-o'', ''lo'', ''-j'', ''RETURN''], reject6]) else vw view st3)"
    using tested_view(1) [OF doc tools(2) r6(1), of st3 "''filter''" drop6] v3 r6(2)
    by (simp_all add: t4_def ip6t_def fw_append_def keep_def)
  have v5: "vw view st5 = ?fw(?D \<mapsto> drop6_rules krn)"
    using quiet_view(1) [OF doc tools(2), of "[''-j'', ''DROP'']" "snd t4" "''filter''" drop6] t4 v3 needed_ok(8) [OF inst]
    by (cases "krn reject6") (simp_all add: st5_def ip6t_def keep_append drop6_rules_def)
  have k: "krn drop6_hook"
    by (rule installable_needed [OF inst], simp only: needed_rules_def set_append list.set Un_iff insert_iff, blast)
  obtain hs where o: "vw view st5 ?O = Some (hs @ the (base ?O))" "hs \<in> {[], [drop6_hook]}"
    using o6 v5 unfolding ours6_def by auto
  obtain gs where f: "vw view st5 ?F = Some (gs @ the (base ?F))" "gs \<in> {[], [drop6_hook]}"
    using o6 v5 unfolding ours6_def by auto
  have nb: "drop6_hook \<notin> set (the (base ?O))" "drop6_hook \<notin> set (the (base ?F))"
    using base by (auto simp: pristine_def drop6_hook_def)
  have v6: "vw view st6 = (vw view st5)(?O \<mapsto> drop6_hook # the (base ?O))"
    unfolding st6_def by (rule rehook_view [OF doc k o nb(1)]) (use v5 in simp_all)
  have f6: "vw view st6 ?F = Some (gs @ the (base ?F))" using f(1) v6 by simp
  have "vw view (quiets exec (map ip6t [[''-t'', ''filter'', ''-D'', ''FORWARD'', ''-j'', drop6],
       [''-t'', ''filter'', ''-I'', ''FORWARD'', ''1'', ''-j'', drop6]]) st6) =
      (vw view st6)(?F \<mapsto> drop6_hook # the (base ?F))"
    by (rule rehook_view [OF doc k f6 f(2) nb(2)]) (use v5 v6 in simp_all)
  moreover have "disable_ipv6 exec st = quiets exec (map ip6t [[''-t'', ''filter'', ''-D'', ''FORWARD'', ''-j'', drop6],
       [''-t'', ''filter'', ''-I'', ''FORWARD'', ''1'', ''-j'', drop6]]) st6"
    unfolding st6_def st5_def t4_def st3_def st2_def st1_def t_def st0_def
    by (simp add: disable_ipv6_def Let_def split_beta reject6_def)
  ultimately show ?thesis unfolding v6 v5 by simp
qed

lemma kick_view [simp]: "vw view (kick_revalidation st) = vw view st"
  and reset_view [simp]: "vw view (reset_revalidation st) = vw view st"
  by (simp_all add: kick_revalidation_def reset_revalidation_def vw_def)

lemma disable_portal_view: "documented exec view krn \<Longrightarrow> vw view (disable_captive_portal exec st) = vw view st"
  by (simp add: disable_captive_portal_def sh_run_view)

lemma tune_tcp_view: "documented exec view krn \<Longrightarrow> vw view (tune_tcp exec st) = vw view st"
  by (simp add: tune_tcp_def sh_run_view)

lemma enable_ipv6_view:
  assumes doc: "documented exec view krn" and base: "pristine cfg base" and o6: "ours6 base (vw view st)"
  shows "vw view (enable_ipv6 exec st) = (vw view st)(
     (''ip6tables'', ''filter'', ''OUTPUT'') := base (''ip6tables'', ''filter'', ''OUTPUT''),
     (''ip6tables'', ''filter'', ''FORWARD'') := base (''ip6tables'', ''filter'', ''FORWARD''),
     (''ip6tables'', ''filter'', drop6) := None)"
proof -
  let ?D = "(''ip6tables'', ''filter'', drop6)" and ?O = "(''ip6tables'', ''filter'', ''OUTPUT'')"
    and ?F = "(''ip6tables'', ''filter'', ''FORWARD'')" and ?fw = "vw view st"
  define st0 where "st0 = sh_run exec enable_ipv6_script st"
  define st1 where "st1 = quiet exec st0 (ip6t ([''-t'', ''filter'', ''-D'', ''OUTPUT''] @ drop6_hook))"
  define st2 where "st2 = quiet exec st1 (ip6t ([''-t'', ''filter'', ''-D'', ''FORWARD''] @ drop6_hook))"
  define st3 where "st3 = quiet exec st2 (ip6t [''-t'', ''filter'', ''-F'', drop6])"
  define st4 where "st4 = quiet exec st3 (ip6t [''-t'', ''filter'', ''-X'', drop6])"
  have r: "is_rule drop6_hook" by (simp add: drop6_hook_def)
  have v0: "vw view st0 = ?fw" unfolding st0_def by (rule sh_run_view [OF doc])
  obtain os where o: "base ?O = Some os" "drop6_hook \<notin> set os" "?fw ?O = Some os \<or> ?fw ?O = Some (drop6_hook # os)"
    using base o6 by (auto simp: pristine_def ours6_def drop6_hook_def)
  obtain fs where f: "base ?F = Some fs" "drop6_hook \<notin> set fs" "?fw ?F = Some fs \<or> ?fw ?F = Some (drop6_hook # fs)"
    using base o6 by (auto simp: pristine_def ours6_def drop6_hook_def)
  have mo: "map_option (remove1 drop6_hook) (?fw ?O) = Some os" using o by (auto simp: remove1_idem)
  have "vw view st1 = ?fw(?O := map_option (remove1 drop6_hook) (?fw ?O))"
    using quiet_view(3) [OF doc tools(2) r, of st0 "''filter''" "''OUTPUT''"] v0
    by (simp add: st1_def ip6t_def keep_delete)
  then have v1: "vw view st1 = ?fw(?O \<mapsto> os)" unfolding mo .
  have mf: "map_option (remove1 drop6_hook) (?fw ?F) = Some fs" using f by (auto simp: remove1_idem)
  have "vw view st2 = ?fw(?O \<mapsto> os, ?F := map_option (remove1 drop6_hook) (?fw ?F))"
    using quiet_view(3) [OF doc tools(2) r, of st1 "''filter''" "''FORWARD''"] v1
    by (simp add: st2_def ip6t_def keep_delete)
  then have v2: "vw view st2 = ?fw(?O \<mapsto> os, ?F \<mapsto> fs)" unfolding mf .
  have v3: "vw view st3 = ?fw(?O \<mapsto> os, ?F \<mapsto> fs, ?D := map_option (\<lambda>_. []) (?fw ?D))"
    using quiet_view(8) [OF doc tools(2), of st2 "''filter''" drop6] v2 by (simp add: st3_def ip6t_def keep_flush)
  have nj: "\<not> jumps r drop6" if "vw view st3 (''ip6tables'', ''filter'', d) = Some rs" "r \<in> set rs" for d rs r
  proof (cases "d = drop6")
    case True
    then show ?thesis using that v3 by auto
  next
    case False
    have "base (''ip6tables'', ''filter'', d) = Some rs"
      using that(1) v3 o(1) f(1) False o6 by (auto simp: ours6_def split: if_splits)
    then show ?thesis using base that(2) unfolding pristine_def by blast
  qed
  have "vw view st4 = ?fw(?O \<mapsto> os, ?F \<mapsto> fs, ?D := None)"
  proof (cases "?fw ?D")
    case None
    have "keep (fw_remove ''ip6tables'' ''filter'' drop6 (vw view st3)) (vw view st3) = vw view st3"
      using None by (simp add: v3 fw_remove_def)
    then show ?thesis using quiet_view(9) [OF doc tools(2), of st3 "''filter''" drop6] v3 None
      by (simp add: st4_def ip6t_def)
  next
    case (Some rs)
    have "fw_remove ''ip6tables'' ''filter'' drop6 (vw view st3) = Some ((vw view st3)(?D := None))"
      using nj Some v3 unfolding fw_remove_def by (simp add: fun_upd_same)
    then show ?thesis using quiet_view(9) [OF doc tools(2), of st3 "''filter''" drop6] v3
      by (simp add: st4_def ip6t_def)
  qed
  moreover have "enable_ipv6 exec st = st4"
    by (simp add: enable_ipv6_def st4_def st3_def st2_def st1_def st0_def drop6_hook_def)
  ultimately show ?thesis using o(1) f(1) by simp
qed

section \<open>Apply and Cleanup\<close>

lemma del_for_append [simp]: "del_for c (xs @ ys) = del_for c xs @ del_for c ys"
  by (simp add: del_for_def)

lemma distinct_mset_subset: "distinct xs \<Longrightarrow> set xs \<subseteq> set ys \<Longrightarrow> mset xs \<subseteq># mset ys"
proof (rule mset_subset_eqI)
  fix a
  assume "distinct xs" "set xs \<subseteq> set ys"
  then show "count (mset xs) a \<le> count (mset ys) a"
    by (cases "a \<in> set xs") (auto simp: distinct_count_atmost_1 Suc_le_eq count_mset_0_iff)
qed

lemma own_hooks_out: "mset (out_hooks cfg) \<subseteq># mset (own_hooks cfg ''OUTPUT'')"
proof (rule distinct_mset_subset)
  have "dns_hook cfg \<noteq> tcp_hook cfg" by (simp add: dns_hook_def tcp_hook_def)
  then show "distinct (out_hooks cfg)" by (simp add: out_hooks_def)
  have "(''OUTPUT'', dns_hook cfg) \<in> set (hook_specs (hotspot_ifaces cfg) (dns_chain cfg))"
    "(''OUTPUT'', tcp_hook cfg) \<in> set (hook_specs (hotspot_ifaces cfg) (out_chain cfg))"
    by (simp_all add: hook_specs_def dns_hook_def tcp_hook_def)
  then have "dns_hook cfg \<in> set (own_hooks cfg ''OUTPUT'')" "tcp_hook cfg \<in> set (own_hooks cfg ''OUTPUT'')"
    using chains_legacy(1,3) [of cfg] unfolding own_hooks_def del_for_def legacy_def by force+
  then show "set (out_hooks cfg) \<subseteq> set (own_hooks cfg ''OUTPUT'')" by (auto simp: out_hooks_def)
qed

lemma own_hooks_pre: "mset (rev (iface_hooks cfg)) \<subseteq># mset (own_hooks cfg ''PREROUTING'')"
proof -
  have i: "mset (map (\<lambda>i. [''-i'', i, ''-p'', ''tcp'', ''-j'', ch]) (filter (\<lambda>i. trim_space i \<noteq> []) ifs)) \<subseteq>#
      mset (del_for ''PREROUTING'' (hook_specs ifs ch))" for ifs ch
  proof -
    have "mset (map (\<lambda>i. [''-i'', i, ''-p'', ''tcp'', ''-j'', ch]) (filter (\<lambda>i. trim_space i \<noteq> []) ifs)) \<subseteq>#
      mset (del_for ''PREROUTING'' (concat (map (\<lambda>i. if trim_space i = [] then [] else
         [(''PREROUTING'', [''-i'', i, ''-p'', ''tcp'', ''-j'', ch]), (''PREROUTING'', [''-i'', i, ''-j'', ch])]) ifs)))"
    proof (induction ifs)
      case (Cons i ifs)
      then show ?case by (auto simp: del_for_def intro: subset_mset.order_trans)
    qed simp
    then show ?thesis
      unfolding hook_specs_def del_for_append mset_append by (rule subset_mset.order_trans) simp
  qed
  have "mset (del_for ''PREROUTING'' (hook_specs (hotspot_ifaces cfg) (pre_chain cfg))) \<subseteq># mset (own_hooks cfg ''PREROUTING'')"
    unfolding own_hooks_def legacy_chains_def pre_chain_def by simp
  then show ?thesis
    using i [of "pre_chain cfg" "hotspot_ifaces cfg"] by (auto simp: iface_hooks_def intro: subset_mset.order_trans)
qed

lemma pristine_ours: "pristine cfg base \<Longrightarrow> ours cfg base base \<and> ours6 base base"
  unfolding pristine_def ours_def ours6_def by (auto simp: unreferenced_def)

lemma count_quic: "count_list [quic_block krn ''443'', quic_block krn ''80''] r \<le> 4"
  by simp

lemma installed_simps:
  "installed krn cfg ips base (''iptables'', x) = installed4 krn cfg ips base (''iptables'', x)"
  by (simp add: installed_def)

lemma builtin_not_legacy: "r \<in> set rls \<Longrightarrow> (\<forall>r\<in>set rls. \<forall>ch. jumps r ch \<longrightarrow> ch \<in> set builtin_targets) \<Longrightarrow> \<forall>ch\<in>legacy cfg. \<not> jumps r ch"
  using chains_not_builtin(4) by blast

lemma dns_rules_targets: "\<forall>r\<in>set (dns_rules cfg). \<forall>ch. jumps r ch \<longrightarrow> ch \<in> set builtin_targets"
  by (auto simp: dns_rules_def uid0_rule_def)

lemma installed_ours:
  assumes base: "pristine cfg base" and inst: "installable krn cfg ips"
  shows "ours cfg base (installed krn cfg ips base)" "ours6 base (installed krn cfg ips base)"
proof -
  have q: "set [quic_block krn ''443'', quic_block krn ''80''] \<subseteq> set quic_rules"
    by (auto simp: quic_block_def quic_rules_def)
  have l: "\<forall>r\<in>set rs. \<forall>ch\<in>legacy cfg. \<not> jumps r ch"
    if "ch \<in> legacy cfg" "installed4 krn cfg ips base (''iptables'', ''nat'', ch) = Some rs" for ch rs
  proof -
    have n: "base (''iptables'', ''nat'', ch) = None" "ch \<noteq> ''OUTPUT''" "ch \<noteq> ''PREROUTING''"
      using base that(1) chains_not_builtin(1,2) [OF that(1)] unfolding pristine_def by blast+
    have "rs \<in> {chain_rules cfg ips True, chain_rules cfg ips False, dns_rules cfg}"
      using that(2) n by (auto simp: installed4_def split: if_splits)
    then have "\<forall>r\<in>set rs. \<forall>ch. jumps r ch \<longrightarrow> ch \<in> set builtin_targets"
      using chain_rules_ok(3) [OF inst] dns_rules_targets by blast
    then show ?thesis using builtin_not_legacy by blast
  qed
  show "ours cfg base (installed krn cfg ips base)"
    unfolding ours_def installed_simps
  proof (intro conjI allI ballI impI)
    show "\<exists>hs. installed4 krn cfg ips base (''iptables'', ''nat'', ''OUTPUT'') =
        Some (hs @ the (base (''iptables'', ''nat'', ''OUTPUT''))) \<and> mset hs \<subseteq># mset (own_hooks cfg ''OUTPUT'')"
      using own_hooks_out by (auto simp: installed4_def)
    show "\<exists>hs. installed4 krn cfg ips base (''iptables'', ''nat'', ''PREROUTING'') =
        Some (hs @ the (base (''iptables'', ''nat'', ''PREROUTING''))) \<and> mset hs \<subseteq># mset (own_hooks cfg ''PREROUTING'')"
      using own_hooks_pre [of cfg] by (intro exI [of _ "rev (iface_hooks cfg)"]) (simp add: installed4_def)
    show "\<exists>hs. installed4 krn cfg ips base (''iptables'', ''filter'', ''FORWARD'') =
        Some (hs @ the (base (''iptables'', ''filter'', ''FORWARD''))) \<and> hs \<in> {[], [accept_all]}"
      by (simp add: installed4_def forward_rules_def)
    show "\<exists>qs. installed4 krn cfg ips base (''iptables'', ''filter'', ''OUTPUT'') =
        Some (the (base (''iptables'', ''filter'', ''OUTPUT'')) @ qs) \<and> set qs \<subseteq> set quic_rules \<and> (\<forall>r. count_list qs r \<le> 4)"
      using q count_quic by (auto simp: installed4_def)
  next
    fix ch rs r ch'
    assume "ch \<in> legacy cfg" "installed4 krn cfg ips base (''iptables'', ''nat'', ch) = Some rs" "r \<in> set rs" "ch' \<in> legacy cfg"
    then show "\<not> jumps r ch'" using l by blast
  next
    fix key :: "string \<times> string \<times> string"
    assume k: "fst key = ''iptables''" "key \<notin> {(''iptables'', ''nat'', ''OUTPUT''), (''iptables'', ''nat'', ''PREROUTING''),
          (''iptables'', ''filter'', ''FORWARD''), (''iptables'', ''filter'', ''OUTPUT'')}"
      "\<not> (fst (snd key) = ''nat'' \<and> snd (snd key) \<in> legacy cfg)"
    then show "installed krn cfg ips base key = base key"
      by (cases key) (auto simp: installed_def installed4_def)
  qed
  show "ours6 base (installed krn cfg ips base)"
    unfolding ours6_def installed_def
    by (auto simp: installed4_def drop6_rules_def reject6_def drop6_hook_def) (auto simp: drop6_def)
qed

definition keys6 :: "(string \<times> string \<times> string) set" where
  "keys6 = {(''ip6tables'', ''filter'', ''OUTPUT''), (''ip6tables'', ''filter'', ''FORWARD''), (''ip6tables'', ''filter'', drop6)}"

lemma over_ours6: "ours6 base fw \<Longrightarrow> key \<notin> keys6 \<Longrightarrow> over base fw key = base key"
  unfolding ours6_def keys6_def over_def by presburger

lemma upd6_eq:
  assumes "\<And>key. key \<notin> keys6 \<Longrightarrow> f key = g key"
  shows "f((''ip6tables'', ''filter'', drop6) := x, (''ip6tables'', ''filter'', ''OUTPUT'') := y,
       (''ip6tables'', ''filter'', ''FORWARD'') := z) =
     g((''ip6tables'', ''filter'', drop6) := x, (''ip6tables'', ''filter'', ''OUTPUT'') := y,
       (''ip6tables'', ''filter'', ''FORWARD'') := z)"
  using assms by (intro ext) (simp add: keys6_def)

lemma apply_view:
  assumes doc: "documented exec view krn" and inst: "installable krn cfg ips" and base: "pristine cfg base"
    and own: "ours cfg base (vw view st)" "ours6 base (vw view st)"
  shows "fst (apply_rules exec cfg ips st) = None \<and> vw view (snd (apply_rules exec cfg ips st)) = installed krn cfg ips base"
proof -
  let ?fw = "over base (vw view st)"
  let ?o = "(''iptables'', ''nat'', out_chain cfg)" and ?p = "(''iptables'', ''nat'', pre_chain cfg)"
    and ?d = "(''iptables'', ''nat'', dns_chain cfg)"
  let ?O = "(''iptables'', ''nat'', ''OUTPUT'')" and ?P = "(''iptables'', ''nat'', ''PREROUTING'')"
    and ?F = "(''iptables'', ''filter'', ''FORWARD'')" and ?Q = "(''iptables'', ''filter'', ''OUTPUT'')"
  define st1 where "st1 = cleanup_rules exec cfg st"
  define c where "c = foldl (run_cmd exec) ([], st1) (core_cmds cfg ips)"
  define st3 where "st3 = (if ic_hotspot cfg then quiets exec [[''sysctl'', ''-w'', ''net.ipv4.ip_forward=1''],
       ipt [''-I'', ''FORWARD'', ''-j'', ''ACCEPT'']] (snd c) else snd c)"
  define st4 where "st4 = setup_dns_forward exec (chain_prefix cfg) (ic_dns_port cfg) st3"
  define st5 where "st5 = block_quic exec st4"
  define st6 where "st6 = disable_ipv6 exec st5"
  have v1: "vw view st1 = ?fw" unfolding st1_def by (rule cleanup_rules_view [OF doc base own(1)])
  have b: "?fw ?o = None" "?fw ?p = None" "?fw ?d = None"
    using base chains_legacy [of cfg] unfolding pristine_def over_def by simp_all
  obtain os ps where nat: "?fw ?O = Some os" "?fw ?P = Some ps" "os = the (base ?O)" "ps = the (base ?P)"
      "set (own_hooks cfg ''OUTPUT'') \<inter> set os = {}"
    using base unfolding pristine_def over_def by auto
  obtain fs qs where fil: "?fw ?F = Some fs" "?fw ?Q = Some qs" "fs = the (base ?F)" "qs = the (base ?Q)"
      "set quic_rules \<inter> set qs = {}"
    using base unfolding pristine_def over_def by auto
  let ?fwc = "?fw(?o \<mapsto> chain_rules cfg ips True, ?p \<mapsto> chain_rules cfg ips False,
      ?O \<mapsto> tcp_hook cfg # os, ?P \<mapsto> rev (iface_hooks cfg) @ ps)"
  have c: "fst c = []" "vw view (snd c) = ?fwc"
    using core_cmds_run [OF doc inst b(1,2) nat(1,2)] v1 unfolding core_run_def c_def by blast+
  let ?fw3 = "?fwc(?F \<mapsto> forward_rules cfg @ fs)"
  have F: "?fwc ?F = Some fs" using fil(1) by simp
  have v3: "vw view st3 = ?fw3"
  proof (cases "ic_hotspot cfg")
    case True
    define s where "s = quiet exec (snd c) [''sysctl'', ''-w'', ''net.ipv4.ip_forward=1'']"
    have s: "vw view s = ?fwc" unfolding s_def using documented_other [OF doc, of "''sysctl''"] c(2) by (simp add: tools_def)
    have a: "is_rule accept_all" "rule_ok krn (vw view s) ''iptables'' ''filter'' accept_all"
      using needed_ok(6) [OF inst] by (simp_all add: accept_all_def)
    have "vw view (quiet exec s (ipt ([''-I'', ''FORWARD''] @ accept_all))) = (vw view s)(?F \<mapsto> accept_all # fs)"
      using quiet_view(5) [OF doc tools(1) a(1), of s "''FORWARD''"] keep_insert [OF _ a(2), of "''FORWARD''" fs] s F
      by (simp add: ipt_def)
    then show ?thesis using True s by (simp add: st3_def s_def forward_rules_def accept_all_def)
  next
    case False
    have "?fw3 = ?fwc" using F False by (simp add: fun_upd_idem forward_rules_def)
    then show ?thesis using False c(2) by (simp add: st3_def)
  qed
  let ?fw4 = "?fw3(?d := (if 0 < ic_dns_port cfg then Some (dns_rules cfg) else None), ?O \<mapsto> out_hooks cfg @ os)"
  have v4: "vw view st4 = ?fw4"
  proof (cases "0 < ic_dns_port cfg")
    case True
    have "dns_hook cfg \<in> set (own_hooks cfg ''OUTPUT'')"
      using own_hooks_out [of cfg] True by (auto simp: out_hooks_def dest: mset_subset_eqD)
    then have "dns_hook cfg \<notin> set (tcp_hook cfg # os)" using nat(5) by (auto simp: dns_hook_def tcp_hook_def)
    then show ?thesis
      unfolding st4_def using setup_dns_view [OF doc inst True, of st3 "tcp_hook cfg # os"] v3 b(3) True
      by (simp add: out_hooks_def fun_upd_twist)
  next
    case False
    have "?fw4 = ?fw3" using False b(3) by (auto simp: fun_eq_iff out_hooks_def)
    then show ?thesis using False v3 by (simp add: st4_def setup_dns_forward_def)
  qed
  have v5: "vw view st5 = ?fw4(?Q \<mapsto> qs @ [quic_block krn ''443'', quic_block krn ''80''])"
    unfolding st5_def using block_quic_view [OF doc inst, of st4 qs] v4 fil(2,5) by simp
  have o6: "ours6 base (vw view st5)"
    using own(2) unfolding v5 ours6_def over_def by simp
  have v6: "vw view st6 = installed krn cfg ips base"
  proof -
    have "(?fw4(?Q \<mapsto> qs @ [quic_block krn ''443'', quic_block krn ''80''])) key = installed4 krn cfg ips base key"
      if "key \<notin> keys6" for key
      using over_ours6 [OF own(2) that] unfolding installed4_def nat(3,4) fil(3,4) by (simp add: fun_upd_apply)
    then show ?thesis
      unfolding st6_def disable_ipv6_view [OF doc inst base o6] v5 installed_def by (intro upd6_eq)
  qed
  have "apply_rules exec cfg ips st = (None, disable_captive_portal exec (tune_tcp exec st6))"
    using c(1) unfolding st6_def st5_def st4_def st3_def c_def st1_def
    by (simp add: apply_rules_def Let_def split_beta)
  then show ?thesis using v6 by (simp add: disable_portal_view [OF doc] tune_tcp_view [OF doc])
qed

lemma cleanup_view:
  assumes doc: "documented exec view krn" and base: "pristine cfg base"
    and own: "ours cfg base (vw view st)" "ours6 base (vw view st)"
  shows "vw view (cleanup exec cfg st) = base"
proof -
  let ?st = "cleanup_rules exec cfg st"
  have 1: "vw view ?st = over base (vw view st)" by (rule cleanup_rules_view [OF doc base own(1)])
  have 6: "ours6 base (vw view ?st)" using own(2) unfolding 1 ours6_def over_def by simp
  have "base (''ip6tables'', ''filter'', drop6) = None" using base by (simp add: pristine_def)
  then have "vw view (enable_ipv6 exec ?st) = base"
    unfolding enable_ipv6_view [OF doc base 6] 1
    using over_ours6 [OF own(2)] by (intro ext) (simp add: keys6_def)
  then show ?thesis by (simp add: cleanup_def restore_captive_portal_def sh_run_view [OF doc])
qed

text \<open>C5: where \<open>iptables\<close> behaves as documented, the kernel can install the rules this
  configuration needs, and the firewall has nothing of this module in it and no bare \<open>-j ACCEPT\<close> in FORWARD,
  \<open>Apply\<close> succeeds and changes exactly this: the two redirect chains and, with a DNS port, the \<open>_DNS\<close> chain are
  created; the nat chain OUTPUT starts with the DNS hook and the TCP hook; the filter chain OUTPUT ends with the
  QUIC rules (\<open>REJECT\<close>, or \<open>DROP\<close> where the kernel cannot reject); with hotspot sharing the nat chain
  PREROUTING starts with one hook per interface and the filter chain FORWARD with \<open>-j ACCEPT\<close>; the IPv6 chain is
  created and hooked at the head of the IPv6 chains OUTPUT and FORWARD.
  All other chains are as before.\<close>

theorem apply_installs_rules:
  assumes "documented exec view krn" "installable krn cfg ips" "pristine cfg (vw view st)"
  shows "fst (apply_rules exec cfg ips st) = None \<and>
     vw view (snd (apply_rules exec cfg ips st)) = installed krn cfg ips (vw view st)"
  using apply_view [OF assms(1-3)] pristine_ours [OF assms(3)] by blast

text \<open>C7: running \<open>Apply\<close> again (after a crash, a restart, or with other bypass
  addresses but the same ports, prefix and hotspot settings) neither stacks rules nor keeps stale ones: under the
  conditions of the first \<open>Apply\<close> the result is the one a single \<open>Apply\<close> with the new addresses has.\<close>

theorem reapply_replaces_rules:
  assumes "documented exec view krn" "installable krn cfg ips" "installable krn cfg ips'" "pristine cfg (vw view st)"
  shows "fst (apply_rules exec cfg ips' (snd (apply_rules exec cfg ips st))) = None \<and>
     vw view (snd (apply_rules exec cfg ips' (snd (apply_rules exec cfg ips st)))) = installed krn cfg ips' (vw view st)"
proof -
  let ?st = "snd (apply_rules exec cfg ips st)"
  have v: "vw view ?st = installed krn cfg ips (vw view st)"
    using apply_view [OF assms(1,2,4)] pristine_ours [OF assms(4)] by blast
  show ?thesis
    by (rule apply_view [OF assms(1,3,4)]) (simp_all only: v installed_ours [OF assms(4,2)])
qed

text \<open>C6: \<open>Cleanup\<close> after an \<open>Apply\<close> with the same configuration gives back the firewall
  of before \<open>Apply\<close>, chain by chain and rule by rule, in the IPv4 and the IPv6 tables, provided that \<open>iptables\<close>
  behaves as documented, that the kernel can install the rules \<open>Apply\<close> needs (so that it succeeds), and
  that the firewall of before had nothing of this module in it and no bare \<open>-j ACCEPT\<close> rule of another owner in
  filter FORWARD: \<open>Cleanup\<close> deletes every such rule.\<close>

theorem cleanup_restores_firewall:
  assumes "documented exec view krn" "installable krn cfg ips" "pristine cfg (vw view st)"
  shows "vw view (cleanup exec cfg (snd (apply_rules exec cfg ips st))) = vw view st"
proof -
  have "vw view (snd (apply_rules exec cfg ips st)) = installed krn cfg ips (vw view st)"
    using apply_view [OF assms(1,2,3)] pristine_ours [OF assms(3)] by blast
  then show ?thesis
    using installed_ours [OF assms(3,2)] by (intro cleanup_view [OF assms(1,3)]) simp_all
qed

section \<open>A device the hypotheses hold of\<close>

definition sim_out :: "(string list \<Rightarrow> bool) \<Rightarrow> string \<Rightarrow> string list \<Rightarrow> fw \<Rightarrow> fw option" where
  "sim_out krn tool args fw =
     (if take 1 args = [''-t''] then
        (case tl args of t # op # c # r \<Rightarrow>
           if op = ''-A'' then fw_append krn tool t c r fw
           else if op = ''-I'' then fw_insert krn tool t c (tl r) fw
           else if op = ''-D'' then fw_delete tool t c r fw
           else if op = ''-C'' then fw_check tool t c r fw
           else if op = ''-N'' then fw_new tool t c fw
           else if op = ''-F'' then fw_flush tool t c fw
           else if op = ''-X'' then fw_remove tool t c fw
           else fw_list tool t c fw
         | _ \<Rightarrow> None)
      else (case args of op # c # r \<Rightarrow>
           if op = ''-I'' then fw_insert krn tool ''filter'' c r fw else fw_delete tool ''filter'' c r fw
         | _ \<Rightarrow> None))"

definition sim_exec :: "(string list \<Rightarrow> bool) \<Rightarrow> fw exec" where
  "sim_exec krn argv fw =
     (if hd argv \<in> tools then
        (case sim_out krn (hd argv) (drop 3 argv) fw of
           Some fw' \<Rightarrow> ((None, []), fw') | None \<Rightarrow> ((Some ''exit status 1'', []), fw))
      else ((None, []), fw))"

lemma sim_agrees: "tool \<in> tools \<Longrightarrow> sim_out krn tool args fw = out \<Longrightarrow>
     agrees id fw (sim_exec krn (tool # a # b # args) fw) out"
  by (auto simp: agrees_def sim_exec_def split: option.splits)

lemma documented_sim: "documented (sim_exec krn) id krn"
proof -
  have "id (snd (sim_exec krn (prog # args) k)) = k" if "prog \<notin> tools" for prog args k
    using that by (simp add: sim_exec_def)
  then show ?thesis
    unfolding documented_def tools_def [symmetric]
    by (intro conjI allI ballI impI) (simp_all add: sim_agrees sim_out_def)
qed

definition bare_fw :: fw where
  "bare_fw = (\<lambda>key. if key \<in> {(''iptables'', ''nat'', ''OUTPUT''), (''iptables'', ''nat'', ''PREROUTING''),
     (''iptables'', ''filter'', ''FORWARD''), (''iptables'', ''filter'', ''OUTPUT''),
     (''ip6tables'', ''filter'', ''OUTPUT''), (''ip6tables'', ''filter'', ''FORWARD'')} then Some [] else None)"

definition sample_ipt :: ipt_config where
  "sample_ipt = \<lparr>ic_prefix = [], ic_tcp_port = 10810, ic_api_port = 9190, ic_socks_port = 1080,
     ic_dns_port = 5353, ic_hotspot = True, ic_ifaces = []\<rparr>"

definition bare_state :: "fw nstate" where
  "bare_state = \<lparr>ns_kern = bare_fw, ns_reval = False, ns_kicks = 0\<rparr>"

text \<open>A kernel without \<open>ipt_REJECT\<close>.\<close>

definition no_reject :: "string list \<Rightarrow> bool" where
  "no_reject r = (''REJECT'' \<notin> set r)"

lemma sample_pristine: "pristine cfg (vw id bare_state)"
proof -
  have "bare_fw (''iptables'', ''nat'', ch) = None" if "ch \<in> legacy cfg" for ch cfg
    using chains_not_builtin(1,2) [OF that] by (simp add: bare_fw_def)
  then show ?thesis
    by (auto simp: pristine_def vw_def bare_state_def unreferenced_def)
      (auto simp: bare_fw_def drop6_def split: if_splits)
qed

lemma sample_installable: "trim_space ip = ip \<Longrightarrow> ip \<noteq> ''-j'' \<Longrightarrow> ip \<noteq> ''REJECT'' \<Longrightarrow> installable no_reject sample_ipt [ip]"
proof -
  assume ip: "trim_space ip = ip" "ip \<noteq> ''-j''" "ip \<noteq> ''REJECT''"
  have d: "itoa p \<noteq> ''REJECT''" "''REJECT'' \<noteq> itoa p" if "0 < p" for p
  proof -
    show "itoa p \<noteq> ''REJECT''" using that digit_hd_nat_dec [of "nat p"] by (auto simp: itoa_def is_digit_def)
    then show "''REJECT'' \<noteq> itoa p" by (rule not_sym)
  qed
  have r: "no_reject r" if "r \<in> set (chain_rules sample_ipt [ip] False)" for r
    using that by (cases rule: chain_rules_cases) (use ip d in \<open>auto simp: no_reject_def private_cidrs_def\<close>)
  have c: "chain_prefix sample_ipt = ''SSHC''" by (simp add: chain_prefix_def sample_ipt_def)
  have h: "ic_hotspot sample_ipt" "hotspot_ifaces sample_ipt = default_ifaces"
    "pre_chain sample_ipt = ''SSHC_PREROUTING''"
    by (simp_all add: hotspot_ifaces_def pre_chain_def c) (simp_all add: sample_ipt_def)
  have i: "no_reject r" if m: "r \<in> set (iface_hooks sample_ipt)" for r
  proof -
    obtain i where "i \<in> set default_ifaces" "r = [''-i'', i, ''-p'', ''tcp'', ''-j'', ''SSHC_PREROUTING'']"
      using m h by (auto simp: iface_hooks_def)
    then show ?thesis by (auto simp: default_ifaces_def no_reject_def)
  qed
  have "list_all no_reject (needed_rules sample_ipt [ip])"
    using r i unfolding needed_rules_def chain_rules_True list_all_append
    by (auto simp: list_all_iff)
      (auto simp: no_reject_def dns_rules_def uid0_rule_def dns_hook_def tcp_hook_def accept_all_def drop6_hook_def
        drop6_def quic_rule_def out_chain_def dns_chain_def c)
  then show ?thesis using ip by (simp add: installable_def sample_ipt_def)
qed

lemma sample_facts:
  "documented (sim_exec no_reject) id no_reject" "installable no_reject sample_ipt [''203.0.113.7'']"
  "installable no_reject sample_ipt [''203.0.113.9'']" "pristine sample_ipt (vw id bare_state)"
proof -
  have t: "trim_space ''203.0.113.7'' = ''203.0.113.7''" "trim_space ''203.0.113.9'' = ''203.0.113.9''"
    by (simp_all add: trim_space_id is_space_def)
  show "documented (sim_exec no_reject) id no_reject" by (rule documented_sim)
  show "installable no_reject sample_ipt [''203.0.113.7'']" by (rule sample_installable [OF t(1)]) simp_all
  show "installable no_reject sample_ipt [''203.0.113.9'']" by (rule sample_installable [OF t(2)]) simp_all
  show "pristine sample_ipt (vw id bare_state)" by (rule sample_pristine)
qed

theorem apply_installs_rules_witness:
  "vw id (snd (apply_rules (sim_exec no_reject) sample_ipt [''203.0.113.7''] bare_state)) (''iptables'', ''filter'', ''OUTPUT'')
     = Some [quic_rule ''443'' @ [''-j'', ''DROP''], quic_rule ''80'' @ [''-j'', ''DROP'']]"
proof -
  have n: "\<not> no_reject (quic_rule p @ reject_udp)" for p by (simp add: no_reject_def reject_udp_def)
  have b: "vw id bare_state (''iptables'', ''filter'', ''OUTPUT'') = Some []"
    by (simp add: vw_def bare_state_def bare_fw_def)
  have "vw id (snd (apply_rules (sim_exec no_reject) sample_ipt [''203.0.113.7''] bare_state))
      = installed no_reject sample_ipt [''203.0.113.7''] (vw id bare_state)"
    by (rule apply_installs_rules [OF sample_facts(1,2,4), THEN conjunct2])
  then show ?thesis by (simp add: installed_def installed4_def quic_block_def n b)
qed

theorem reapply_replaces_rules_witness:
  "fst (apply_rules (sim_exec no_reject) sample_ipt [''203.0.113.9'']
     (snd (apply_rules (sim_exec no_reject) sample_ipt [''203.0.113.7''] bare_state))) = None"
  using reapply_replaces_rules [OF sample_facts] by blast

theorem cleanup_restores_firewall_witness:
  "vw id (cleanup (sim_exec no_reject) sample_ipt
     (snd (apply_rules (sim_exec no_reject) sample_ipt [''203.0.113.7''] bare_state))) = bare_fw"
  using cleanup_restores_firewall [OF sample_facts(1,2,4)] by (simp add: vw_def bare_state_def)

section \<open>The order of the rules of a chain\<close>

definition exemptions :: "ipt_config \<Rightarrow> string list \<Rightarrow> bool \<Rightarrow> string list list" where
  "exemptions cfg ips is_output = butlast (chain_rules cfg ips is_output)"

text \<open>C8: a redirect chain ends with its only \<open>REDIRECT\<close> rule; before it stand \<open>RETURN\<close>
  rules, among them one for uid 0 (on OUTPUT), for each private range, each non-blank bypass address and
  each of the daemon's own ports. So a packet is redirected only if no exemption matches it,
  whatever the matching of the single rules is.\<close>

theorem redirect_comes_last:
  "chain_rules cfg ips b = exemptions cfg ips b @ [[''-p'', ''tcp'', ''-j'', ''REDIRECT'', ''--to-ports'', itoa (redirect_port cfg)]] \<and>
   last ` set (exemptions cfg ips b) = {''RETURN''} \<and>
   (uid0_rule \<in> set (exemptions cfg ips b)) = b \<and>
   (\<lambda>d. [''-d'', d, ''-j'', ''RETURN'']) ` (set private_cidrs \<union> (trim_space ` set ips - {[]})) \<subseteq> set (exemptions cfg ips b) \<and>
   (\<lambda>p. [''-p'', ''tcp'', ''--dport'', itoa p, ''-j'', ''RETURN'']) `
     ({ic_api_port cfg, ic_socks_port cfg, ic_tcp_port cfg, ic_dns_port cfg} \<inter> {p. 0 < p}) \<subseteq> set (exemptions cfg ips b) \<and>
   (find m (chain_rules cfg ips b) = Some [''-p'', ''tcp'', ''-j'', ''REDIRECT'', ''--to-ports'', itoa (redirect_port cfg)]) =
     (m [''-p'', ''tcp'', ''-j'', ''REDIRECT'', ''--to-ports'', itoa (redirect_port cfg)] \<and> find m (exemptions cfg ips b) = None)"
proof -
  let ?R = "[''-p'', ''tcp'', ''-j'', ''REDIRECT'', ''--to-ports'', itoa (redirect_port cfg)]"
  let ?E = "(if b then [uid0_rule] else []) @ map (\<lambda>cidr. [''-d'', cidr, ''-j'', ''RETURN'']) private_cidrs
     @ map (\<lambda>ip. [''-d'', ip, ''-j'', ''RETURN'']) (filter (\<lambda>ip. ip \<noteq> []) (map trim_space ips))
     @ map (\<lambda>p. [''-p'', ''tcp'', ''--dport'', itoa p, ''-j'', ''RETURN''])
         (filter (\<lambda>p. 0 < p) [ic_api_port cfg, ic_socks_port cfg, ic_tcp_port cfg, ic_dns_port cfg])"
  have c: "chain_rules cfg ips b = ?E @ [?R]" by (simp add: chain_rules_def uid0_rule_def)
  have e: "exemptions cfg ips b = ?E" unfolding exemptions_def c by (rule butlast_snoc)
  have l: "last ` set ?E = {''RETURN''}"
    unfolding set_append image_Un by (auto simp: uid0_rule_def private_cidrs_def image_iff)
  have R: "?R \<notin> set ?E" using l by (auto simp: uid0_rule_def)
  have f: "find m (xs @ [x]) = Some x \<longleftrightarrow> m x \<and> find m xs = None" if "x \<notin> set xs" for x :: "string list" and xs
    using that by (induction xs) (auto split: if_splits)
  have u: "(uid0_rule \<in> set ?E) = b" by (auto simp: uid0_rule_def)
  show ?thesis
  proof (intro conjI)
    show "(\<lambda>d. [''-d'', d, ''-j'', ''RETURN'']) ` (set private_cidrs \<union> (trim_space ` set ips - {[]})) \<subseteq> set (exemptions cfg ips b)"
      unfolding e set_append set_map set_filter by blast
    show "(\<lambda>p. [''-p'', ''tcp'', ''--dport'', itoa p, ''-j'', ''RETURN'']) `
       ({ic_api_port cfg, ic_socks_port cfg, ic_tcp_port cfg, ic_dns_port cfg} \<inter> {p. 0 < p}) \<subseteq> set (exemptions cfg ips b)"
      unfolding e set_append set_map set_filter list.set by blast
  qed (unfold c e, (rule refl l u f [OF R])+)
qed

section \<open>The lock flag\<close>

text \<open>An executor that also keeps the argument vectors it was given.\<close>

definition recording :: "'k exec \<Rightarrow> ('k \<times> string list list) exec" where
  "recording exec argv s = (case exec argv (fst s) of (res, k) \<Rightarrow> (res, (k, snd s @ [argv])))"

definition lock_flag :: "string list \<Rightarrow> bool" where
  "lock_flag argv = (hd argv \<notin> tools \<or> take 2 (tl argv) = [''-w'', ''100''])"

definition locked :: "('k \<times> string list list) nstate \<Rightarrow> bool" where
  "locked st = list_all lock_flag (snd (ns_kern st))"

lemma lock_flag_ipt [simp]: "lock_flag (ipt args)" "lock_flag (ip6t args)" "lock_flag (''sysctl'' # args)"
  by (simp_all add: lock_flag_def ipt_def ip6t_def tools_def)

lemma locked_quiet: "locked st \<Longrightarrow> lock_flag argv \<Longrightarrow> locked (quiet (recording exec) st argv)"
  by (simp add: locked_def quiet_def recording_def split_beta)

lemma locked_tested: "locked st \<Longrightarrow> lock_flag argv \<Longrightarrow> locked (snd (tested (recording exec) st argv))"
  by (simp add: locked_def tested_def recording_def split_beta)

lemma locked_quiets: "locked st \<Longrightarrow> list_all lock_flag argvs \<Longrightarrow> locked (quiets (recording exec) argvs st)"
  by (induction argvs arbitrary: st) (auto intro: locked_quiet)

lemma lock_flags_map [simp]: "list_all lock_flag (map ipt xs)" "list_all lock_flag (map ip6t xs)"
  by (simp_all add: list_all_iff)

lemma locked_sh: "locked st \<Longrightarrow> locked (sh_run (recording exec) script st)"
  unfolding sh_run_def by (rule locked_quiet) (simp_all add: lock_flag_def tools_def)

lemma locked_run_cmd: "locked (snd es) \<Longrightarrow> locked (snd (run_cmd (recording exec) es args))"
  by (cases es) (simp add: locked_def run_cmd_def recording_def split_beta)

lemma locked_run_cmds: "locked (snd es) \<Longrightarrow> locked (snd (foldl (run_cmd (recording exec)) es cmds))"
  by (induction cmds arbitrary: es) (simp_all add: locked_run_cmd)

lemma locked_delete_up_to: "locked st \<Longrightarrow> lock_flag argv \<Longrightarrow> locked (delete_up_to (recording exec) argv n st)"
  by (induction n arbitrary: st) (auto simp: split_beta intro: locked_tested)

lemma locked_block: "locked st \<Longrightarrow> locked (block_quic_port (recording exec) port st)"
  by (auto simp: block_quic_port_def split_beta quic_args_def intro!: locked_tested locked_quiet)

lemma locked_unblock: "locked st \<Longrightarrow> locked (unblock_quic_port (recording exec) port st)"
  by (auto simp: unblock_quic_port_def quic_args_def intro!: locked_delete_up_to)

lemma locked_cleanup_rules: "locked st \<Longrightarrow> locked (cleanup_rules (recording exec) cfg st)"
  unfolding cleanup_rules_def Let_def unblock_quic_def
  by (intro locked_unblock locked_quiet locked_quiets lock_flag_ipt lock_flags_map)

lemma locked_dns: "locked st \<Longrightarrow> locked (setup_dns_forward (recording exec) pre port st)"
  by (auto simp: setup_dns_forward_def Let_def split_beta simp del: quiets_Cons
      intro!: locked_quiets locked_quiet locked_tested locked_sh)

lemma locked_disable6: "locked st \<Longrightarrow> locked (disable_ipv6 (recording exec) st)"
  by (auto simp: disable_ipv6_def Let_def split_beta simp del: quiets_Cons
      intro!: locked_quiets locked_quiet locked_tested locked_sh)

lemma locked_flags: "locked (kick_revalidation st) = locked st" "locked (reset_revalidation st) = locked st"
  by (simp_all add: kick_revalidation_def reset_revalidation_def locked_def)

text \<open>Every \<open>iptables\<close> and \<open>ip6tables\<close> command that \<open>Apply\<close> and \<open>Cleanup\<close> run, on
  every path, carries \<open>-w 100\<close> as its first two arguments.\<close>

theorem every_command_waits_for_lock:
  "let st = \<lparr>ns_kern = (k, []), ns_reval = r, ns_kicks = n\<rparr> in
     list_all lock_flag (snd (ns_kern (snd (apply_rules (recording exec) cfg ips st)))) \<and>
     list_all lock_flag (snd (ns_kern (cleanup (recording exec) cfg st)))"
proof -
  let ?st = "\<lparr>ns_kern = (k, []), ns_reval = r, ns_kicks = n\<rparr>"
  have l: "locked ?st" by (simp add: locked_def)
  have "locked (snd (apply_rules (recording exec) cfg ips ?st))"
    using l by (auto simp: apply_rules_def Let_def split_beta block_quic_def tune_tcp_def disable_captive_portal_def
        locked_flags
        intro!: locked_sh locked_disable6 locked_block locked_dns locked_quiet locked_run_cmds locked_cleanup_rules)
  moreover have "locked (cleanup (recording exec) cfg ?st)"
    using l by (auto simp: cleanup_def restore_captive_portal_def enable_ipv6_def locked_flags simp del: quiets_Cons
        intro!: locked_sh locked_quiets locked_cleanup_rules)
  ultimately show ?thesis by (simp add: locked_def Let_def)
qed

section \<open>Revalidation\<close>

definition flags :: "'k nstate \<Rightarrow> bool \<times> nat" where
  "flags st = (ns_reval st, ns_kicks st)"

lemma flags_quiet [frame_simps]: "flags (quiet exec st argv) = flags st"
  by (simp add: flags_def quiet_def)

lemma flags_tested [frame_simps]: "flags (snd (tested exec st argv)) = flags st"
  by (simp add: flags_def tested_def split_beta)

lemma flags_quiets [frame_simps]: "flags (quiets exec argvs st) = flags st"
  by (induction argvs arbitrary: st) (simp_all add: frame_simps)

lemma flags_sh [frame_simps]: "flags (sh_run exec script st) = flags st"
  by (simp add: sh_run_def frame_simps)

lemma flags_run_cmd [frame_simps]: "flags (snd (run_cmd exec es args)) = flags (snd es)"
  by (simp add: run_cmd_def flags_def split_beta)

lemma flags_run_cmds [frame_simps]: "flags (snd (foldl (run_cmd exec) es cmds)) = flags (snd es)"
  by (induction cmds arbitrary: es) (simp_all add: frame_simps)

lemma flags_delete_up_to [frame_simps]: "flags (delete_up_to exec argv n st) = flags st"
  by (induction n arbitrary: st) (simp_all add: frame_simps split_beta)

lemma flags_parts [frame_simps]:
  "flags (block_quic exec st) = flags st" "flags (unblock_quic exec st) = flags st"
  "flags (setup_dns_forward exec pre port st) = flags st" "flags (disable_ipv6 exec st) = flags st"
  "flags (enable_ipv6 exec st) = flags st" "flags (tune_tcp exec st) = flags st"
  by (simp_all add: block_quic_def block_quic_port_def unblock_quic_def unblock_quic_port_def setup_dns_forward_def
      disable_ipv6_def enable_ipv6_def tune_tcp_def Let_def split_beta frame_simps del: quiets_Cons)

lemma flags_cleanup_rules [frame_simps]: "flags (cleanup_rules exec cfg st) = flags st"
  by (simp add: cleanup_rules_def Let_def frame_simps)

lemma flags_apply: "flags (snd (apply_rules exec cfg ips st)) = (True, ns_kicks st + (if ns_reval st then 0 else 1))"
proof -
  have k: "flags (kick_revalidation st') = (True, snd (flags st') + (if fst (flags st') then 0 else 1))" for st' :: "'a nstate"
    by (simp add: flags_def kick_revalidation_def)
  have "\<exists>st'. snd (apply_rules exec cfg ips st) = kick_revalidation st' \<and> flags st' = flags st"
    unfolding apply_rules_def Let_def split_beta disable_captive_portal_def snd_conv
    by (intro exI conjI, rule refl) (simp add: frame_simps del: quiets_Cons)
  then show ?thesis using k by (auto simp: flags_def)
qed

lemma flags_cleanup: "flags (cleanup exec cfg st) = (False, ns_kicks st)"
proof -
  have "flags (sh_run exec s (reset_revalidation st')) = (False, snd (flags st'))" for s and st' :: "'a nstate"
    unfolding flags_sh by (simp add: flags_def reset_revalidation_def)
  then show ?thesis
    by (simp add: cleanup_def restore_captive_portal_def frame_simps) (simp add: flags_def)
qed

datatype nf_op = Apply "string list" | Cleanup

fun nf_step :: "'k exec \<Rightarrow> ipt_config \<Rightarrow> 'k nstate \<Rightarrow> nf_op \<Rightarrow> 'k nstate" where
  "nf_step exec cfg st (Apply ips) = snd (apply_rules exec cfg ips st)"
| "nf_step exec cfg st Cleanup = cleanup exec cfg st"

text \<open>Over any history of \<open>Apply\<close> and \<open>Cleanup\<close>, whatever the commands
  answer, at most one connectivity revalidation is started per session: one, plus one for each
  \<open>Cleanup\<close> that re-arms it.\<close>

theorem revalidation_once_per_session:
  "ns_kicks (run (nf_step exec cfg) st ops) \<le>
     ns_kicks st + (if ns_reval st then 0 else 1) + length (filter (\<lambda>op. op = Cleanup) ops)"
proof (induction ops arbitrary: st)
  case (Cons op ops)
  have "ns_kicks (nf_step exec cfg st op) + (if ns_reval (nf_step exec cfg st op) then 0 else 1) \<le>
      ns_kicks st + (if ns_reval st then 0 else 1) + (if op = Cleanup then 1 else 0)"
    using flags_apply [of exec cfg _ st] flags_cleanup [of exec cfg st] by (cases op) (auto simp: flags_def)
  then show ?case using Cons.IH [of "nf_step exec cfg st op"] by (auto split: if_splits)
qed simp

end
