(* ===== verification/Tunnel.thy ===== *)
theory Tunnel
  imports DaemonConfig NetfilterRules
begin

text \<open>
  The connection manager, \<open>tunnelLoop\<close> of \<open>cmd/sshcustomd/engine.go\<close>, as a step relation. A step is one
  answer of the loop's two \<open>select\<close> statements: the back-off timer that fires (with what the
  iteration then reads: the configuration, the route, the outcome of \<open>attemptSSHAuth\<close>), the death of the
  SSH client, a health tick, or the cancelled context. Other goroutines write to the same variables and are steps
  too: the listeners report whether they could bind, \<open>stopTunnel\<close> takes the published client
  back and writes the state, and so does the shutdown. The firewall the loop changes is the state of
  \<open>Netfilter\<close>, driven through the executor parameter; the fields of \<open>State\<close> (\<open>main.go\<close>) the loop
  writes are the record \<open>status\<close>. Durations are nanoseconds.
\<close>

section \<open>Observable state\<close>

record route_info =
  ri_online :: bool
  ri_raw :: string
  ri_iface :: string
  ri_gw :: string
  ri_src :: string

record probe_result =
  pr_banner :: string
  pr_statuses :: "int list"
  pr_preview :: string
  pr_dial :: string
  pr_method :: string
  pr_ips :: "string list"

record pool_info =
  po_size :: int
  po_healthy :: int
  po_reconnecting :: int
  po_streams :: int
  po_max :: int

record status =
  s_state :: string
  s_connected :: bool
  s_auth :: bool
  s_ready :: bool
  s_last_error :: string
  s_last_event :: string
  s_route :: route_info
  s_applied :: bool
  s_hotspot :: bool
  s_socks :: bool
  s_transparent :: bool
  s_probe :: probe_result
  s_pool :: pool_info

text \<open>The fields of a probe result the loop copies into the state; the preview is not one of them.\<close>

definition set_probe :: "probe_result \<Rightarrow> status \<Rightarrow> status" where
  "set_probe r s = s\<lparr>s_probe := (s_probe s)\<lparr>pr_banner := pr_banner r, pr_statuses := pr_statuses r, pr_dial := pr_dial r,
     pr_method := pr_method r, pr_ips := pr_ips r\<rparr>\<rparr>"

definition down :: "status \<Rightarrow> status" where
  "down s = s\<lparr>s_connected := False, s_auth := False, s_ready := False, s_pool := (s_pool s)\<lparr>po_healthy := 0\<rparr>\<rparr>"

definition seconds :: "int \<Rightarrow> int" where
  "seconds n = n * 1000000000"

section \<open>Small functions\<close>

definition next_delay :: "int \<Rightarrow> int \<Rightarrow> int \<Rightarrow> int" where
  "next_delay cur base mx = (if cur \<le> 0 then base else let cur = cur * 2 in if mx < cur then mx else cur)"

definition classify_disconnect :: "string option \<Rightarrow> string" where
  "classify_disconnect err =
     (case err of None \<Rightarrow> ''clean close''
      | Some s \<Rightarrow>
          if str_contains s ''EOF'' \<or> str_contains s ''eof'' then ''remote closed (SSH server)''
          else if str_contains s ''timeout'' \<or> str_contains s ''i/o timeout'' then ''network timeout''
          else if str_contains s ''reset'' \<or> str_contains s ''broken pipe'' then ''network reset''
          else if str_contains s ''use of closed network connection'' then ''keepalive timeout (connection dead)''
          else if str_contains s ''unexpected packet'' \<or> str_contains s ''bad record mac'' then ''transport corruption''
          else s)"

text \<open>\<open>keepAlive\<close>: the outcome of each keepalive request is whether it was answered without error within its
  five seconds; the result says after which one, if any, the client is closed.\<close>

fun keep_alive :: "nat \<Rightarrow> bool list \<Rightarrow> nat option" where
  "keep_alive missed [] = None"
| "keep_alive missed (answered # os) =
     (if answered then map_option Suc (keep_alive 0 os)
      else if 3 \<le> Suc missed then Some 0
      else map_option Suc (keep_alive (Suc missed) os))"

definition keep_alive_period :: "int \<Rightarrow> int" where
  "keep_alive_period sec = (if sec \<le> 0 then 15 else sec)"

definition max_streams :: "config \<Rightarrow> int" where
  "max_streams cfg = (if pf_max_streams (c_perf cfg) \<le> 0 then 64 else pf_max_streams (c_perf cfg))"

section \<open>The loop\<close>

datatype phase = Delaying | Serving | Exited

text \<open>The listeners that report to the state. The DNS forwarder, the third goroutine of \<open>startListeners\<close>, only logs.\<close>

datatype listener_kind = SocksListener | TransparentListener

definition started_listeners :: "config \<Rightarrow> listener_kind list" where
  "started_listeners cfg =
     (if lp_enabled (c_local cfg) then [SocksListener] else []) @
     (if tp_enabled (c_tproxy cfg) then [TransparentListener] else [])"

text \<open>\<open>t_listener\<close> is \<open>listenerCancel \<noteq> nil\<close>: the listeners have been started, whether or not they could bind.
  \<open>t_binding\<close> are the started listeners whose \<open>net.Listen\<close> has not returned yet.\<close>

record 'k tstate =
  t_phase :: phase
  t_delay :: int
  t_listener :: bool
  t_binding :: "listener_kind list"
  t_iptables :: bool
  t_client :: "nat option"
  t_clients :: nat
  t_status :: status
  t_net :: "'k nstate"

datatype tevent =
    Fire config route_info "probe_result \<times> string option"
  | Died "string option"
  | Tick config route_info int nat
  | Cancelled config
  | Listened listener_kind "string option"
  | Unlistened listener_kind
  | StopClears
  | StopWrites
  | ShutdownWrites

text \<open>\<open>teardown\<close>, with the configuration \<open>getCfg\<close> returns at that moment.\<close>

definition teardown :: "'k exec \<Rightarrow> config \<Rightarrow> 'k tstate \<Rightarrow> 'k tstate" where
  "teardown exec cfg t =
     t\<lparr>t_listener := False,
       t_net := (if t_iptables t then cleanup_transparent_rules exec cfg (t_net t) else t_net t),
       t_iptables := False, t_client := None\<rparr>"

text \<open>The part of an iteration that runs once, on the first connect.\<close>

definition bring_up :: "'k exec \<Rightarrow> config \<Rightarrow> probe_result \<Rightarrow> 'k tstate \<Rightarrow> 'k tstate" where
  "bring_up exec cfg res t =
     (if t_listener t then t
      else let t = t\<lparr>t_listener := True, t_binding := started_listeners cfg\<rparr> in
        if \<not> tp_enabled (c_tproxy cfg) then t
        else (case apply_transparent_rules exec cfg (pr_ips res) (t_net t) of
                (Some e, net) \<Rightarrow>
                  t\<lparr>t_net := net,
                    t_status := (t_status t)\<lparr>s_applied := False, s_last_error := ''iptables apply failed: '' @ e\<rparr>\<rparr>
              | (None, net) \<Rightarrow>
                  t\<lparr>t_net := net, t_iptables := True,
                    t_status := (t_status t)\<lparr>s_applied := True,
                      s_hotspot := hs_enabled (c_hotspot cfg) \<and> hs_tcp (c_hotspot cfg)\<rparr>\<rparr>))"

definition connected_status :: "probe_result \<Rightarrow> status \<Rightarrow> status" where
  "connected_status res s =
     set_probe res
       (s\<lparr>s_state := ''CONNECTED'', s_connected := True, s_auth := True, s_ready := True, s_last_error := [],
          s_last_event := ''SSH connected; SOCKS5 + transparent TCP + DNS-through-tunnel active'',
          s_pool := (s_pool s)\<lparr>po_size := 1, po_healthy := 1, po_reconnecting := 0, po_streams := 0\<rparr>\<rparr>)"

definition fire :: "'k exec \<Rightarrow> config \<Rightarrow> route_info \<Rightarrow> probe_result \<times> string option \<Rightarrow> 'k tstate \<Rightarrow> 'k tstate" where
  "fire exec cfg ri auth t =
     (let s = (t_status t)\<lparr>s_route := ri\<rparr> in
      if \<not> ri_online ri then
        t\<lparr>t_status := (down s)\<lparr>s_state := ''PAUSED_NO_NETWORK'', s_last_event := ''network offline; reconnect paused''\<rparr>,
          t_delay := seconds 5\<rparr>
      else
        let s = s\<lparr>s_state := ''CONNECTING_SSH'', s_last_event := ''opening transport and authenticating SSH'',
                  s_last_error := []\<rparr>
        in case auth of
             (res, Some e) \<Rightarrow>
               t\<lparr>t_status := set_probe res ((down s)\<lparr>s_state := ''RETRY_BACKOFF'', s_last_error := e,
                                                s_last_event := ''SSH auth failed; retrying''\<rparr>),
                 t_delay := next_delay (t_delay t) (seconds 1) (seconds 30)\<rparr>
           | (res, None) \<Rightarrow>
               (bring_up exec cfg res
                 (t\<lparr>t_delay := seconds 1, t_client := Some (t_clients t), t_clients := Suc (t_clients t),
                    t_status := connected_status res s\<rparr>))\<lparr>t_phase := Serving\<rparr>)"

text \<open>After the client died, or was closed after five or more transport errors within a tick.\<close>

definition lost :: "string option \<Rightarrow> 'k tstate \<Rightarrow> 'k tstate" where
  "lost err t =
     (let s = down (t_status t) in
      t\<lparr>t_client := None, t_delay := seconds 1, t_phase := Delaying,
        t_status := s\<lparr>s_state := ''RECONNECTING'',
          s_pool := (s_pool s)\<lparr>po_reconnecting := 1, po_streams := 0\<rparr>,
          s_last_event := ''SSH connection lost; reconnecting (routing kept up)''\<rparr>\<rparr>)"

definition tick :: "config \<Rightarrow> route_info \<Rightarrow> int \<Rightarrow> nat \<Rightarrow> 'k tstate \<Rightarrow> 'k tstate" where
  "tick cfg ri streams errors t =
     (if 5 \<le> errors
      then lost (Some (''forced reconnect after '' @ nat_dec errors @ '' transport errors'')) t
      else t\<lparr>t_status := (t_status t)\<lparr>s_route := ri,
               s_pool := (s_pool (t_status t))\<lparr>po_streams := streams, po_max := max_streams cfg\<rparr>\<rparr>\<rparr>)"

definition cancel :: "'k exec \<Rightarrow> config \<Rightarrow> 'k tstate \<Rightarrow> 'k tstate" where
  "cancel exec cfg t = (teardown exec cfg (t\<lparr>t_client := None\<rparr>))\<lparr>t_phase := Exited\<rparr>"

text \<open>Steps of other goroutines. \<open>serveSOCKS\<close> and \<open>serveTransparent\<close> report how \<open>net.Listen\<close> went, and that their
  listener is closed; \<open>stopTunnel\<close> stores nil into the client pointer and later writes the state, whether the
  loop has returned or not; the end of \<open>run\<close> writes the state.\<close>

definition set_listener :: "listener_kind \<Rightarrow> bool \<Rightarrow> status \<Rightarrow> status" where
  "set_listener l b s =
     (case l of SocksListener \<Rightarrow> s\<lparr>s_socks := b\<rparr> | TransparentListener \<Rightarrow> s\<lparr>s_transparent := b\<rparr>)"

definition listen_error :: "listener_kind \<Rightarrow> string \<Rightarrow> string" where
  "listen_error l e =
     (case l of SocksListener \<Rightarrow> ''SOCKS5 listen failed: '' | TransparentListener \<Rightarrow> ''transparent listen failed: '') @ e"

definition listened :: "listener_kind \<Rightarrow> string option \<Rightarrow> 'k tstate \<Rightarrow> 'k tstate" where
  "listened l res t =
     t\<lparr>t_binding := remove1 l (t_binding t),
       t_status := (case res of
           None \<Rightarrow> set_listener l True (t_status t)
         | Some e \<Rightarrow> (set_listener l False (t_status t))\<lparr>s_last_error := listen_error l e\<rparr>)\<rparr>"

definition unlistened :: "listener_kind \<Rightarrow> 'k tstate \<Rightarrow> 'k tstate" where
  "unlistened l t = t\<lparr>t_status := set_listener l False (t_status t)\<rparr>"

definition stop_clears :: "'k tstate \<Rightarrow> 'k tstate" where
  "stop_clears t = t\<lparr>t_client := None\<rparr>"

definition stop_writes :: "'k tstate \<Rightarrow> 'k tstate" where
  "stop_writes t =
     t\<lparr>t_status := (t_status t)\<lparr>s_connected := False, s_auth := False, s_ready := False, s_state := ''IDLE'',
         s_last_event := ''tunnel stopped and rules cleaned'', s_last_error := [],
         s_pool := (s_pool (t_status t))\<lparr>po_size := 0, po_healthy := 0, po_reconnecting := 0, po_streams := 0\<rparr>\<rparr>\<rparr>"

definition shutdown_writes :: "'k tstate \<Rightarrow> 'k tstate" where
  "shutdown_writes t = t\<lparr>t_status := (t_status t)\<lparr>s_state := ''STOPPED'', s_connected := False, s_ready := False\<rparr>\<rparr>"

inductive tstep :: "'k exec \<Rightarrow> 'k tstate \<Rightarrow> tevent \<Rightarrow> 'k tstate \<Rightarrow> bool" for exec where
  fire: "t_phase t = Delaying \<Longrightarrow> tstep exec t (Fire cfg ri auth) (fire exec cfg ri auth t)"
| died: "t_phase t = Serving \<Longrightarrow> tstep exec t (Died err) (lost err t)"
| tick: "t_phase t = Serving \<Longrightarrow> tstep exec t (Tick cfg ri streams errors) (tick cfg ri streams errors t)"
| cancel: "t_phase t \<noteq> Exited \<Longrightarrow> tstep exec t (Cancelled cfg) (cancel exec cfg t)"
| listened: "l \<in> set (t_binding t) \<Longrightarrow> tstep exec t (Listened l res) (listened l res t)"
| unlistened: "tstep exec t (Unlistened l) (unlistened l t)"
| stop_clears: "tstep exec t StopClears (stop_clears t)"
| stop_writes: "tstep exec t StopWrites (stop_writes t)"
| shutdown_writes: "tstep exec t ShutdownWrites (shutdown_writes t)"

inductive_cases tstep_FireE: "tstep exec t (Fire cfg ri auth) t'"
inductive_cases tstep_DiedE: "tstep exec t (Died err) t'"
inductive_cases tstep_TickE: "tstep exec t (Tick cfg ri streams errors) t'"
inductive_cases tstep_CancelE: "tstep exec t (Cancelled cfg) t'"

inductive_simps tstep_Fire_iff: "tstep exec t (Fire cfg ri auth) t'"
inductive_simps tstep_Died_iff: "tstep exec t (Died err) t'"
inductive_simps tstep_Tick_iff: "tstep exec t (Tick cfg ri streams errors) t'"
inductive_simps tstep_Cancel_iff: "tstep exec t (Cancelled cfg) t'"

inductive treach :: "'k exec \<Rightarrow> 'k tstate \<Rightarrow> tevent list \<Rightarrow> 'k tstate \<Rightarrow> bool" for exec t0 where
  start: "treach exec t0 [] t0"
| step: "treach exec t0 es t \<Longrightarrow> tstep exec t e t' \<Longrightarrow> treach exec t0 (es @ [e]) t'"

text \<open>The loop as it is entered: no listener, no rules, no client, no delay.\<close>

definition tunnel_start :: "status \<Rightarrow> 'k nstate \<Rightarrow> 'k tstate" where
  "tunnel_start s net =
     \<lparr>t_phase = Delaying, t_delay = 0, t_listener = False, t_binding = [], t_iptables = False, t_client = None, t_clients = 0,
      t_status = s, t_net = net\<rparr>"

section \<open>Invariants\<close>

lemma down_simps [simp]:
  "s_connected (down s) = False" "s_auth (down s) = False" "s_ready (down s) = False"
  by (simp_all add: down_def)

lemma set_probe_simps [simp]:
  "s_connected (set_probe r s) = s_connected s" "s_auth (set_probe r s) = s_auth s" "s_ready (set_probe r s) = s_ready s"
  "s_state (set_probe r s) = s_state s"
  by (simp_all add: set_probe_def)

lemma bring_up_frame [frame_simps]:
  "t_phase (bring_up exec cfg res t) = t_phase t" "t_delay (bring_up exec cfg res t) = t_delay t"
  "t_client (bring_up exec cfg res t) = t_client t" "t_clients (bring_up exec cfg res t) = t_clients t"
  "t_listener (bring_up exec cfg res t) = True"
  "s_connected (t_status (bring_up exec cfg res t)) = s_connected (t_status t)"
  "s_auth (t_status (bring_up exec cfg res t)) = s_auth (t_status t)"
  "s_ready (t_status (bring_up exec cfg res t)) = s_ready (t_status t)"
  by (auto simp: bring_up_def Let_def split: prod.splits option.splits)

definition flags_are :: "bool \<Rightarrow> status \<Rightarrow> bool" where
  "flags_are b s = (s_connected s = b \<and> s_auth s = b \<and> s_ready s = b)"

lemma flags_are_simps [simp]:
  "flags_are False (down s)" "flags_are True (connected_status res s)"
  by (simp_all add: flags_are_def connected_status_def)

text \<open>A flag is only up while a client is served; \<open>stopTunnel\<close> and the shutdown may take flags and client away.\<close>

definition tunnel_inv :: "'k tstate \<Rightarrow> bool" where
  "tunnel_inv t =
     ((t_client t \<noteq> None \<longrightarrow> t_phase t = Serving) \<and>
      0 \<le> t_delay t \<and> t_delay t \<le> seconds 30 \<and>
      (t_iptables t \<longrightarrow> t_listener t) \<and>
      (t_phase t = Serving \<longrightarrow> t_listener t) \<and>
      (t_phase t = Exited \<longrightarrow> \<not> t_listener t) \<and>
      (t_phase t = Delaying \<longrightarrow> flags_are False (t_status t)))"

definition served_client :: "'k tstate \<Rightarrow> bool" where
  "served_client t = (t_phase t = Serving \<longrightarrow> t_client t \<noteq> None)"

definition served_flags :: "'k tstate \<Rightarrow> bool" where
  "served_flags t = (t_phase t = Serving \<longrightarrow> flags_are True (t_status t))"

lemma set_listener_simps [simp]:
  "s_connected (set_listener l b s) = s_connected s" "s_auth (set_listener l b s) = s_auth s"
  "s_ready (set_listener l b s) = s_ready s" "s_applied (set_listener l b s) = s_applied s"
  by (simp_all add: set_listener_def split: listener_kind.split)

text \<open>The steps of the other goroutines leave what the loop itself keeps alone.\<close>

definition own_parts :: "'k tstate \<Rightarrow> phase \<times> int \<times> bool \<times> bool \<times> nat \<times> 'k nstate" where
  "own_parts t = (t_phase t, t_delay t, t_listener t, t_iptables t, t_clients t, t_net t)"

definition outside :: "tevent \<Rightarrow> bool" where
  "outside e = (case e of Listened l res \<Rightarrow> True | Unlistened l \<Rightarrow> True | StopClears \<Rightarrow> True | StopWrites \<Rightarrow> True
     | ShutdownWrites \<Rightarrow> True | _ \<Rightarrow> False)"

lemmas outside_steps = listened_def unlistened_def stop_clears_def stop_writes_def shutdown_writes_def

lemma outside_frame: "tstep exec t e t' \<Longrightarrow> outside e \<Longrightarrow> own_parts t' = own_parts t"
  by (induction rule: tstep.induct) (simp_all add: outside_def own_parts_def outside_steps)

lemma outside_client: "tstep exec t e t' \<Longrightarrow> outside e \<Longrightarrow> e \<noteq> StopClears \<Longrightarrow> t_client t' = t_client t"
  by (induction rule: tstep.induct) (simp_all add: outside_def outside_steps)

lemma outside_flags:
  "tstep exec t e t' \<Longrightarrow> outside e \<Longrightarrow> e \<noteq> StopWrites \<Longrightarrow> e \<noteq> ShutdownWrites \<Longrightarrow>
   flags_are b (t_status t') = flags_are b (t_status t)"
  by (induction rule: tstep.induct) (simp_all add: outside_def outside_steps flags_are_def split: option.split)

lemma outside_inv: "tstep exec t e t' \<Longrightarrow> outside e \<Longrightarrow> tunnel_inv t \<Longrightarrow> tunnel_inv t'"
  by (induction rule: tstep.induct)
    (auto simp: outside_def outside_steps tunnel_inv_def flags_are_def split: option.splits)

lemma not_outside:
  "tstep exec t e t' \<Longrightarrow> \<not> outside e \<Longrightarrow>
   (\<exists>cfg ri auth. e = Fire cfg ri auth \<and> t_phase t = Delaying \<and> t' = fire exec cfg ri auth t) \<or>
   (\<exists>err. e = Died err \<and> t_phase t = Serving \<and> t' = lost err t) \<or>
   (\<exists>cfg ri n m. e = Tick cfg ri n m \<and> t_phase t = Serving \<and> t' = tick cfg ri n m t) \<or>
   (\<exists>cfg. e = Cancelled cfg \<and> t_phase t \<noteq> Exited \<and> t' = cancel exec cfg t)"
  by (induction rule: tstep.induct) (simp_all add: outside_def)

lemma next_delay_bounds: "0 \<le> d \<Longrightarrow> d \<le> seconds 30 \<Longrightarrow>
     0 \<le> next_delay d (seconds 1) (seconds 30) \<and> next_delay d (seconds 1) (seconds 30) \<le> seconds 30"
  by (auto simp: next_delay_def seconds_def Let_def)

lemma fire_inv: "tunnel_inv t \<Longrightarrow> t_phase t = Delaying \<Longrightarrow> tunnel_inv (fire exec cfg ri auth t)"
  using next_delay_bounds [of "t_delay t"]
  by (auto simp: tunnel_inv_def fire_def Let_def frame_simps flags_are_def connected_status_def seconds_def
      split: prod.splits option.splits)

lemma fire_served:
  "t_phase t = Delaying \<Longrightarrow> served_client (fire exec cfg ri auth t) \<and> served_flags (fire exec cfg ri auth t)"
  by (auto simp: served_client_def served_flags_def fire_def Let_def frame_simps flags_are_def connected_status_def
      split: prod.splits option.splits)

lemma lost_inv: "tunnel_inv t \<Longrightarrow> t_phase t = Serving \<Longrightarrow> tunnel_inv (lost err t)"
  by (auto simp: tunnel_inv_def lost_def Let_def flags_are_def seconds_def)

lemma tick_inv: "tunnel_inv t \<Longrightarrow> t_phase t = Serving \<Longrightarrow> tunnel_inv (tick cfg ri streams errors t)"
  using lost_inv [of t] by (auto simp: tick_def tunnel_inv_def flags_are_def)

lemma tick_served:
  "served_client t \<Longrightarrow> served_client (tick cfg ri streams errors t)"
  "served_flags t \<Longrightarrow> served_flags (tick cfg ri streams errors t)"
  by (simp_all add: served_client_def served_flags_def tick_def lost_def Let_def flags_are_def)

lemma cancel_inv: "tunnel_inv t \<Longrightarrow> tunnel_inv (cancel exec cfg t)"
  by (simp add: tunnel_inv_def cancel_def teardown_def)

lemma tstep_inv:
  assumes "tstep exec t e t'" "tunnel_inv t"
  shows "tunnel_inv t'"
proof (cases "outside e")
  case False
  with not_outside [OF assms(1)] assms(2) show ?thesis by (auto simp: fire_inv lost_inv tick_inv cancel_inv)
qed (rule outside_inv [OF assms(1) _ assms(2)])

lemma treach_inv: "treach exec t0 es t \<Longrightarrow> tunnel_inv t0 \<Longrightarrow> tunnel_inv t"
  by (induction rule: treach.induct) (auto intro: tstep_inv)

lemma own_parts_phase: "own_parts t' = own_parts t \<Longrightarrow> t_phase t' = t_phase t"
  by (simp add: own_parts_def)

lemma tstep_served_client:
  assumes "tstep exec t e t'" "served_client t" "e \<noteq> StopClears"
  shows "served_client t'"
proof (cases "outside e")
  case True
  with own_parts_phase [OF outside_frame [OF assms(1)]] outside_client [OF assms(1)] assms(2,3) show ?thesis
    by (simp add: served_client_def)
next
  case False
  with not_outside [OF assms(1)] assms(2) show ?thesis
    by (auto simp: fire_served tick_served) (auto simp: served_client_def lost_def Let_def cancel_def)
qed

lemma tstep_served_flags:
  assumes "tstep exec t e t'" "served_flags t" "e \<noteq> StopWrites" "e \<noteq> ShutdownWrites"
  shows "served_flags t'"
proof (cases "outside e")
  case True
  with own_parts_phase [OF outside_frame [OF assms(1)]] outside_flags [OF assms(1)] assms(2-) show ?thesis
    by (simp add: served_flags_def)
next
  case False
  with not_outside [OF assms(1)] assms(2) show ?thesis
    by (auto simp: fire_served tick_served) (auto simp: served_flags_def lost_def Let_def cancel_def)
qed

lemma treach_served_client: "treach exec t0 es t \<Longrightarrow> served_client t0 \<Longrightarrow> StopClears \<notin> set es \<Longrightarrow> served_client t"
  by (induction rule: treach.induct) (auto intro: tstep_served_client)

lemma treach_served_flags:
  "treach exec t0 es t \<Longrightarrow> served_flags t0 \<Longrightarrow> StopWrites \<notin> set es \<Longrightarrow> ShutdownWrites \<notin> set es \<Longrightarrow> served_flags t"
  by (induction rule: treach.induct) (auto intro: tstep_served_flags)

lemma tunnel_start_inv: "flags_are False s \<Longrightarrow> tunnel_inv (tunnel_start s net)"
  by (simp add: tunnel_inv_def tunnel_start_def seconds_def)

lemma tunnel_start_served: "served_client (tunnel_start s net)" "served_flags (tunnel_start s net)"
  by (simp_all add: served_client_def served_flags_def tunnel_start_def)

text \<open>C3: in every state the loop can reach, a client is published only while it is being
  served, and connected, authenticated and ready are all down between connections. While a client is served
  it is published, unless \<open>stopTunnel\<close> has stored nil, and the three flags are up, unless \<open>stopTunnel\<close> or the
  shutdown has written the state. Rules are only up while the listeners are started (that they
  could bind is not promised: \<open>rules_survive_bind_failure\<close>), both are gone once the loop has
  exited, and the reconnect delay stays between 0 and 30 seconds.\<close>

theorem tunnel_state_consistent:
  assumes "flags_are False s" "treach exec (tunnel_start s net) es t"
  shows "(t_client t \<noteq> None \<longrightarrow> t_phase t = Serving) \<and>
     (t_phase t = Delaying \<longrightarrow> flags_are False (t_status t)) \<and>
     (t_phase t = Serving \<and> StopClears \<notin> set es \<longrightarrow> t_client t \<noteq> None) \<and>
     (t_phase t = Serving \<and> StopWrites \<notin> set es \<and> ShutdownWrites \<notin> set es \<longrightarrow> flags_are True (t_status t)) \<and>
     (t_iptables t \<longrightarrow> t_listener t) \<and> (t_phase t = Exited \<longrightarrow> \<not> t_iptables t \<and> \<not> t_listener t) \<and>
     0 \<le> t_delay t \<and> t_delay t \<le> seconds 30"
  using treach_inv [OF assms(2) tunnel_start_inv [OF assms(1)]]
    treach_served_client [OF assms(2) tunnel_start_served(1)] treach_served_flags [OF assms(2) tunnel_start_served(2)]
  by (auto simp: tunnel_inv_def served_client_def served_flags_def)

text \<open>A listener that cannot bind changes nothing but its flag and the error shown: rules that redirect to its
  port stay up, and the device's connections are refused there.\<close>

lemma rules_survive_bind_failure:
  assumes "t_iptables t" "TransparentListener \<in> set (t_binding t)"
  shows "\<exists>t'. tstep exec t (Listened TransparentListener (Some e)) t' \<and> t_iptables t' \<and> t_net t' = t_net t \<and>
     \<not> s_transparent (t_status t') \<and> s_applied (t_status t') = s_applied (t_status t)"
  using tstep.listened [OF assms(2), of exec "Some e"] assms(1)
  by (intro exI [of _ "listened TransparentListener (Some e) t"]) (simp add: listened_def set_listener_def)

section \<open>Once the listeners are up\<close>

lemma bring_up_listener: "t_listener t \<Longrightarrow> bring_up exec cfg res t = t"
  by (simp add: bring_up_def)

lemma fire_frozen:
  "t_listener t \<Longrightarrow> t_listener (fire exec cfg ri auth t) \<and> t_iptables (fire exec cfg ri auth t) = t_iptables t \<and>
     t_net (fire exec cfg ri auth t) = t_net t"
  by (auto simp: fire_def Let_def bring_up_listener split: prod.splits option.splits)

lemma lost_tick_frame [frame_simps]:
  "t_listener (lost err t) = t_listener t" "t_iptables (lost err t) = t_iptables t" "t_net (lost err t) = t_net t"
  "t_listener (tick cfg ri n m t) = t_listener t" "t_iptables (tick cfg ri n m t) = t_iptables t"
  "t_net (tick cfg ri n m t) = t_net t"
  by (simp_all add: lost_def tick_def Let_def)

lemma tstep_exited: "tstep exec t e t' \<Longrightarrow> t_phase t = Exited \<Longrightarrow> outside e"
  by (induction rule: tstep.induct) (simp_all add: outside_def)

lemma tstep_frozen:
  assumes "tstep exec t e t'" "t_listener t"
  shows "t_phase t' = Exited \<or> t_listener t' \<and> t_iptables t' = t_iptables t \<and> t_net t' = t_net t"
proof (cases "outside e")
  case True
  then show ?thesis using outside_frame [OF assms(1)] assms(2) by (simp add: own_parts_def)
next
  case False
  with not_outside [OF assms(1)] assms(2) show ?thesis
    by (auto simp: fire_frozen frame_simps cancel_def)
qed

lemma treach_frozen:
  "treach exec t es t' \<Longrightarrow> t_listener t \<Longrightarrow>
   t_phase t' = Exited \<or> t_listener t' \<and> t_iptables t' = t_iptables t \<and> t_net t' = t_net t"
proof (induction rule: treach.induct)
  case start
  then show ?case by simp
next
  case (step es u e t')
  show ?case
  proof (cases "t_phase u = Exited")
    case True
    then have "own_parts t' = own_parts u" using tstep_exited outside_frame step.hyps(2) by blast
    then show ?thesis using True by (simp add: own_parts_def)
  next
    case False
    then show ?thesis using step tstep_frozen [OF step.hyps(2)] by auto
  qed
qed

text \<open>C2: fail-closed. Once the rules are installed, no event short of the cancellation
  that ends the loop removes or changes them: through lost clients, failed logins, network outages and
  reconnects the firewall stays exactly as it was.\<close>

theorem routing_stays_up:
  assumes "treach exec t es t'" "t_listener t" "t_iptables t" "t_phase t' \<noteq> Exited"
  shows "t_iptables t' \<and> t_net t' = t_net t"
  using treach_frozen [OF assms(1,2)] assms(3,4) by blast

lemma cancel_without_rules: "\<not> t_iptables t \<Longrightarrow> t_net (cancel exec cfg t) = t_net t \<and> \<not> t_iptables (cancel exec cfg t)"
  by (simp add: cancel_def teardown_def)

text \<open>C40: if installing the rules failed on the first connect, it is never tried again:
  every later state of the loop, through all reconnects, is without rules, and even the exit of the
  loop runs no cleanup of what the failed attempt left behind.\<close>

theorem failed_apply_is_final:
  assumes "treach exec t es t'" "t_listener t" "\<not> t_iptables t"
  shows "\<not> t_iptables t' \<and> t_net t' = t_net t"
  using assms
proof (induction rule: treach.induct)
  case start
  then show ?case by simp
next
  case (step es u e t')
  have u: "\<not> t_iptables u" "t_net u = t_net t" using step by simp_all
  show ?case
  proof (cases "outside e")
    case True
    then show ?thesis using outside_frame [OF step.hyps(2)] u by (simp add: own_parts_def)
  next
    case False
    then have "t_listener u"
      using treach_frozen [OF step.hyps(1) step.prems(1)] tstep_exited [OF step.hyps(2)] by blast
    then show ?thesis using not_outside [OF step.hyps(2) False] u
      by (auto simp: fire_frozen cancel_without_rules frame_simps)
  qed
qed

section \<open>The firewall over the life of the loop\<close>

text \<open>The events come with one iptables configuration (interfaces and ports are not patched meanwhile).\<close>

fun event_cfg :: "tevent \<Rightarrow> config option" where
  "event_cfg (Fire cfg ri auth) = Some cfg"
| "event_cfg (Died err) = None"
| "event_cfg (Tick cfg ri streams errors) = Some cfg"
| "event_cfg (Cancelled cfg) = Some cfg"
| "event_cfg _ = None"

definition same_rules :: "config \<Rightarrow> tevent \<Rightarrow> bool" where
  "same_rules cfg e = (case event_cfg e of None \<Rightarrow> True | Some c \<Rightarrow> iptables_cfg c = iptables_cfg cfg)"

definition fw_inv :: "('k \<Rightarrow> fw) \<Rightarrow> (string list \<Rightarrow> bool) \<Rightarrow> ipt_config \<Rightarrow> fw \<Rightarrow> 'k tstate \<Rightarrow> bool" where
  "fw_inv view krn ic base t =
     (if t_iptables t then \<exists>ips. installable krn ic ips \<and> vw view (t_net t) = installed krn ic ips base
      else vw view (t_net t) = base)"

lemma sanitize_ipv4_list_ok: "ipv4_list (sanitize_ipv4_list xs)"
  unfolding sanitize_ipv4_list_def by (rule ipv4_list_map_filter)

lemma bring_up_fw:
  assumes doc: "documented exec view krn" and base: "pristine (iptables_cfg cfg) base"
    and inst: "\<And>ips. ipv4_list ips \<Longrightarrow> installable krn (iptables_cfg cfg) ips"
    and inv: "fw_inv view krn (iptables_cfg cfg) base t" "t_iptables t \<longrightarrow> t_listener t"
  shows "fw_inv view krn (iptables_cfg cfg) base (bring_up exec cfg res t)"
proof (cases "t_listener t \<or> \<not> tp_enabled (c_tproxy cfg)")
  case True
  then show ?thesis using inv by (auto simp: bring_up_def fw_inv_def)
next
  case False
  let ?ips = "sanitize_ipv4_list (pr_ips res)"
  have v: "vw view (t_net t) = base" using inv False by (auto simp: fw_inv_def)
  have i: "installable krn (iptables_cfg cfg) ?ips" by (rule inst) (rule sanitize_ipv4_list_ok)
  have "fst (apply_rules exec (iptables_cfg cfg) ?ips (t_net t)) = None \<and>
      vw view (snd (apply_rules exec (iptables_cfg cfg) ?ips (t_net t))) = installed krn (iptables_cfg cfg) ?ips base"
    using apply_view [OF doc i base] v pristine_ours [OF base] by metis
  then show ?thesis
    using False i by (cases "apply_rules exec (iptables_cfg cfg) ?ips (t_net t)")
      (auto simp: bring_up_def fw_inv_def apply_transparent_rules_def)
qed

lemma fire_fw:
  assumes "documented exec view krn" "pristine (iptables_cfg cfg) base"
    and "\<And>ips. ipv4_list ips \<Longrightarrow> installable krn (iptables_cfg cfg) ips"
    and "fw_inv view krn (iptables_cfg cfg) base t" "t_iptables t \<longrightarrow> t_listener t"
  shows "fw_inv view krn (iptables_cfg cfg) base (fire exec cfg ri auth t)"
proof -
  have c: "fw_inv view krn ic base (t\<lparr>t_phase := p\<rparr>) = fw_inv view krn ic base t" for p ic and t :: "'a tstate"
    by (simp add: fw_inv_def)
  have "fw_inv view krn (iptables_cfg cfg) base
      (bring_up exec cfg res (t\<lparr>t_delay := d, t_client := c, t_clients := n, t_status := s\<rparr>))" for res d c n s
    by (rule bring_up_fw) (use assms in \<open>auto simp: fw_inv_def\<close>)
  then show ?thesis
    using assms(4) by (auto simp: fire_def Let_def c split: prod.splits option.splits) (auto simp: fw_inv_def)
qed

lemma cancel_fw:
  assumes doc: "documented exec view krn" and base: "pristine (iptables_cfg cfg) base"
    and inv: "fw_inv view krn (iptables_cfg cfg) base t"
  shows "fw_inv view krn (iptables_cfg cfg) base (cancel exec cfg t)"
proof (cases "t_iptables t")
  case True
  then obtain ips where i: "installable krn (iptables_cfg cfg) ips"
      "vw view (t_net t) = installed krn (iptables_cfg cfg) ips base"
    using inv by (auto simp: fw_inv_def)
  have "vw view (cleanup exec (iptables_cfg cfg) (t_net t)) = base"
    by (rule cleanup_view [OF doc base]) (simp_all only: i(2) installed_ours [OF base i(1)])
  then show ?thesis using True by (simp add: cancel_def teardown_def fw_inv_def cleanup_transparent_rules_def)
next
  case False
  then show ?thesis using inv by (simp add: cancel_def teardown_def fw_inv_def)
qed

lemma treach_fw:
  assumes "treach exec t0 es t" "documented exec view krn" "pristine (iptables_cfg cfg) base"
    and "\<And>ips. ipv4_list ips \<Longrightarrow> installable krn (iptables_cfg cfg) ips"
    and "fw_inv view krn (iptables_cfg cfg) base t0" "tunnel_inv t0" "list_all (same_rules cfg) es"
  shows "fw_inv view krn (iptables_cfg cfg) base t"
  using assms(1,7)
proof (induction rule: treach.induct)
  case start
  show ?case by (rule assms(5))
next
  case (step es u e t')
  have u: "fw_inv view krn (iptables_cfg cfg) base u" "t_iptables u \<longrightarrow> t_listener u"
    using step treach_inv [OF step.hyps(1) assms(6)] by (simp_all add: tunnel_inv_def)
  have e: "same_rules cfg e" using step.prems by simp
  show ?case
  proof (cases "outside e")
    case True
    then show ?thesis using outside_frame [OF step.hyps(2)] u(1) by (simp add: own_parts_def fw_inv_def)
  next
    case False
    from step.hyps(2) False show ?thesis
    proof cases
    case (fire c ri auth)
    then have c: "iptables_cfg c = iptables_cfg cfg" using e by (simp add: same_rules_def)
    show ?thesis using fire_fw [OF assms(2), of c base u ri auth] assms(3,4) u fire(2) unfolding c by simp
  next
    case (died err)
    then show ?thesis using u(1) by (simp add: fw_inv_def lost_def Let_def)
  next
    case (tick c ri streams errors)
    then show ?thesis using u(1) by (auto simp: fw_inv_def tick_def lost_def Let_def)
  next
    case (cancel c)
    then have c: "iptables_cfg c = iptables_cfg cfg" using e by (simp add: same_rules_def)
    show ?thesis using cancel_fw [OF assms(2), of c base u] assms(3) u(1) cancel(2) unfolding c by simp
    qed (simp_all add: outside_def)
  qed
qed

text \<open>C1: where \<open>iptables\<close> behaves as documented and the kernel can install the rules for
  whatever addresses the server resolves to, started on a firewall with nothing of this module in it and no
  bare \<open>-j ACCEPT\<close> rule in filter FORWARD, and as long as the part of the configuration the rules are made from
  (ports, chain prefix, hotspot switches and interfaces) is not patched while the loop runs, every
  state of the loop has that firewall untouched or with exactly the module's rules on top, and when
  the loop has exited the firewall is the original one.\<close>

theorem tunnel_restores_firewall:
  assumes "documented exec view krn" "pristine (iptables_cfg cfg) (vw view net)"
    and "\<forall>ips. ipv4_list ips \<longrightarrow> installable krn (iptables_cfg cfg) ips"
    and "flags_are False s" "list_all (same_rules cfg) es" "treach exec (tunnel_start s net) es t"
  shows "(vw view (t_net t) = vw view net \<or>
      t_iptables t \<and> (\<exists>ips. vw view (t_net t) = installed krn (iptables_cfg cfg) ips (vw view net))) \<and>
     (if t_phase t = Exited then vw view (t_net t) = vw view net else True)"
proof -
  have i: "tunnel_inv (tunnel_start s net)" by (rule tunnel_start_inv [OF assms(4)])
  have "fw_inv view krn (iptables_cfg cfg) (vw view net) t"
    by (rule treach_fw [OF assms(6,1,2) _ _ i assms(5)]) (use assms(3) in \<open>auto simp: fw_inv_def tunnel_start_def\<close>)
  moreover have "tunnel_inv t" by (rule treach_inv [OF assms(6) i])
  ultimately show ?thesis by (auto simp: fw_inv_def tunnel_inv_def split: if_splits)
qed

section \<open>A concrete run\<close>

definition blank_route :: route_info where
  "blank_route = \<lparr>ri_online = True, ri_raw = [], ri_iface = [], ri_gw = [], ri_src = []\<rparr>"

definition blank_probe :: probe_result where
  "blank_probe = \<lparr>pr_banner = [], pr_statuses = [], pr_preview = [], pr_dial = [], pr_method = [], pr_ips = []\<rparr>"

definition blank_status :: status where
  "blank_status = \<lparr>s_state = ''STARTING'', s_connected = False, s_auth = False, s_ready = False, s_last_error = [],
     s_last_event = [], s_route = blank_route, s_applied = False, s_hotspot = False, s_socks = False, s_transparent = False, s_probe = blank_probe,
     s_pool = \<lparr>po_size = 0, po_healthy = 0, po_reconnecting = 0, po_streams = 0, po_max = 0\<rparr>\<rparr>"

definition sample_events :: "tevent list" where
  "sample_events = [Fire sample_config blank_route (blank_probe, None), Died None,
     Fire sample_config blank_route (blank_probe, Some ''auth''), Cancelled sample_config]"

lemma treach_Cons: "tstep exec t e t' \<Longrightarrow> treach exec t' es u \<Longrightarrow> treach exec t (e # es) u"
proof (rotate_tac, induction rule: treach.induct)
  case start
  then show ?case using treach.step [OF treach.start] by fastforce
next
  case (step es u e' u')
  then show ?case using treach.step [of exec t "e # es" u e' u'] by simp
qed

lemma ipv4_list_not_j: "ipv4_list ips \<Longrightarrow> ''-j'' \<notin> trim_space ` set ips"
proof
  assume i: "ipv4_list ips" and "''-j'' \<in> trim_space ` set ips"
  then obtain s where s: "s \<in> set ips" "trim_space s = ''-j''" by auto
  then have c: "canonical_v4 s = Some s" using i by (auto simp: ipv4_list_def list_all_iff)
  then have "s = ''-j''" using s(2) canonical_v4_idem by simp
  moreover obtain q where "s = v4_string q" using canonical_v4_form [OF c] by blast
  ultimately have "CHR ''-'' \<in> set (v4_string q)" by simp
  then show False using v4_string_chars by (fastforce simp: is_digit_def)
qed

lemma installable_everything: "ipv4_list ips \<Longrightarrow> ''-j'' \<notin> set (ic_ifaces ic) \<Longrightarrow> installable (\<lambda>_. True) ic ips"
  using ipv4_list_not_j by (simp add: installable_def list_all_iff)

lemma sample_run: "\<exists>t. treach exec (tunnel_start blank_status net) sample_events t \<and> t_phase t = Exited"
proof -
  let ?a = "fire exec sample_config blank_route (blank_probe, None) (tunnel_start blank_status net)"
  let ?c = "fire exec sample_config blank_route (blank_probe, Some ''auth'') (lost None ?a)"
  have "tstep exec (tunnel_start blank_status net) (Fire sample_config blank_route (blank_probe, None)) ?a"
    by (rule tstep.fire) (simp add: tunnel_start_def)
  moreover have "tstep exec ?a (Died None) (lost None ?a)"
    by (rule tstep.died) (simp add: fire_def blank_route_def)
  moreover have "tstep exec (lost None ?a) (Fire sample_config blank_route (blank_probe, Some ''auth'')) ?c"
    by (rule tstep.fire) (simp add: lost_def Let_def)
  moreover have "tstep exec ?c (Cancelled sample_config) (cancel exec sample_config ?c)"
    by (rule tstep.cancel) (simp add: lost_def Let_def fire_def [of _ _ _ "(blank_probe, Some e)" for e] blank_route_def)
  ultimately have "treach exec (tunnel_start blank_status net) sample_events (cancel exec sample_config ?c)"
    unfolding sample_events_def by (blast intro: treach_Cons treach.start)
  moreover have "t_phase (cancel exec sample_config ?c) = Exited" by (simp add: cancel_def)
  ultimately show ?thesis by blast
qed

lemma blank_flags: "flags_are False blank_status"
  by (simp add: flags_are_def blank_status_def)

theorem tunnel_state_consistent_witness:
  "\<exists>t. treach (sim_exec (\<lambda>_. True)) (tunnel_start blank_status bare_state) sample_events t \<and> \<not> t_iptables t"
  using sample_run tunnel_state_consistent [OF blank_flags] by metis

theorem tunnel_restores_firewall_witness:
  "\<exists>t. treach (sim_exec (\<lambda>_. True)) (tunnel_start blank_status bare_state) sample_events t \<and>
     vw id (t_net t) = vw id bare_state"
proof -
  have "''-j'' \<notin> set (ic_ifaces (iptables_cfg sample_config))" by (simp add: iptables_cfg_def sample_config_def)
  then have "\<forall>ips. ipv4_list ips \<longrightarrow> installable (\<lambda>_. True) (iptables_cfg sample_config) ips"
    using installable_everything by blast
  moreover have "list_all (same_rules sample_config) sample_events"
    by (simp add: sample_events_def same_rules_def)
  ultimately show ?thesis
    using sample_run tunnel_restores_firewall [OF documented_sim sample_pristine _ blank_flags] by metis
qed

definition served :: "fw tstate" where
  "served = (tunnel_start blank_status bare_state)\<lparr>t_phase := Serving, t_listener := True, t_iptables := True\<rparr>"

theorem routing_stays_up_witness:
  "\<exists>t'. treach (sim_exec (\<lambda>_. True)) served [Died None] t' \<and> t_net t' = bare_state"
proof -
  have "tstep (sim_exec (\<lambda>_. True)) served (Died None) (lost None served)"
    by (rule tstep.died) (simp add: served_def)
  then have r: "treach (sim_exec (\<lambda>_. True)) served [Died None] (lost None served)"
    by (rule treach_Cons [OF _ treach.start])
  have "t_phase (lost None served) \<noteq> Exited" "t_listener served" "t_iptables served"
    by (simp_all add: lost_def Let_def served_def)
  then have "t_net (lost None served) = t_net served" using routing_stays_up [OF r] by blast
  then show ?thesis using r by (intro exI [of _ "lost None served"]) (simp add: served_def tunnel_start_def)
qed

theorem failed_apply_is_final_witness:
  "\<exists>t'. treach (sim_exec (\<lambda>_. True)) (served\<lparr>t_iptables := False\<rparr>) [Cancelled sample_config] t' \<and> t_net t' = bare_state"
proof -
  let ?t = "served\<lparr>t_iptables := False\<rparr>"
  have "tstep (sim_exec (\<lambda>_. True)) ?t (Cancelled sample_config) (cancel (sim_exec (\<lambda>_. True)) sample_config ?t)"
    by (rule tstep.cancel) (simp add: served_def)
  then have r: "treach (sim_exec (\<lambda>_. True)) ?t [Cancelled sample_config] (cancel (sim_exec (\<lambda>_. True)) sample_config ?t)"
    by (rule treach_Cons [OF _ treach.start])
  have "t_net (cancel (sim_exec (\<lambda>_. True)) sample_config ?t) = t_net ?t"
    using failed_apply_is_final [OF r] by (simp add: served_def)
  then show ?thesis using r by (intro exI [of _ "cancel (sim_exec (\<lambda>_. True)) sample_config ?t"])
      (simp add: served_def tunnel_start_def)
qed

section \<open>Back-off and keepalive\<close>

text \<open>After n+1 failed logins in a row from a fresh loop the delay is 2^n seconds,
  capped at 30.\<close>

theorem backoff_doubles_to_bound:
  "((\<lambda>d. next_delay d (seconds 1) (seconds 30)) ^^ Suc n) 0 = min (seconds (2 ^ n)) (seconds 30)"
proof (induction n)
  case 0
  then show ?case by (simp add: next_delay_def seconds_def)
next
  case (Suc n)
  have "(1::int) \<le> 2 ^ n" by simp
  then have "next_delay (min (seconds (2 ^ n)) (seconds 30)) (seconds 1) (seconds 30) = min (seconds (2 ^ Suc n)) (seconds 30)"
    by (auto simp: next_delay_def seconds_def Let_def min_def)
  then show ?case unfolding funpow.simps(2) comp_def Suc.IH [unfolded funpow.simps(2) comp_def] .
qed

lemma keep_alive_runs:
  "m \<le> 2 \<Longrightarrow> (case keep_alive m os of
     None \<Rightarrow> \<not> sublist [False, False, False] (replicate m False @ os)
   | Some i \<Rightarrow> i < length os \<and> suffix [False, False, False] (replicate m False @ take (Suc i) os) \<and>
              \<not> sublist [False, False, False] (replicate m False @ take i os))"
proof (induction m os rule: keep_alive.induct)
  case (1 missed)
  then have "missed = 0 \<or> missed = 1 \<or> missed = 2" by auto
  then show ?case by (auto simp: numeral_2_eq_2 sublist_Cons_right)
next
  case (2 missed answered os)
  then have m: "missed = 0 \<or> missed = 1 \<or> missed = 2" by auto
  show ?case
  proof (cases answered)
    case True
    note ih = 2(1) [OF True le0, unfolded replicate_0 append_Nil]
    then show ?thesis using True m
      by (auto simp: numeral_2_eq_2 sublist_Cons_right suffix_Cons split: option.splits)
  next
    case False
    show ?thesis
    proof (cases "missed = 2")
      case True
      then show ?thesis using False by (simp add: numeral_2_eq_2 sublist_Cons_right)
    next
      case no2: False
      then have "Suc missed \<le> 2" using m by auto
      with 2(2) False no2 m have "case keep_alive (Suc missed) os of
         None \<Rightarrow> \<not> sublist [False, False, False] (replicate (Suc missed) False @ os)
       | Some i \<Rightarrow> i < length os \<and> suffix [False, False, False] (replicate (Suc missed) False @ take (Suc i) os) \<and>
                  \<not> sublist [False, False, False] (replicate (Suc missed) False @ take i os)"
        by simp
      moreover have "replicate (Suc missed) False @ xs = replicate missed False @ False # xs" for xs
        by (simp add: replicate_app_Cons_same)
      ultimately show ?thesis using False no2 m by (auto split: option.splits)
    qed
  qed
qed

text \<open>The keepalive goroutine closes the client at the end of the first run
  of three consecutive unanswered requests, and at no other point.\<close>

theorem keepalive_closes_on_three_misses:
  "case keep_alive 0 os of
     None \<Rightarrow> \<not> sublist [False, False, False] os
   | Some i \<Rightarrow> i < length os \<and> suffix [False, False, False] (take (Suc i) os) \<and>
              \<not> sublist [False, False, False] (take i os)"
  by (rule keep_alive_runs [of 0 os, OF le0, unfolded replicate_0 append_Nil])

end
