(* ===== verification/ByteIO.thy ===== *)
theory ByteIO
  imports GoNet
begin

text \<open>
  Connections and the reads and writes the protocol code makes on them. A \<open>conn\<close> is what one
  side of a \<open>net.Conn\<close> can observe: the bytes it will still receive, the error that follows
  them (\<open>EOF\<close>, a timeout), the writes it has made, and which of its writes fail. An operation that can
  fail is an \<open>'a io\<close>; \<open>io_bind\<close> is the early return on \<open>err != nil\<close>. Deadlines are not part of
  a connection: an expired deadline is one of the errors.
\<close>

section \<open>Connections\<close>

record conn =
  cn_in :: "byte list"
  cn_end :: string
  cn_out :: "byte list list"
  cn_werr :: "nat \<Rightarrow> string option"

type_synonym 'a io = "conn \<Rightarrow> 'a result \<times> conn"

definition io_return :: "'a \<Rightarrow> 'a io" where
  "io_return x c = (Ok x, c)"

definition io_fail :: "string \<Rightarrow> 'a io" where
  "io_fail e c = (Err e, c)"

definition io_bind :: "'a io \<Rightarrow> ('a \<Rightarrow> 'b io) \<Rightarrow> 'b io" where
  "io_bind m f c = (case m c of (Inl e, c') \<Rightarrow> (Err e, c') | (Inr x, c') \<Rightarrow> f x c')"

text \<open>The result of an operation is ignored (\<open>_ = ...\<close>), then the call fails.\<close>

definition io_then_fail :: "'a io \<Rightarrow> string \<Rightarrow> 'b io" where
  "io_then_fail m e c = (Err e, snd (m c))"

text \<open>\<open>io.ReadFull(c, buf[:n])\<close>: a short read is \<open>unexpected EOF\<close> unless nothing was read.\<close>

definition read_full :: "nat \<Rightarrow> byte list io" where
  "read_full n c =
     (if n \<le> length (cn_in c) then (Ok (take n (cn_in c)), c\<lparr>cn_in := drop n (cn_in c)\<rparr>)
      else (Err (if cn_in c \<noteq> [] \<and> cn_end c = ''EOF'' then ''unexpected EOF'' else cn_end c), c\<lparr>cn_in := []\<rparr>))"

text \<open>\<open>io.CopyN(io.Discard, r, n)\<close>: a short copy reports the error of the connection.\<close>

definition discard :: "nat \<Rightarrow> unit io" where
  "discard n c =
     (if n \<le> length (cn_in c) then (Ok (), c\<lparr>cn_in := drop n (cn_in c)\<rparr>)
      else (Err (cn_end c), c\<lparr>cn_in := []\<rparr>))"

definition conn_write :: "byte list \<Rightarrow> unit io" where
  "conn_write b c =
     (case cn_werr c (length (cn_out c)) of
        Some e \<Rightarrow> (Err e, c)
      | None \<Rightarrow> (Ok (), c\<lparr>cn_out := cn_out c @ [b]\<rparr>))"

lemma io_bind_simps [simp]:
  "m c = (Inl e, c') \<Longrightarrow> io_bind m f c = (Err e, c')"
  "m c = (Inr x, c') \<Longrightarrow> io_bind m f c = f x c'"
  by (simp_all add: io_bind_def)

lemma io_return_simp [simp]: "io_return x c = (Ok x, c)"
  by (simp add: io_return_def)

lemma io_fail_simp [simp]: "io_fail e c = (Err e, c)"
  by (simp add: io_fail_def)

lemma io_then_fail_simp [simp]: "io_then_fail m e c = (Err e, snd (m c))"
  by (simp add: io_then_fail_def)

lemma io_bind_ok_iff: "fst (io_bind m f c) = Ok y \<longleftrightarrow> (\<exists>x c'. m c = (Ok x, c') \<and> fst (f x c') = Ok y)"
  by (cases "m c") (auto simp: io_bind_def split: sum.splits)

lemma read_full_append [simp]:
  "n = length a \<Longrightarrow> read_full n \<lparr>cn_in = a @ b, cn_end = e, cn_out = w, cn_werr = f\<rparr> =
     (Ok a, \<lparr>cn_in = b, cn_end = e, cn_out = w, cn_werr = f\<rparr>)"
  by (simp add: read_full_def)

lemma read_full_ok:
  "read_full n c = (Inr a, c') \<longleftrightarrow> (length a = n \<and> cn_in c = a @ cn_in c' \<and> c' = c\<lparr>cn_in := cn_in c'\<rparr>)"
proof
  assume "read_full n c = (Inr a, c')"
  then show "length a = n \<and> cn_in c = a @ cn_in c' \<and> c' = c\<lparr>cn_in := cn_in c'\<rparr>"
    by (auto simp: read_full_def split: if_splits)
next
  assume a: "length a = n \<and> cn_in c = a @ cn_in c' \<and> c' = c\<lparr>cn_in := cn_in c'\<rparr>"
  then have "cn_in c = a @ cn_in c'" "n = length a" by simp_all
  then have "read_full n c = (Inr a, c\<lparr>cn_in := cn_in c'\<rparr>)" by (simp add: read_full_def)
  with a show "read_full n c = (Inr a, c')" by simp
qed

lemma discard_append [simp]:
  "n = length a \<Longrightarrow> discard n \<lparr>cn_in = a @ b, cn_end = e, cn_out = w, cn_werr = f\<rparr> =
     (Ok (), \<lparr>cn_in = b, cn_end = e, cn_out = w, cn_werr = f\<rparr>)"
  by (simp add: discard_def)

text \<open>The interface the protocol code reads through: a source that hands out its pending bytes in order.\<close>

locale byte_source =
  fixes take_bytes :: "nat \<Rightarrow> 's \<Rightarrow> byte list result \<times> 's"
    and pending :: "'s \<Rightarrow> byte list"
  assumes take_ok: "n \<le> length (pending s) \<Longrightarrow>
      \<exists>s'. take_bytes n s = (Ok (take n (pending s)), s') \<and> pending s' = drop n (pending s)"
    and take_short: "length (pending s) < n \<Longrightarrow> \<exists>e s'. take_bytes n s = (Err e, s') \<and> pending s' = []"
begin

lemma take_succeeds: "is_ok (fst (take_bytes n s)) \<longleftrightarrow> n \<le> length (pending s)"
  using take_ok [of n s] take_short [of s n] by (cases "n \<le> length (pending s)") auto

text \<open>Two reads in a row give the bytes in order, and succeed exactly when one read of both would.\<close>

lemma take_twice:
  assumes "take_bytes m s = (Ok a, s')" "take_bytes n s' = (Ok b, s'')"
  shows "fst (take_bytes (m + n) s) = Ok (a @ b)" "pending s = a @ b @ pending s''"
proof -
  have m: "m \<le> length (pending s)" using assms(1) take_succeeds [of m s] by simp
  with take_ok [of m s] assms(1) have a: "a = take m (pending s)" "pending s' = drop m (pending s)" by auto
  have n: "n \<le> length (pending s')" using assms(2) take_succeeds [of n s'] by simp
  with take_ok [of n s'] assms(2) have b: "b = take n (pending s')" "pending s'' = drop n (pending s')" by auto
  have "m + n \<le> length (pending s)" using m n a by simp
  with take_ok [of "m + n" s] a b show "fst (take_bytes (m + n) s) = Ok (a @ b)" by (auto simp: take_add)
  show "pending s = a @ b @ pending s''" using a b by (metis append_take_drop_id)
qed

end

interpretation wire: byte_source read_full cn_in
  by unfold_locales (auto simp: read_full_def)

section \<open>Bytes, text and 16-bit numbers\<close>

definition str_bytes :: "string \<Rightarrow> byte list" where
  "str_bytes s = map (\<lambda>c. of_nat (of_char c)) s"

definition bytes_str :: "byte list \<Rightarrow> string" where
  "bytes_str b = map (\<lambda>x. char_of (unat x)) b"

lemma unat_char_byte [simp]: "unat (of_nat (of_char c) :: byte) = of_char c"
  by (simp add: unat_of_nat)

lemma bytes_str_str_bytes [simp]: "bytes_str (str_bytes s) = s"
  by (simp add: bytes_str_def str_bytes_def map_idI)

lemma unat_byte_less [simp]: "unat (b :: byte) < 256"
  using unsigned_less [of b, where ?'a = nat] by simp

lemma str_bytes_bytes_str [simp]: "str_bytes (bytes_str b) = b"
  by (simp add: bytes_str_def str_bytes_def map_idI)

lemma length_str_bytes [simp]: "length (str_bytes s) = length s"
  by (simp add: str_bytes_def)

lemma length_bytes_str [simp]: "length (bytes_str s) = length s"
  by (simp add: bytes_str_def)

text \<open>\<open>int(hi)<<8 | int(lo)\<close>, \<open>binary.BigEndian.Uint16\<close> and their inverses.\<close>

definition be16 :: "byte \<Rightarrow> byte \<Rightarrow> nat" where
  "be16 hi lo = (push_bit 8 (unat hi) OR unat lo)"

definition be16_bytes :: "int \<Rightarrow> byte list" where
  "be16_bytes n = [word_of_int (drop_bit 8 n), word_of_int n]"

lemma be16_sum: "be16 hi lo = 256 * unat hi + unat lo"
proof -
  have "push_bit 8 (unat hi) AND unat lo = 0"
  proof (rule bit_eqI)
    fix n
    have "unat lo < 2 ^ 8" using unat_byte_less [of lo] by simp
    then have "n < 8" if "bit (unat lo) n"
      using that by (metis bit_take_bit_iff take_bit_nat_eq_self_iff)
    then show "bit (push_bit 8 (unat hi) AND unat lo) n = bit (0::nat) n"
      by (auto simp: bit_and_iff bit_push_bit_iff)
  qed
  then have "push_bit 8 (unat hi) OR unat lo = push_bit 8 (unat hi) + unat lo"
    by (simp add: disjunctive_add_eq_or)
  then show ?thesis by (simp add: be16_def push_bit_eq_mult)
qed

lemma be16_less: "be16 hi lo < 65536"
  unfolding be16_sum using unat_byte_less [of hi] unat_byte_less [of lo] by linarith

lemma length_be16_bytes [simp]: "length (be16_bytes n) = 2"
  by (simp add: be16_bytes_def)

lemma be16_round:
  assumes "0 \<le> n" "n < 65536"
  shows "be16 (be16_bytes n ! 0) (be16_bytes n ! 1) = nat n"
proof -
  have "unat (word_of_int (drop_bit 8 n) :: byte) = nat (n div 256)"
    using assms by (simp add: drop_bit_eq_div unat_eq_nat_uint uint_word_of_int)
  moreover have "unat (word_of_int n :: byte) = nat (n mod 256)"
    by (simp add: unat_eq_nat_uint uint_word_of_int)
  ultimately have "be16 (be16_bytes n ! 0) (be16_bytes n ! 1) = 256 * nat (n div 256) + nat (n mod 256)"
    by (simp add: be16_sum be16_bytes_def)
  moreover have "256 * nat (n div 256) + nat (n mod 256) = nat n"
    using assms by (simp add: nat_div_distrib nat_mod_distrib)
  ultimately show ?thesis by simp
qed

lemma be16_bytes_inverse: "be16_bytes (int (be16 x y)) = [x, y]"
proof -
  have "drop_bit 8 (256 * uint x + uint y) = uint x"
    using uint_lt2p [of y] uint_ge_0 [of y] by (simp add: drop_bit_eq_div)
  moreover have "word_of_int (256 * uint x + uint y) = y"
  proof -
    have z: "(256 :: byte) = 0" by simp
    have "word_of_int (256 * uint x + uint y) = 256 * x + y" by simp
    also have "\<dots> = y" unfolding z by simp
    finally show ?thesis .
  qed
  ultimately show ?thesis by (simp add: be16_bytes_def be16_sum)
qed

end
