(* ===== verification/Socks.thy ===== *)
theory Socks
  imports ByteIO DaemonConfig
begin

text \<open>
  The SOCKS5 protocol of \<open>cmd/sshcustomd/main.go\<close>: the server side of the local listener
  (\<open>socks5Handshake\<close>, \<open>socks5Reply\<close>) and the client side the daemon itself uses to look up the public IP
  through the tunnel (\<open>fetchHTTPViaLocalSOCKS\<close>, \<open>readSOCKS5ConnectReply\<close>). Both are \<open>io\<close> actions
  on a connection; the theory proves that they speak the same language.
\<close>

section \<open>The server\<close>

definition socks5_reply :: "byte \<Rightarrow> unit io" where
  "socks5_reply rep = conn_write [0x05, rep, 0x00, 0x01, 0, 0, 0, 0, 0, 0]"

text \<open>The address part of a request, by address type.\<close>

definition socks5_address :: "byte \<Rightarrow> string io" where
  "socks5_address atyp =
     (if atyp = 0x01 then
        io_bind (read_full 4) (\<lambda>b. io_return (ip_string (ipv4 (b ! 0) (b ! 1) (b ! 2) (b ! 3))))
      else if atyp = 0x03 then
        io_bind (read_full 1) (\<lambda>b.
          let l = unat (b ! 0) in
          if l \<le> 0 then io_fail ''empty domain''
          else io_bind (read_full l) (\<lambda>b. io_return (bytes_str b)))
      else if atyp = 0x04 then io_bind (read_full 16) (\<lambda>b. io_return (ip_string b))
      else io_then_fail (socks5_reply 0x08) (''unsupported address type '' @ nat_dec (unat atyp)))"

definition socks5_request :: "string io" where
  "socks5_request =
     io_bind (read_full 4) (\<lambda>b.
       if b ! 0 \<noteq> 0x05 then io_fail (''bad request socks version '' @ nat_dec (unat (b ! 0)))
       else if b ! 1 \<noteq> 0x01 then
         io_then_fail (socks5_reply 0x07) (''unsupported command '' @ nat_dec (unat (b ! 1)))
       else
         io_bind (socks5_address (b ! 3)) (\<lambda>host.
           io_bind (read_full 2) (\<lambda>b.
             io_return (join_host_port host (itoa (int (be16 (b ! 0) (b ! 1))))))))"

definition socks5_handshake :: "string io" where
  "socks5_handshake =
     io_bind (read_full 2) (\<lambda>b.
       if b ! 0 \<noteq> 0x05 then io_fail (''unsupported socks version '' @ nat_dec (unat (b ! 0)))
       else
         let nmethods = unat (b ! 1) in
         if nmethods < 1 \<or> 255 < nmethods then io_fail ''invalid methods length''
         else
           io_bind (read_full nmethods) (\<lambda>_.
             io_bind (conn_write [0x05, 0x00]) (\<lambda>_. socks5_request)))"

section \<open>The client\<close>

definition read_socks5_connect_reply :: "unit io" where
  "read_socks5_connect_reply =
     io_bind (read_full 4) (\<lambda>head.
       if head ! 0 \<noteq> 0x05 then io_fail (''invalid SOCKS5 version '' @ nat_dec (unat (head ! 0)))
       else if head ! 1 \<noteq> 0x00 then io_fail (''SOCKS5 connect failed code='' @ nat_dec (unat (head ! 1)))
       else
         io_bind
           (if head ! 3 = 0x01 then io_return 4
            else if head ! 3 = 0x03 then io_bind (read_full 1) (\<lambda>l. io_return (unat (l ! 0)))
            else if head ! 3 = 0x04 then io_return 16
            else io_fail (''unsupported SOCKS5 address type '' @ nat_dec (unat (head ! 3))))
           (\<lambda>skip. io_bind (if 0 < skip then discard skip else io_return ()) (\<lambda>_. discard 2)))"

definition connect_request :: "string \<Rightarrow> int \<Rightarrow> byte list" where
  "connect_request host port =
     [0x05, 0x01, 0x00, 0x03, of_nat (length host)] @ str_bytes host @ be16_bytes port"

text \<open>\<open>%v\<close> of a byte slice.\<close>

definition show_bytes :: "byte list \<Rightarrow> string" where
  "show_bytes b = ''['' @ str_join '' '' (map (nat_dec \<circ> unat) b) @ '']''"

definition socks5_connect :: "string \<Rightarrow> int \<Rightarrow> unit io" where
  "socks5_connect host port =
     io_bind (conn_write [0x05, 0x01, 0x00]) (\<lambda>_.
       io_bind (read_full 2) (\<lambda>reply.
         if reply ! 0 \<noteq> 0x05 \<or> reply ! 1 \<noteq> 0x00 then
           io_fail (''SOCKS5 auth rejected: '' @ show_bytes reply)
         else if 255 < length host then io_fail ''SOCKS5 host is too long''
         else
           io_bind (conn_write (connect_request host port)) (\<lambda>_. read_socks5_connect_reply)))"

text \<open>
  The HTTP exchange over the connection. \<open>parse\<close> stands for \<open>http.ReadResponse\<close> with the read of the
  body: it turns the bytes that follow into the status code, the status line and the body.
\<close>

definition http_get :: "string \<Rightarrow> string \<Rightarrow> string \<Rightarrow> string" where
  "http_get version path host =
     ''GET '' @ path @ '' HTTP/1.1'' @ crlf @ ''Host: '' @ host @ crlf @
     ''User-Agent: SSHCustom-Magisk/'' @ version @ crlf @ ''Accept: application/json'' @ crlf @
     ''Connection: close'' @ crlf @ crlf"

definition fetch_http_via_socks ::
  "(byte list \<Rightarrow> (int \<times> string \<times> byte list) result) \<Rightarrow> string \<Rightarrow> string \<Rightarrow> int \<Rightarrow> string \<Rightarrow> byte list io" where
  "fetch_http_via_socks parse version host port path =
     io_bind (socks5_connect host port) (\<lambda>_.
       io_bind (conn_write (str_bytes (http_get version path host))) (\<lambda>_ c.
         case parse (cn_in c) of
           Inl e \<Rightarrow> (Err e, c)
         | Inr (code, status_line, body) \<Rightarrow>
             if code < 200 \<or> 300 \<le> code then (Err (''public IP lookup over tunnel returned '' @ status_line), c)
             else (Ok (take (64 * 1024) body), c)))"

section \<open>What the server accepts\<close>

text \<open>The requests of RFC 1928 that the daemon serves, as bytes, with the target they name.\<close>

inductive address_form :: "byte \<Rightarrow> byte list \<Rightarrow> string \<Rightarrow> bool" where
  v4: "length b = 4 \<Longrightarrow> address_form 0x01 b (v4_string b)"
| name: "0 < unat l \<Longrightarrow> length b = unat l \<Longrightarrow> address_form 0x03 (l # b) (bytes_str b)"
| v6: "length b = 16 \<Longrightarrow> address_form 0x04 b (ip_string b)"

definition greeting_form :: "byte list \<Rightarrow> bool" where
  "greeting_form b = (\<exists>n ms. b = 0x05 # n # ms \<and> 0 < unat n \<and> length ms = unat n)"

definition request_form :: "byte list \<Rightarrow> string \<Rightarrow> bool" where
  "request_form b target =
     (\<exists>rsv atyp addr host hi lo. b = [0x05, 0x01, rsv, atyp] @ addr @ [hi, lo] \<and>
        address_form atyp addr host \<and> target = join_host_port host (itoa (int (be16 hi lo))))"

lemma length2: "length b = 2 \<longleftrightarrow> (\<exists>x y. b = [x, y])"
  by (auto simp: numeral_eq_Suc length_Suc_conv)

lemma length4: "length b = 4 \<longleftrightarrow> (\<exists>x y z w. b = [x, y, z, w])"
  by (auto simp: numeral_eq_Suc length_Suc_conv)

lemma length1: "length b = Suc 0 \<longleftrightarrow> (\<exists>x. b = [x])"
  by (auto simp: length_Suc_conv)

lemma io_bind_read_ok:
  "io_bind (read_full n) f c = (Inr y, c') \<longleftrightarrow>
     (\<exists>a r. length a = n \<and> cn_in c = a @ r \<and> f a (c\<lparr>cn_in := r\<rparr>) = (Inr y, c'))"
proof
  assume l: "io_bind (read_full n) f c = (Inr y, c')"
  then have n: "n \<le> length (cn_in c)" by (auto simp: read_full_def io_bind_def split: if_splits)
  with l have "f (take n (cn_in c)) (c\<lparr>cn_in := drop n (cn_in c)\<rparr>) = (Inr y, c')" by (simp add: read_full_def)
  with n show "\<exists>a r. length a = n \<and> cn_in c = a @ r \<and> f a (c\<lparr>cn_in := r\<rparr>) = (Inr y, c')"
    by (intro exI [of _ "take n (cn_in c)"] exI [of _ "drop n (cn_in c)"]) simp
next
  assume "\<exists>a r. length a = n \<and> cn_in c = a @ r \<and> f a (c\<lparr>cn_in := r\<rparr>) = (Inr y, c')"
  then obtain a r where a: "length a = n" "cn_in c = a @ r" "f a (c\<lparr>cn_in := r\<rparr>) = (Inr y, c')" by blast
  then have "read_full n c = (Inr a, c\<lparr>cn_in := r\<rparr>)" by (simp add: read_full_def)
  with a(3) show "io_bind (read_full n) f c = (Inr y, c')" by simp
qed

text \<open>What a successful action has done to its connection: consumed a prefix, appended writes.\<close>

definition consumed :: "conn \<Rightarrow> byte list \<Rightarrow> byte list list \<Rightarrow> conn \<Rightarrow> bool" where
  "consumed c b w c' = (cn_in c = b @ cn_in c' \<and> c' = c\<lparr>cn_in := cn_in c', cn_out := cn_out c @ w\<rparr>)"

lemma consumed_Nil [simp]: "consumed c [] [] c' \<longleftrightarrow> c' = c"
  by (cases c, cases c') (auto simp: consumed_def)

lemma consumed_append: "consumed c (a @ b) (w @ v) c' \<longleftrightarrow> (\<exists>c1. consumed c a w c1 \<and> consumed c1 b v c')"
proof
  assume "consumed c (a @ b) (w @ v) c'"
  then have "consumed c a w (c\<lparr>cn_in := b @ cn_in c', cn_out := cn_out c @ w\<rparr>)"
    "consumed (c\<lparr>cn_in := b @ cn_in c', cn_out := cn_out c @ w\<rparr>) b v c'"
    by (simp_all add: consumed_def)
  then show "\<exists>c1. consumed c a w c1 \<and> consumed c1 b v c'" by blast
next
  assume "\<exists>c1. consumed c a w c1 \<and> consumed c1 b v c'"
  then obtain c1 where "consumed c a w c1" "consumed c1 b v c'" by blast
  then show "consumed c (a @ b) (w @ v) c'"
    by (cases c, cases c1, cases c') (simp add: consumed_def)
qed

lemma consumed_reads: "consumed c a [] c1 \<Longrightarrow> consumed c1 b w c' \<Longrightarrow> consumed c (a @ b) w c'"
  using consumed_append [of c a b "[]" w c'] by auto

lemma consumed_reads_split: "consumed c (a @ b) w c' \<Longrightarrow> \<exists>c1. consumed c a [] c1 \<and> consumed c1 b w c'"
  using consumed_append [of c a b "[]" w c'] by auto

lemma consumed_write_split: "consumed c b (v # w) c' \<Longrightarrow> \<exists>c1. consumed c [] [v] c1 \<and> consumed c1 b w c'"
  using consumed_append [of c "[]" b "[v]" w c'] by auto

lemma consumed_write: "consumed c [] [v] c1 \<Longrightarrow> consumed c1 b w c' \<Longrightarrow> consumed c b (v # w) c'"
  using consumed_append [of c "[]" b "[v]" w c'] by auto

lemma read_then_ok:
  "io_bind (read_full n) f c = (Inr y, c') \<longleftrightarrow> (\<exists>a c1. length a = n \<and> consumed c a [] c1 \<and> f a c1 = (Inr y, c'))"
proof
  assume "io_bind (read_full n) f c = (Inr y, c')"
  then obtain a r where "length a = n" "cn_in c = a @ r" "f a (c\<lparr>cn_in := r\<rparr>) = (Inr y, c')"
    by (auto simp: io_bind_read_ok)
  then show "\<exists>a c1. length a = n \<and> consumed c a [] c1 \<and> f a c1 = (Inr y, c')"
    by (intro exI [of _ a] exI [of _ "c\<lparr>cn_in := r\<rparr>"]) (simp add: consumed_def)
next
  assume "\<exists>a c1. length a = n \<and> consumed c a [] c1 \<and> f a c1 = (Inr y, c')"
  then obtain a c1 where a: "length a = n" "consumed c a [] c1" "f a c1 = (Inr y, c')" by blast
  then have "cn_in c = a @ cn_in c1" "c\<lparr>cn_in := cn_in c1\<rparr> = c1" by (simp_all add: consumed_def)
  with a show "io_bind (read_full n) f c = (Inr y, c')" by (auto simp: io_bind_read_ok)
qed

text \<open>Writes succeed on this connection from now on.\<close>

definition writable :: "conn \<Rightarrow> bool" where
  "writable c = (cn_werr c = (\<lambda>_. None))"

lemma writable_consumed: "consumed c b w c' \<Longrightarrow> writable c' = writable c"
  by (cases c, cases c') (auto simp: consumed_def writable_def)

lemma conn_write_ok: "conn_write b c = (Inr x, c') \<Longrightarrow> consumed c [] [b] c'"
  by (auto simp: conn_write_def consumed_def split: option.splits)

lemma conn_write_writable: "writable c \<Longrightarrow> \<exists>c'. conn_write b c = (Inr (), c') \<and> consumed c [] [b] c'"
  by (auto simp: conn_write_def consumed_def writable_def)

lemma consumed_fun: "consumed c b w c1 \<Longrightarrow> consumed c b w c2 \<Longrightarrow> c1 = c2"
  by (cases c, cases c1, cases c2) (auto simp: consumed_def)

lemma write_then_ok:
  assumes "writable c"
  shows "io_bind (conn_write b) f c = (Inr y, c') \<longleftrightarrow> (\<exists>c1. consumed c [] [b] c1 \<and> f () c1 = (Inr y, c'))"
proof -
  obtain c1 where c1: "conn_write b c = (Inr (), c1)" "consumed c [] [b] c1"
    using conn_write_writable [OF assms] by blast
  show ?thesis
  proof
    assume "io_bind (conn_write b) f c = (Inr y, c')"
    then show "\<exists>c1. consumed c [] [b] c1 \<and> f () c1 = (Inr y, c')" using c1 by auto
  next
    assume "\<exists>c1. consumed c [] [b] c1 \<and> f () c1 = (Inr y, c')"
    then obtain c2 where "consumed c [] [b] c2" "f () c2 = (Inr y, c')" by blast
    moreover from this have "c2 = c1" using consumed_fun [OF _ c1(2)] by blast
    ultimately show "io_bind (conn_write b) f c = (Inr y, c')" using c1(1) by simp
  qed
qed

lemma ipv4_string: "length b = 4 \<Longrightarrow> ip_string (ipv4 (b ! 0) (b ! Suc 0) (b ! 2) (b ! 3)) = v4_string b"
  by (auto simp: length4 ip_string_def)

lemma socks5_name_ok:
  "socks5_address 0x03 c = (Inr host, c') \<longleftrightarrow>
     (\<exists>l b. 0 < unat l \<and> length b = unat l \<and> host = bytes_str b \<and> consumed c (l # b) [] c')"
proof
  assume "socks5_address 0x03 c = (Inr host, c')"
  then obtain l b c1 where l: "consumed c [l] [] c1" "0 < unat l" "length b = unat l" "consumed c1 b [] c'"
    "host = bytes_str b"
    by (auto simp: socks5_address_def read_then_ok length1 Let_def split: if_splits)
  with consumed_reads [OF l(1,4)]
  show "\<exists>l b. 0 < unat l \<and> length b = unat l \<and> host = bytes_str b \<and> consumed c (l # b) [] c'" by auto
next
  assume "\<exists>l b. 0 < unat l \<and> length b = unat l \<and> host = bytes_str b \<and> consumed c (l # b) [] c'"
  then obtain l b where l: "0 < unat l" "length b = unat l" "host = bytes_str b" "consumed c ([l] @ b) [] c'" by auto
  from consumed_reads_split [OF l(4)] obtain c1 where c1: "consumed c [l] [] c1" "consumed c1 b [] c'" by blast
  have "io_bind (read_full (unat l)) (\<lambda>b. io_return (bytes_str b)) c1 = (Inr host, c')"
    unfolding read_then_ok using l c1 by auto
  then show "socks5_address 0x03 c = (Inr host, c')"
    unfolding socks5_address_def using l(1) c1(1)
    by (simp add: read_then_ok Let_def) (rule exI [of _ "[l]"], simp, rule exI [of _ c1], simp)
qed

lemma socks5_address_ok:
  "socks5_address atyp c = (Inr host, c') \<longleftrightarrow> (\<exists>addr. address_form atyp addr host \<and> consumed c addr [] c')"
proof -
  consider "atyp = 1" | "atyp = 3" | "atyp = 4" | "atyp \<noteq> 1" "atyp \<noteq> 3" "atyp \<noteq> 4" by blast
  then show ?thesis
  proof cases
    case 1
    show ?thesis unfolding 1
      by (auto simp: socks5_address_def read_then_ok address_form.simps ipv4_string)
  next
    case 2
    show ?thesis unfolding 2 socks5_name_ok by (auto simp: address_form.simps)
  next
    case 3
    show ?thesis unfolding 3 by (auto simp: socks5_address_def read_then_ok address_form.simps)
  next
    case 4
    then show ?thesis by (simp add: socks5_address_def address_form.simps)
  qed
qed

lemma socks5_request_ok:
  "socks5_request c = (Inr target, c') \<longleftrightarrow> (\<exists>r. request_form r target \<and> consumed c r [] c')"
proof
  assume "socks5_request c = (Inr target, c')"
  then obtain h c1 where h: "length h = 4" "consumed c h [] c1" "h ! 0 = 5" "h ! 1 = 1"
    "io_bind (socks5_address (h ! 3)) (\<lambda>host. io_bind (read_full 2) (\<lambda>b.
        io_return (join_host_port host (itoa (int (be16 (b ! 0) (b ! 1))))))) c1 = (Inr target, c')"
    by (auto simp: socks5_request_def read_then_ok split: if_splits)
  then obtain host c2 where a: "socks5_address (h ! 3) c1 = (Inr host, c2)"
    and p: "io_bind (read_full 2) (\<lambda>b. io_return (join_host_port host (itoa (int (be16 (b ! 0) (b ! 1)))))) c2 =
        (Inr target, c')"
    by (cases "socks5_address (h ! 3) c1") (auto simp: io_bind_def split: sum.splits)
  from a obtain addr where addr: "address_form (h ! 3) addr host" "consumed c1 addr [] c2"
    unfolding socks5_address_ok by blast
  from p obtain q where q: "length q = 2" "consumed c2 q [] c'"
      "target = join_host_port host (itoa (int (be16 (q ! 0) (q ! 1))))"
    by (auto simp: read_then_ok)
  from h(1,3,4) obtain rsv atyp where hh: "h = [5, 1, rsv, atyp]" by (auto simp: length4)
  from q(1) obtain hi lo where qq: "q = [hi, lo]" by (auto simp: length2)
  have "request_form (h @ addr @ q) target" unfolding request_form_def using addr(1) q(3) hh qq by auto
  moreover have "consumed c (h @ addr @ q) [] c'" using h(2) addr(2) q(2) consumed_reads by blast
  ultimately show "\<exists>r. request_form r target \<and> consumed c r [] c'" by blast
next
  assume "\<exists>r. request_form r target \<and> consumed c r [] c'"
  then obtain rsv atyp addr host hi lo where r: "consumed c ([5, 1, rsv, atyp] @ addr @ [hi, lo]) [] c'"
    "address_form atyp addr host" "target = join_host_port host (itoa (int (be16 hi lo)))"
    by (auto simp: request_form_def)
  from consumed_reads_split [OF r(1)] obtain c1 where c1: "consumed c [5, 1, rsv, atyp] [] c1"
      "consumed c1 (addr @ [hi, lo]) [] c'" by blast
  from consumed_reads_split [OF c1(2)] obtain c2 where c2: "consumed c1 addr [] c2" "consumed c2 [hi, lo] [] c'" by blast
  have a: "socks5_address atyp c1 = (Inr host, c2)" unfolding socks5_address_ok using r(2) c2(1) by blast
  have p: "io_bind (read_full 2) (\<lambda>b. io_return (join_host_port host (itoa (int (be16 (b ! 0) (b ! 1)))))) c2 = (Inr target, c')"
    unfolding read_then_ok using c2(2) r(3) by (intro exI [of _ "[hi, lo]"] exI [of _ c']) simp
  have "io_bind (socks5_address atyp) (\<lambda>host. io_bind (read_full 2) (\<lambda>b.
      io_return (join_host_port host (itoa (int (be16 (b ! 0) (b ! 1))))))) c1 = (Inr target, c')"
    unfolding io_bind_simps(2) [of "socks5_address atyp", OF a] by (rule p)
  then show "socks5_request c = (Inr target, c')"
    unfolding socks5_request_def read_then_ok using c1(1)
    by (intro exI [of _ "[5, 1, rsv, atyp]"] exI [of _ c1]) simp
qed

lemma socks5_handshake_accepts_iff:
  assumes "writable c"
  shows "socks5_handshake c = (Ok target, c') \<longleftrightarrow>
     (\<exists>g r. greeting_form g \<and> request_form r target \<and> consumed c (g @ r) [[0x05, 0x00]] c')"
proof
  assume "socks5_handshake c = (Ok target, c')"
  then obtain h c1 where h: "length h = 2" "consumed c h [] c1" "h ! 0 = 5" "0 < unat (h ! 1)"
    "io_bind (read_full (unat (h ! 1))) (\<lambda>_. io_bind (conn_write [5, 0]) (\<lambda>_. socks5_request)) c1 = (Inr target, c')"
    by (auto simp: socks5_handshake_def read_then_ok Let_def split: if_splits)
  then obtain ms c2 where ms: "length ms = unat (h ! 1)" "consumed c1 ms [] c2"
    "io_bind (conn_write [5, 0]) (\<lambda>_. socks5_request) c2 = (Inr target, c')"
    by (auto simp: read_then_ok)
  have "writable c2" using writable_consumed [OF ms(2)] writable_consumed [OF h(2)] assms by simp
  with ms(3) obtain c3 where c3: "consumed c2 [] [[5, 0]] c3" "socks5_request c3 = (Inr target, c')"
    by (auto simp: write_then_ok)
  then obtain r where r: "request_form r target" "consumed c3 r [] c'" unfolding socks5_request_ok by blast
  have "greeting_form (h @ ms)" unfolding greeting_form_def using h ms(1) by (auto simp: length2)
  moreover have "consumed c ((h @ ms) @ r) [[5, 0]] c'"
    using consumed_reads [OF h(2) consumed_reads [OF ms(2) consumed_write [OF c3(1) r(2)]]] by simp
  ultimately show "\<exists>g r. greeting_form g \<and> request_form r target \<and> consumed c (g @ r) [[5, 0]] c'" using r(1) by blast
next
  assume "\<exists>g r. greeting_form g \<and> request_form r target \<and> consumed c (g @ r) [[5, 0]] c'"
  then obtain n ms r where g: "0 < unat n" "length ms = unat n" "request_form r target"
    "consumed c ([5, n] @ ms @ r) [[5, 0]] c'" by (auto simp: greeting_form_def)
  from consumed_reads_split [OF g(4)] obtain c1 where c1: "consumed c [5, n] [] c1" "consumed c1 (ms @ r) [[5, 0]] c'" by blast
  from consumed_reads_split [OF c1(2)] obtain c2 where c2: "consumed c1 ms [] c2" "consumed c2 r [[5, 0]] c'" by blast
  from consumed_write_split [OF c2(2)] obtain c3 where c3: "consumed c2 [] [[5, 0]] c3" "consumed c3 r [] c'" by blast
  have w: "writable c2" using writable_consumed [OF c2(1)] writable_consumed [OF c1(1)] assms by simp
  have "socks5_request c3 = (Inr target, c')" unfolding socks5_request_ok using g(3) c3(2) by blast
  then have "io_bind (conn_write [5, 0]) (\<lambda>_. socks5_request) c2 = (Inr target, c')"
    unfolding write_then_ok [OF w] using c3(1) by blast
  then have m: "io_bind (read_full (unat n)) (\<lambda>_. io_bind (conn_write [5, 0]) (\<lambda>_. socks5_request)) c1 = (Inr target, c')"
    unfolding read_then_ok using g(2) c2(1) by blast
  have "\<not> (unat n < 1 \<or> 255 < unat n)" using g(1) unat_byte_le [of n] by linarith
  with m show "socks5_handshake c = (Ok target, c')"
    unfolding socks5_handshake_def read_then_ok [of 2] using c1(1)
    by (intro exI [of _ "[5, n]"] exI [of _ c1]) (simp add: Let_def)
qed

text \<open>C13: on a connection that can be written to, the handshake succeeds exactly on
  a greeting of version 5 with at least one method, followed by a well-formed CONNECT request; it
  consumes exactly those bytes, answers the greeting with "no authentication" and returns the
  target the request names.\<close>

theorem socks5_handshake_accepts:
  assumes "writable c"
  shows "socks5_handshake c = (Ok target, c') \<longleftrightarrow>
     (\<exists>g r. greeting_form g \<and> request_form r target \<and> consumed c (g @ r) [[0x05, 0x00]] c')"
  by (rule socks5_handshake_accepts_iff [OF assms])

definition sample_conn :: conn where
  "sample_conn = \<lparr>cn_in = [5, 1, 0, 5, 1, 0, 1, 1, 2, 3, 4, 0, 80], cn_end = ''EOF'', cn_out = [], cn_werr = \<lambda>_. None\<rparr>"

definition sample_after :: conn where
  "sample_after = \<lparr>cn_in = [], cn_end = ''EOF'', cn_out = [[5, 0]], cn_werr = \<lambda>_. None\<rparr>"

lemma sample_writable: "writable sample_conn"
  by (simp add: writable_def sample_conn_def)

lemma sample_exchange:
  "\<exists>g r. greeting_form g \<and> request_form r ''1.2.3.4:80'' \<and> consumed sample_conn (g @ r) [[0x05, 0x00]] sample_after"
proof -
  have "address_form 1 [1, 2, 3, 4] (v4_string [1, 2, 3, 4])" by (rule address_form.v4) simp
  moreover have "v4_string [1, 2, 3, 4] = ''1.2.3.4''" by (simp add: v4_string_def nat_dec.simps char_of_def bit_0)
  moreover have "join_host_port ''1.2.3.4'' (itoa (int (be16 0 80))) = ''1.2.3.4:80''"
    by (simp add: be16_sum itoa_def nat_dec.simps join_host_port_def char_of_def bit_0)
  ultimately have "request_form ([5, 1, 0, 1] @ [1, 2, 3, 4] @ [0, 80]) ''1.2.3.4:80''"
    unfolding request_form_def by metis
  moreover have "greeting_form [5, 1, 0]" by (simp add: greeting_form_def)
  moreover have "consumed sample_conn ([5, 1, 0] @ [5, 1, 0, 1] @ [1, 2, 3, 4] @ [0, 80]) [[5, 0]] sample_after"
    by (simp add: consumed_def sample_conn_def sample_after_def)
  ultimately show ?thesis by blast
qed

theorem socks5_handshake_accepts_witness:
  "socks5_handshake sample_conn = (Ok ''1.2.3.4:80'', sample_after)"
  using socks5_handshake_accepts [OF sample_writable] sample_exchange by blast

section \<open>The client and the server understand each other\<close>

lemma connect_request_form:
  assumes "0 < length host" "length host \<le> 255" "0 \<le> port" "port < 65536"
  shows "request_form (connect_request host port) (join_host_port host (itoa port))"
proof -
  let ?l = "of_nat (length host) :: byte"
  have l: "unat ?l = length host" using assms(2) by (simp add: unat_of_nat)
  have "address_form 3 (?l # str_bytes host) (bytes_str (str_bytes host))"
    by (rule address_form.name) (use l assms(1) in simp_all)
  then have a: "address_form 3 (?l # str_bytes host) host" by simp
  have "int (be16 (be16_bytes port ! 0) (be16_bytes port ! 1)) = port"
    using be16_round [OF assms(3,4)] assms(3) by simp
  then show ?thesis unfolding request_form_def
    by (intro exI [of _ 0] exI [of _ 3] exI [of _ "?l # str_bytes host"] exI [of _ host]
        exI [of _ "be16_bytes port ! 0"] exI [of _ "be16_bytes port ! 1"])
      (simp add: a connect_request_def be16_bytes_def)
qed

lemma client_greeting_form: "greeting_form [5, 1, 0]"
  by (simp add: greeting_form_def)

definition server_reply :: "byte \<Rightarrow> byte list" where
  "server_reply rep = [0x05, rep, 0x00, 0x01, 0, 0, 0, 0, 0, 0]"

lemma read_reply:
  assumes "cn_in c = server_reply rep @ rest"
  shows "fst (read_socks5_connect_reply c) =
           (if rep = 0 then Ok () else Err (''SOCKS5 connect failed code='' @ nat_dec (unat rep)))"
    and "rep = 0 \<Longrightarrow> snd (read_socks5_connect_reply c) = c\<lparr>cn_in := rest\<rparr>"
proof -
  have h: "read_full 4 c = (Inr [5, rep, 0, 1], c\<lparr>cn_in := [0, 0, 0, 0, 0, 0] @ rest\<rparr>)"
    using assms by (simp add: read_full_def server_reply_def)
  show "fst (read_socks5_connect_reply c) =
           (if rep = 0 then Ok () else Err (''SOCKS5 connect failed code='' @ nat_dec (unat rep)))"
    using h by (simp add: read_socks5_connect_reply_def io_bind_def discard_def)
  show "rep = 0 \<Longrightarrow> snd (read_socks5_connect_reply c) = c\<lparr>cn_in := rest\<rparr>"
    using h by (simp add: read_socks5_connect_reply_def io_bind_def discard_def)
qed

text \<open>C14: connected to each other, the daemon's SOCKS5 client and its SOCKS5 server
  agree. What each writes is exactly what the other reads: for every host name of 1 to 255 bytes
  and every port the server hands the very target on, whatever follows is left for the stream, and
  the client succeeds exactly on reply code 0, reporting any other code.\<close>

theorem socks5_conversation:
  assumes "0 < length host" "length host \<le> 255" "0 \<le> port" "port < 65536"
    and "writable s" "cn_out s = []" "cn_in s = concat [[5, 1, 0], connect_request host port] @ upstream_data"
    and "writable c" "cn_out c = []" "cn_in c = concat [[5, 0], server_reply rep] @ downstream_data"
  shows "\<exists>s' s'' c'. socks5_handshake s = (Ok (join_host_port host (itoa port)), s') \<and> cn_in s' = upstream_data \<and>
     socks5_reply rep s' = (Ok (), s'') \<and> cn_out s'' = [[5, 0], server_reply rep] \<and>
     socks5_connect host port c =
       (if rep = 0 then Ok () else Err (''SOCKS5 connect failed code='' @ nat_dec (unat rep)), c') \<and>
     cn_out c' = [[5, 1, 0], connect_request host port] \<and> (if rep = 0 then cn_in c' = downstream_data else True)"
proof -
  let ?s1 = "s\<lparr>cn_in := upstream_data, cn_out := [[5, 0]]\<rparr>"
  have "consumed s ([5, 1, 0] @ connect_request host port) [[5, 0]] ?s1" using assms(6,7) by (simp add: consumed_def)
  then have hs: "socks5_handshake s = (Ok (join_host_port host (itoa port)), ?s1)"
    unfolding socks5_handshake_accepts_iff [OF assms(5)]
    using client_greeting_form connect_request_form [OF assms(1-4)] by blast
  have r: "socks5_reply rep ?s1 = (Ok (), ?s1\<lparr>cn_out := [[5, 0], server_reply rep]\<rparr>)"
    using assms(5) by (simp add: socks5_reply_def conn_write_def writable_def server_reply_def)
  let ?c1 = "c\<lparr>cn_in := server_reply rep @ downstream_data, cn_out := [[5, 1, 0], connect_request host port]\<rparr>"
  have k: "socks5_connect host port c = read_socks5_connect_reply ?c1"
    using assms(2,8-10) by (simp add: socks5_connect_def conn_write_def read_full_def writable_def io_bind_def)
  have o: "cn_out (snd (read_socks5_connect_reply ?c1)) = [[5, 1, 0], connect_request host port]"
    by (auto simp: read_socks5_connect_reply_def io_bind_def read_full_def discard_def server_reply_def)
  show ?thesis
    using hs r k o read_reply [of ?c1 rep downstream_data]
    by (intro exI [of _ ?s1] exI [of _ "?s1\<lparr>cn_out := [[5, 0], server_reply rep]\<rparr>"]
        exI [of _ "snd (read_socks5_connect_reply ?c1)"]) (auto simp: prod_eq_iff)
qed

theorem socks5_conversation_witness:
  "\<exists>c'. socks5_connect ''h'' 80
      \<lparr>cn_in = concat [[5, 0], server_reply 0] @ [1, 2], cn_end = ''EOF'', cn_out = [], cn_werr = \<lambda>_. None\<rparr> = (Ok (), c') \<and>
      cn_in c' = [1, 2]"
proof -
  let ?s = "\<lparr>cn_in = concat [[5, 1, 0], connect_request ''h'' 80] @ [], cn_end = ''EOF'', cn_out = [], cn_werr = \<lambda>_. None\<rparr>"
  let ?c = "\<lparr>cn_in = concat [[5, 0], server_reply 0] @ [1, 2], cn_end = ''EOF'', cn_out = [], cn_werr = \<lambda>_. None\<rparr>"
  have "writable ?s" "cn_out ?s = []" "cn_in ?s = concat [[5, 1, 0], connect_request ''h'' 80] @ []"
    "writable ?c" "cn_out ?c = []" "cn_in ?c = concat [[5, 0], server_reply 0] @ [1, 2]"
    by (simp_all add: writable_def)
  from socks5_conversation [OF _ _ _ _ this] show ?thesis by auto
qed

end
