(* ===== verification/Streams.thy ===== *)
theory Streams
  imports Socks
begin

text \<open>
  The proxied streams of \<open>cmd/sshcustomd/engine.go\<close> and \<open>main.go\<close>: opening a channel through the current SSH
  client with retries, the handlers of the SOCKS5 and the transparent listener, and the two pumps
  of \<open>pipeBoth\<close>. The SSH clients are identifiers; which client is published at each reading of
  the pointer, and what each dial answers, are the record \<open>stream_env\<close>. A handler returns the
  connection it served and the trace of what it did besides.
\<close>

section \<open>Opening a stream\<close>

record 'r stream_env =
  se_client :: "nat \<Rightarrow> nat option"
  se_dial :: "nat \<Rightarrow> nat \<Rightarrow> string \<Rightarrow> 'r result"
  se_original :: "(nat \<times> 16 word \<times> byte \<times> byte \<times> byte \<times> byte) result"

datatype 'r sevent =
    Slept nat
  | Dialed nat string "'r result"
  | CountedError
  | Added nat
  | Piped 'r int int
  | Removed nat
  | ClosedRemote 'r
  | ClosedLocal

definition is_stream_retryable :: "string \<Rightarrow> bool" where
  "is_stream_retryable s =
     (str_contains s ''connect failed'' \<or> str_contains s ''Connection refused'' \<or>
      str_contains s ''Connection timed out'' \<or> str_contains s ''Temporary failure in name resolution'' \<or>
      str_contains s ''no route to host'')"

text \<open>The \<open>for attempt := 1; attempt <= 2\<close> loop; reading \<open>a\<close> of the client pointer and dial \<open>a\<close> are its attempt \<open>a\<close>.\<close>

fun retry_attempts :: "('r, 'm) stream_env_scheme \<Rightarrow> string \<Rightarrow> nat list \<Rightarrow> string \<Rightarrow> 'r result \<times> 'r sevent list" where
  "retry_attempts env target [] err = (Err err, [])"
| "retry_attempts env target (a # as) err =
     (case se_client env a of
        None \<Rightarrow> (Err err, [Slept (a * 300)])
      | Some cl \<Rightarrow>
          let res = se_dial env a cl target in
          case res of
            Inr r \<Rightarrow> (Ok r, [Slept (a * 300), Dialed cl target res])
          | Inl e \<Rightarrow>
              if \<not> is_stream_retryable e then (Err e, [Slept (a * 300), Dialed cl target res])
              else (case retry_attempts env target as e of
                      (out, tr) \<Rightarrow> (out, Slept (a * 300) # Dialed cl target res # tr)))"

definition dial_stream_with_retry ::
  "('r, 'm) stream_env_scheme \<Rightarrow> nat \<Rightarrow> string \<Rightarrow> 'r result \<times> 'r sevent list" where
  "dial_stream_with_retry env cl target =
     (let res = se_dial env 0 cl target in
      case res of
        Inr r \<Rightarrow> (Ok r, [Dialed cl target res])
      | Inl e \<Rightarrow>
          if \<not> is_stream_retryable e then (Err e, [Dialed cl target res])
          else (case retry_attempts env target [1, 2] e of (out, tr) \<Rightarrow> (out, Dialed cl target res # tr)))"

text \<open>\<open>logTunnelOpenError\<close>: besides the log line, errors of the SSH session itself are counted.\<close>

definition log_tunnel_open_error :: "string \<Rightarrow> 'r sevent list" where
  "log_tunnel_open_error err =
     (let s = to_lower err in
      if str_contains s ''bad record mac'' \<or> str_contains s ''error decoding message'' \<or>
         str_contains s ''use of closed network connection'' \<or> str_contains s ''eof'' \<or>
         str_contains s ''packet too large'' \<or> str_contains s ''invalid packet length''
      then [CountedError] else [])"

section \<open>The handlers\<close>

definition pipe_buffer :: "config \<Rightarrow> int" where
  "pipe_buffer cfg = (if pf_buffer (c_perf cfg) \<le> 0 then 128 * 1024 else pf_buffer (c_perf cfg))"

text \<open>\<open>pipeBoth\<close> of the client's connection and the remote stream, as the handlers see it: whichever way it ends, it runs
  \<open>closeBoth\<close>, which closes the client's connection first. The copying itself is the relation \<open>pstep\<close> below.\<close>

definition pipe_both :: "'r \<Rightarrow> int \<Rightarrow> int \<Rightarrow> 'r sevent list" where
  "pipe_both r buf idle = [Piped r buf idle, ClosedLocal, ClosedRemote r]"

text \<open>From the dial on, both handlers do the same but for the replies; \<open>reply\<close> is what they answer. The deferred calls
  (\<open>cl.remove\<close>, \<open>remote.Close\<close>, \<open>c.Close\<close>) run last and close once more what \<open>pipeBoth\<close> has closed.\<close>

definition serve_stream ::
  "('r, 'm) stream_env_scheme \<Rightarrow> config \<Rightarrow> string \<Rightarrow> (byte \<Rightarrow> conn \<Rightarrow> conn) \<Rightarrow> conn \<Rightarrow> conn \<times> 'r sevent list" where
  "serve_stream env cfg target reply c =
     (case se_client env 0 of
        None \<Rightarrow> (reply 0x04 c, [ClosedLocal])
      | Some cl \<Rightarrow>
          (case dial_stream_with_retry env cl target of
             (Inl e, tr) \<Rightarrow> (reply 0x05 c, tr @ log_tunnel_open_error e @ [ClosedLocal])
           | (Inr r, tr) \<Rightarrow>
               (case se_client env 3 of
                  None \<Rightarrow> (reply 0x04 c, tr @ [ClosedRemote r, ClosedLocal])
                | Some cl \<Rightarrow>
                    (reply 0x00 c,
                     tr @ Added cl # pipe_both r (pipe_buffer cfg) (stream_idle_seconds cfg) @
                           [Removed cl, ClosedRemote r, ClosedLocal]))))"

definition handle_socks_client :: "('r, 'm) stream_env_scheme \<Rightarrow> config \<Rightarrow> conn \<Rightarrow> conn \<times> 'r sevent list" where
  "handle_socks_client env cfg c =
     (case socks5_handshake c of
        (Inl e, c) \<Rightarrow> (c, [ClosedLocal])
      | (Inr target, c) \<Rightarrow> serve_stream env cfg target (\<lambda>rep c. snd (socks5_reply rep c)) c)"

text \<open>\<open>originalDst\<close>: family, port (in network byte order as a 16-bit word) and address of \<open>SO_ORIGINAL_DST\<close>.\<close>

definition original_dst :: "('r, 'm) stream_env_scheme \<Rightarrow> string result" where
  "original_dst env =
     (case se_original env of
        Inl e \<Rightarrow> Err e
      | Inr (family, port, a, b, c, d) \<Rightarrow>
          if family \<noteq> 2 then Err (''unexpected original dst family '' @ nat_dec family)
          else Ok (join_host_port (ip_string (ipv4 a b c d))
                 (itoa (uint (push_bit 8 (port AND 0xff) OR drop_bit 8 port)))))"

definition handle_transparent_client :: "('r, 'm) stream_env_scheme \<Rightarrow> config \<Rightarrow> conn \<Rightarrow> conn \<times> 'r sevent list" where
  "handle_transparent_client env cfg c =
     (case original_dst env of
        Inl e \<Rightarrow> (c, [ClosedLocal])
      | Inr target \<Rightarrow>
          if is_local_or_blocked_target target cfg then (c, [ClosedLocal])
          else serve_stream env cfg target (\<lambda>_ c. c) c)"

section \<open>Retries\<close>

fun dials :: "'r sevent list \<Rightarrow> 'r result list" where
  "dials [] = []"
| "dials (Dialed cl t res # tr) = res # dials tr"
| "dials (_ # tr) = dials tr"

lemma dials_append [simp]: "dials (tr @ tr') = dials tr @ dials tr'"
  by (induction tr rule: dials.induct) simp_all

definition retryable_error :: "'r result \<Rightarrow> bool" where
  "retryable_error res = (case res of Inl e \<Rightarrow> is_stream_retryable e | Inr _ \<Rightarrow> False)"

lemma retryable_error_simps [simp]:
  "retryable_error (Inl e) = is_stream_retryable e" "retryable_error (Inr r) = False"
  by (simp_all add: retryable_error_def)

text \<open>What the trace of a list of attempts looks like, given the error that led to them.\<close>

definition attempts_ok :: "('r, 'm) stream_env_scheme \<Rightarrow> nat list \<Rightarrow> string \<Rightarrow> 'r result \<times> 'r sevent list \<Rightarrow> bool" where
  "attempts_ok env as err res =
     (case res of (out, tr) \<Rightarrow>
        length (dials tr) \<le> length as \<and> list_all retryable_error (butlast (Err err # dials tr)) \<and>
        out = last (Err err # dials tr) \<and>
        (retryable_error out \<longrightarrow> length (dials tr) = length as \<or> None \<in> se_client env ` set as))"

lemma retry_attempts_ok: "is_stream_retryable err \<Longrightarrow> attempts_ok env as err (retry_attempts env target as err)"
proof (induction as arbitrary: err)
  case Nil
  then show ?case by (simp add: attempts_ok_def)
next
  case (Cons a as)
  show ?case
  proof (cases "se_client env a")
    case None
    then show ?thesis by (force simp: attempts_ok_def)
  next
    case (Some cl)
    note s = this
    show ?thesis
    proof (cases "se_dial env a cl target")
      case (Inr r)
      with s Cons.prems show ?thesis by (simp add: attempts_ok_def Let_def)
    next
      case (Inl e)
      show ?thesis
      proof (cases "is_stream_retryable e")
        case False
        with s Inl Cons.prems show ?thesis by (simp add: attempts_ok_def Let_def)
      next
        case True
        obtain out tr where r: "retry_attempts env target as e = (out, tr)" by fastforce
        have "attempts_ok env as e (out, tr)" using Cons.IH [OF True] r by simp
        with s Inl True r Cons.prems show ?thesis
          by (auto simp: attempts_ok_def image_iff Let_def split: if_splits)
      qed
    qed
  qed
qed

lemma dial_stream_ok:
  "case dial_stream_with_retry env cl target of (out, tr) \<Rightarrow>
     dials tr \<noteq> [] \<and> length (dials tr) \<le> 3 \<and> list_all retryable_error (butlast (dials tr)) \<and>
     out = last (dials tr) \<and>
     (if retryable_error out then length (dials tr) = 3 \<or> None \<in> {se_client env 1, se_client env 2} else True)"
proof (cases "se_dial env 0 cl target")
  case (Inr r)
  then show ?thesis by (simp add: dial_stream_with_retry_def Let_def)
next
  case (Inl e)
  show ?thesis
  proof (cases "is_stream_retryable e")
    case False
    with Inl show ?thesis by (simp add: dial_stream_with_retry_def Let_def)
  next
    case True
    obtain out tr where r: "retry_attempts env target [1, 2] e = (out, tr)" by fastforce
    have "attempts_ok env [1, 2] e (out, tr)" using retry_attempts_ok [OF True, of env "[1, 2]" target] r by simp
    with Inl True r show ?thesis
      by (auto simp: dial_stream_with_retry_def Let_def attempts_ok_def split: if_splits)
  qed
qed

text \<open>A stream is dialed at most three times; every dial but the last failed
  with a retryable error, the result is that of the last dial, and giving up on a retryable error
  means that three dials were made or that the client was gone at a retry.\<close>

theorem stream_retries_are_justified:
  "case dial_stream_with_retry env cl target of (out, tr) \<Rightarrow>
     dials tr \<noteq> [] \<and> length (dials tr) \<le> 3 \<and> list_all retryable_error (butlast (dials tr)) \<and>
     out = last (dials tr) \<and>
     (if retryable_error out then length (dials tr) = 3 \<or> None \<in> {se_client env 1, se_client env 2} else True)"
  by (rule dial_stream_ok)

section \<open>What a handler leaves behind\<close>

definition opened :: "'r sevent list \<Rightarrow> 'r set" where
  "opened tr = {r. Inr r \<in> set (dials tr)}"

definition closed_remotes :: "'r sevent list \<Rightarrow> 'r set" where
  "closed_remotes tr = {r. ClosedRemote r \<in> set tr}"

definition piped :: "'r sevent list \<Rightarrow> 'r set" where
  "piped tr = {r. \<exists>b i. Piped r b i \<in> set tr}"

definition dial_targets :: "'r sevent list \<Rightarrow> string set" where
  "dial_targets tr = {t. \<exists>cl res. Dialed cl t res \<in> set tr}"

definition in_flight :: "nat \<Rightarrow> 'r sevent list \<Rightarrow> int" where
  "in_flight cl tr = int (length (filter (\<lambda>e. e = Added cl) tr)) - int (length (filter (\<lambda>e. e = Removed cl) tr))"

definition quiet_event :: "string \<Rightarrow> 'r sevent \<Rightarrow> bool" where
  "quiet_event t e = (case e of Slept n \<Rightarrow> True | Dialed cl u res \<Rightarrow> u = t | _ \<Rightarrow> False)"

lemma quiet_event_simps [simp]: "quiet_event t (Slept n)" "quiet_event t (Dialed cl u res) = (u = t)"
  by (simp_all add: quiet_event_def)

lemma retry_attempts_quiet: "list_all (quiet_event target) (snd (retry_attempts env target as err))"
proof (induction as arbitrary: err)
  case (Cons a as)
  have r: "list_all (quiet_event target) tr" if "retry_attempts env target as e = (out, tr)" for e out tr
    using Cons.IH [of e] that by simp
  show ?case by (auto simp: Let_def dest: r split: option.splits sum.splits prod.splits)
qed simp

lemma dial_stream_quiet: "list_all (quiet_event target) (snd (dial_stream_with_retry env cl target))"
proof -
  have r: "list_all (quiet_event target) tr" if "retry_attempts env target [Suc 0, 2] e = (out, tr)" for e out tr
    using retry_attempts_quiet [of target env "[Suc 0, 2]" e] that by simp
  show ?thesis
    by (auto simp: dial_stream_with_retry_def Let_def simp del: retry_attempts.simps
        dest: r split: sum.splits prod.splits)
qed

lemma quiet_trace:
  assumes "list_all (quiet_event t) tr"
  shows "closed_remotes tr = {}" "piped tr = {}" "dial_targets tr \<subseteq> {t}" "in_flight cl tr = 0"
proof -
  have q: "ClosedRemote r \<notin> set tr" "Piped r b i \<notin> set tr" "Added cl \<notin> set tr" "Removed cl \<notin> set tr"
    "Dialed cl u res \<in> set tr \<Longrightarrow> u = t" for r b i u res cl
    using assms by (auto simp: list_all_iff quiet_event_def)
  show "closed_remotes tr = {}" "piped tr = {}" "dial_targets tr \<subseteq> {t}"
    using q by (auto simp: closed_remotes_def piped_def dial_targets_def)
  have "filter (\<lambda>e. e = Added cl) tr = []" "filter (\<lambda>e. e = Removed cl) tr = []"
    using q(3,4) by (auto simp: filter_empty_conv)
  then show "in_flight cl tr = 0" by (simp add: in_flight_def)
qed

lemma log_events: "set (log_tunnel_open_error e) \<subseteq> {CountedError}"
  by (auto simp: log_tunnel_open_error_def Let_def)

lemma dials_log [simp]: "dials (log_tunnel_open_error e) = []"
  by (simp add: log_tunnel_open_error_def Let_def)

lemma trace_append [simp]:
  "closed_remotes (a @ b) = closed_remotes a \<union> closed_remotes b" "piped (a @ b) = piped a \<union> piped b"
  "dial_targets (a @ b) = dial_targets a \<union> dial_targets b" "in_flight cl (a @ b) = in_flight cl a + in_flight cl b"
  "opened (a @ b) = opened a \<union> opened b"
  by (auto simp: closed_remotes_def piped_def dial_targets_def in_flight_def opened_def)

lemma log_trace [simp]:
  "closed_remotes (log_tunnel_open_error e) = {}" "piped (log_tunnel_open_error e) = {}"
  "dial_targets (log_tunnel_open_error e) = {}" "in_flight cl (log_tunnel_open_error e) = 0"
  "opened (log_tunnel_open_error e) = {}"
  by (auto simp: closed_remotes_def piped_def dial_targets_def in_flight_def opened_def log_tunnel_open_error_def Let_def)

lemma dial_stream_opened:
  assumes "dial_stream_with_retry env cl target = (out, tr)"
  shows "opened tr = (case out of Inr r \<Rightarrow> {r} | Inl _ \<Rightarrow> {})"
proof -
  have d: "dials tr \<noteq> []" "list_all retryable_error (butlast (dials tr))" "out = last (dials tr)"
    using dial_stream_ok [of env cl target] assms by auto
  have "set (dials tr) = set (butlast (dials tr)) \<union> {out}"
    using d(1,3) by (metis append_butlast_last_id list.set(1) list.simps(15) set_append)
  moreover have "Inr r \<notin> set (butlast (dials tr))" for r
    using d(2) by (auto simp: list_all_iff)
  ultimately show ?thesis by (auto simp: opened_def split: sum.splits)
qed

text \<open>The account every handler keeps, whatever the tunnel does meanwhile.\<close>

definition balanced :: "('r, 'm) stream_env_scheme \<Rightarrow> 'r sevent list \<Rightarrow> bool" where
  "balanced env tr =
     (tr \<noteq> [] \<and> last tr = ClosedLocal \<and> closed_remotes tr = opened tr \<and> (\<lambda>cl. in_flight cl tr) = (\<lambda>cl. 0) \<and>
      piped tr = (if None \<in> {se_client env 0, se_client env 3} then {} else opened tr))"

lemma serve_stream_balanced:
  assumes "serve_stream env cfg target reply c = (c', tr)"
  shows "balanced env tr" "dial_targets tr \<subseteq> {target}"
    and "\<exists>rep. c' = reply rep c \<and> (rep = 0) = (piped tr \<noteq> {})"
proof -
  have "balanced env tr \<and> dial_targets tr \<subseteq> {target} \<and> (\<exists>rep. c' = reply rep c \<and> (rep = 0) = (piped tr \<noteq> {}))"
  proof (cases "se_client env 0")
    case None
    with assms have "c' = reply 4 c" "tr = [ClosedLocal]" by (auto simp: serve_stream_def)
    then show ?thesis using None
      by (auto simp: balanced_def closed_remotes_def opened_def piped_def dial_targets_def in_flight_def)
  next
    case (Some cl)
    note s = this
    obtain out t where d: "dial_stream_with_retry env cl target = (out, t)" by fastforce
    have q: "list_all (quiet_event target) t" using dial_stream_quiet [of target env cl] d by simp
    note o = dial_stream_opened [OF d]
    note simps = balanced_def closed_remotes_def opened_def piped_def dial_targets_def in_flight_def
    show ?thesis
    proof (cases out)
      case (Inl e)
      then have t: "c' = reply 5 c" "tr = t @ log_tunnel_open_error e @ [ClosedLocal]"
        using assms s d by (auto simp: serve_stream_def)
      have z: "opened [ClosedLocal :: 'r sevent] = {}" "closed_remotes [ClosedLocal :: 'r sevent] = {}"
        "piped [ClosedLocal :: 'r sevent] = {}" "dial_targets [ClosedLocal :: 'r sevent] = {}"
        "in_flight i [ClosedLocal :: 'r sevent] = 0" for i
        by (simp_all add: simps)
      have "balanced env tr" using o Inl unfolding balanced_def t(2) by (simp add: z quiet_trace [OF q])
      moreover have "dial_targets tr \<subseteq> {target}" "piped tr = {}"
        unfolding t(2) using quiet_trace [OF q] by (simp_all add: z)
      ultimately show ?thesis using t(1) by auto
    next
      case (Inr r)
      show ?thesis
      proof (cases "se_client env 3")
        case None
        let ?e = "[ClosedRemote r, ClosedLocal]"
        have t: "c' = reply 4 c" "tr = t @ ?e"
          using assms s d Inr None by (auto simp: serve_stream_def)
        have z: "opened ?e = {}" "closed_remotes ?e = {r}" "piped ?e = {}" "dial_targets ?e = {}"
          "in_flight i ?e = 0" for i
          by (auto simp: simps)
        have "balanced env tr" using o Inr None unfolding balanced_def t(2) by (simp add: z quiet_trace [OF q])
        moreover have "dial_targets tr \<subseteq> {target}" "piped tr = {}"
          unfolding t(2) using quiet_trace [OF q] by (simp_all add: z)
        ultimately show ?thesis using t(1) by auto
      next
        case (Some cl')
        let ?e = "Added cl' # pipe_both r (pipe_buffer cfg) (stream_idle_seconds cfg) @ [Removed cl', ClosedRemote r, ClosedLocal]"
        have t: "c' = reply 0 c" "tr = t @ ?e"
          using assms s d Inr Some by (auto simp: serve_stream_def)
        have z: "opened ?e = {}" "closed_remotes ?e = {r}" "piped ?e = {r}" "dial_targets ?e = {}"
          "in_flight i ?e = 0" for i
          by (auto simp: simps pipe_both_def)
        have "balanced env tr" using o Inr Some s unfolding balanced_def t(2) by (simp add: z quiet_trace [OF q])
        moreover have "dial_targets tr \<subseteq> {target}" "piped tr = {r}"
          unfolding t(2) using quiet_trace [OF q] by (simp_all add: z)
        ultimately show ?thesis using t(1) by auto
      qed
    qed
  qed
  then show "balanced env tr" "dial_targets tr \<subseteq> {target}"
    "\<exists>rep. c' = reply rep c \<and> (rep = 0) = (piped tr \<noteq> {})" by blast+
qed

lemma closed_local_balanced: "balanced env [ClosedLocal]" "dial_targets [ClosedLocal] = {}" "piped [ClosedLocal] = {}"
  by (auto simp: balanced_def closed_remotes_def opened_def piped_def dial_targets_def in_flight_def)

text \<open>C15: whatever the client and the tunnel do while a SOCKS5 client is served, every remote
  stream that was opened is closed again, the client's connection is closed, the in-flight counters return to
  what they were, nothing but the target of a completed handshake is dialed, and data is piped exactly
  when a stream was opened and an SSH client was published both before the dial and after it. If the handshake
  completed and no write to the client fails, the client gets one reply, and it is success (0) exactly then.\<close>

theorem socks_streams_fail_closed:
  "case handle_socks_client env cfg c of (c', tr) \<Rightarrow>
     balanced env tr \<and> dial_targets tr \<subseteq> {t. fst (socks5_handshake c) = Ok t} \<and>
     (writable c \<and> is_ok (fst (socks5_handshake c)) \<longrightarrow>
        (\<exists>rep. cn_out c' = cn_out (snd (socks5_handshake c)) @ [server_reply rep] \<and> (rep = 0) = (piped tr \<noteq> {})))"
proof (cases "socks5_handshake c")
  case (Pair out c1)
  show ?thesis
  proof (cases out)
    case (Inl e)
    then show ?thesis using Pair by (simp add: handle_socks_client_def is_ok_def closed_local_balanced)
  next
    case (Inr target)
    obtain c' tr where s: "serve_stream env cfg target (\<lambda>rep c. snd (socks5_reply rep c)) c1 = (c', tr)" by fastforce
    have r: "cn_out (snd (socks5_reply rep c1)) = cn_out c1 @ [server_reply rep]" if w: "writable c" for rep
    proof -
      obtain g r where "consumed c (g @ r) [[5, 0]] c1"
        using Pair Inr socks5_handshake_accepts_iff [OF w] by blast
      then have "writable c1" using w writable_consumed by blast
      then show ?thesis by (simp add: socks5_reply_def conn_write_def writable_def server_reply_def)
    qed
    show ?thesis using serve_stream_balanced [OF s] s Pair Inr r
      by (auto simp: handle_socks_client_def)
  qed
qed

definition sample_streams :: "nat stream_env" where
  "sample_streams = \<lparr>se_client = \<lambda>_. Some 0, se_dial = \<lambda>n _ _. if n = 0 then Err ''connect failed'' else Ok 7,
     se_original = Ok (2, 0x5000, 1, 2, 3, 4)\<rparr>"

theorem socks_streams_fail_closed_witness:
  "\<exists>tr c'. handle_socks_client sample_streams sample_config sample_conn = (c', tr) \<and> balanced sample_streams tr \<and>
     dial_targets tr \<subseteq> {''1.2.3.4:80''}"
proof -
  have "socks5_handshake sample_conn = (Ok ''1.2.3.4:80'', sample_after)"
    using socks5_handshake_accepts_iff [OF sample_writable] sample_exchange by blast
  with socks_streams_fail_closed [where env = sample_streams and cfg = sample_config and c = sample_conn] show ?thesis
    by (auto split: prod.splits)
qed

section \<open>Where the transparent handler connects to\<close>

lemma swap_port:
  fixes hi lo :: byte
  shows "uint (push_bit 8 ((256 * ucast lo + ucast hi) AND (0xff :: 16 word)) OR
     drop_bit 8 (256 * ucast lo + ucast hi :: 16 word)) = 256 * uint hi + uint lo"
proof -
  let ?x = "256 * uint lo + uint hi"
  have b: "0 \<le> uint hi" "uint hi < 256" "0 \<le> uint lo" "uint lo < 256"
    using uint_bounded [of hi] uint_bounded [of lo] by simp_all
  let ?w = "256 * ucast lo + ucast hi :: 16 word"
  have x: "uint ?w = ?x"
  proof -
    have "?w = word_of_int ?x" by simp
    then show ?thesis using b by (simp only: uint_word_of_int) simp
  qed
  have m: "uint (?w AND (0xff :: 16 word)) = uint hi"
  proof -
    have "uint (0xff :: 16 word) = mask 8" by (simp add: mask_eq_exp_minus_1)
    then have "uint (?w AND (0xff :: 16 word)) = take_bit 8 ?x"
      by (simp only: unsigned_and_eq x take_bit_eq_mask)
    also have "\<dots> = uint hi" using b by (simp add: take_bit_eq_mod)
    finally show ?thesis .
  qed
  have d: "uint (drop_bit 8 ?w) = uint lo"
    using b by (simp only: unsigned_drop_bit_eq x) (simp add: drop_bit_eq_div take_bit_eq_mod)
  have p: "uint (push_bit 8 (?w AND (0xff :: 16 word))) = 256 * uint hi"
    using b by (simp only: unsigned_push_bit_eq m) (simp add: push_bit_eq_mult take_bit_eq_mod mult.commute)
  have "uint (push_bit 8 (?w AND (0xff :: 16 word)) OR drop_bit 8 ?w) =
      (256 * uint hi) OR uint lo" by (simp only: unsigned_or_eq p d)
  also have "\<dots> = push_bit 8 (uint hi) OR take_bit 8 (uint lo)"
    using b by (simp add: push_bit_eq_mult take_bit_eq_mod mult.commute)
  also have "\<dots> = push_bit 8 (uint hi) + take_bit 8 (uint lo)"
    by (rule disjunctive_add [symmetric]) (auto simp: bit_push_bit_iff bit_take_bit_iff)
  also have "\<dots> = 256 * uint hi + uint lo"
    using b by (simp add: push_bit_eq_mult take_bit_eq_mod mult.commute)
  finally show ?thesis .
qed

lemma multicast_byte:
  fixes a :: byte
  shows "a AND 0xF0 = 0xE0 \<longleftrightarrow> a \<in> {224..239}"
proof -
  have b: "uint a < 256" "0 \<le> uint a" using uint_bounded [of a] by simp_all
  have "uint (a AND 0xF0) = 16 * (uint a div 16)"
  proof -
    have "(0xF0 :: int) = push_bit 4 (mask 4)" by (simp add: push_bit_eq_mult mask_eq_exp_minus_1)
    then have "uint (a AND 0xF0) = uint a AND push_bit 4 (mask 4)" by (simp add: unsigned_and_eq)
    also have "\<dots> = push_bit 4 (drop_bit 4 (uint a) AND mask 4)"
      by (auto intro!: bit_eqI simp: bit_and_iff bit_push_bit_iff bit_drop_bit_eq)
    also have "drop_bit 4 (uint a) AND mask 4 = take_bit 4 (drop_bit 4 (uint a))" by (simp only: take_bit_eq_mask)
    also have "push_bit 4 (take_bit 4 (drop_bit 4 (uint a))) = 16 * (uint a div 16 mod 16)"
      by (simp add: push_bit_eq_mult take_bit_eq_mod drop_bit_eq_div)
    also have "uint a div 16 mod 16 = uint a div 16" by (rule mod_pos_pos_trivial) (use b in linarith)+
    finally show ?thesis .
  qed
  moreover have "a AND 0xF0 = 0xE0 \<longleftrightarrow> uint (a AND 0xF0) = 224" by (simp add: word_uint_eq_iff)
  moreover have "a \<in> {224..239} \<longleftrightarrow> 224 \<le> uint a \<and> uint a \<le> 239" by (simp add: word_le_def)
  ultimately show ?thesis by simp linarith
qed

lemma dials_targets: "list_all (quiet_event t) tr \<Longrightarrow> dials tr \<noteq> [] \<Longrightarrow> t \<in> dial_targets tr"
  by (induction tr rule: dials.induct) (auto simp: dial_targets_def quiet_event_def)

lemma serve_stream_targets:
  assumes "serve_stream env cfg target reply c = (c', tr)"
  shows "dial_targets tr = (if se_client env 0 = None then {} else {target})"
proof (cases "se_client env 0")
  case None
  then show ?thesis using assms by (auto simp: serve_stream_def dial_targets_def)
next
  case (Some cl)
  obtain out t where d: "dial_stream_with_retry env cl target = (out, t)" by fastforce
  have "target \<in> dial_targets t"
    using dials_targets [of target t] dial_stream_quiet [of target env cl] dial_stream_ok [of env cl target] d by auto
  moreover have "dial_targets t \<subseteq> dial_targets tr"
    using assms Some d by (auto simp: serve_stream_def split: sum.splits option.splits)
  ultimately show ?thesis using serve_stream_balanced(2) [OF assms] Some by auto
qed

lemma own_address:
  "is_loopback (ipv4 a b c d) = (a = 127)" "is_unspecified (ipv4 a b c d) = ([a, b, c, d] = [0, 0, 0, 0])"
  "is_multicast (ipv4 a b c d) = (a \<in> {224..239})"
proof -
  have "ipv4 a b c d \<noteq> replicate 16 0"
  proof
    assume "ipv4 a b c d = replicate 16 0"
    then have "to4 (ipv4 a b c d) = to4 (replicate 16 0)" by simp
    then show False unfolding to4_ipv4 to4_zero16 by simp
  qed
  then show "is_unspecified (ipv4 a b c d) = ([a, b, c, d] = [0, 0, 0, 0])" by (simp add: is_unspecified_def)
qed (simp_all add: is_loopback_def is_multicast_def multicast_byte)

text \<open>C16: for every destination the kernel reports (the address a.b.c.d and the port whose bytes in
  network order are hi and lo), the transparent handler dials that address and port, and nothing else, exactly when an SSH
  client is published, the address is not 127.x.x.x, 0.0.0.0 or multicast, and the port is none of the configured API,
  SOCKS and redirect ports. Otherwise it dials nothing. It never writes to the client itself and keeps
  the same account as the SOCKS5 handler. (A port configured as 0 excludes nothing: the listener then uses its default.)\<close>

theorem transparent_targets_exact:
  fixes a b c d hi lo :: byte
  shows "case handle_transparent_client (env\<lparr>se_original := Ok (2, 256 * ucast lo + ucast hi, a, b, c, d)\<rparr>) cfg conn of
      (conn', tr) \<Rightarrow>
     conn' = conn \<and> balanced env tr \<and>
     dial_targets tr =
       (if se_client env 0 = None \<or> a = 127 \<or> [a, b, c, d] = [0, 0, 0, 0] \<or> a \<in> {224..239} \<or>
           256 * uint hi + uint lo \<in> {api_port (c_api cfg), lp_port (c_local cfg), tp_port (c_tproxy cfg)}
        then {} else {v4_string [a, b, c, d] @ '':'' @ itoa (256 * uint hi + uint lo)})"
proof -
  let ?p = "256 * uint hi + uint lo" and ?env = "env\<lparr>se_original := Ok (2, 256 * ucast lo + ucast hi, a, b, c, d)\<rparr>"
  let ?t = "join_host_port (ip_string (ipv4 a b c d)) (itoa ?p)"
  have b: "0 \<le> ?p" "?p \<le> 65535" using uint_bounded [of hi] uint_bounded [of lo] by simp_all
  have e: "se_original ?env = Ok (2, 256 * ucast lo + ucast hi, a, b, c, d)" by simp
  have o: "original_dst ?env = Ok ?t" unfolding original_dst_def e sum.case prod.case swap_port by simp
  have t: "?t = v4_string [a, b, c, d] @ '':'' @ itoa ?p"
    using v4_string_chars [of "CHR '':''" "[a, b, c, d]"]
    by (auto simp: join_host_port_def ip_string_def is_digit_def)
  have l: "is_local_or_blocked_target ?t cfg = (?p \<in> {api_port (c_api cfg), lp_port (c_local cfg), tp_port (c_tproxy cfg)} \<or>
      a = 127 \<or> [a, b, c, d] = [0, 0, 0, 0] \<or> a \<in> {224..239})"
    using blocked_targets_exact [OF b, of "ipv4 a b c d" cfg] by (simp only: own_address to4_ipv4) simp
  have bal: "balanced ?env tr = balanced env tr" for tr by (simp add: balanced_def)
  obtain conn' tr where s: "serve_stream ?env cfg ?t (\<lambda>_ c. c) conn = (conn', tr)" by fastforce
  have c: "se_client ?env = se_client env" by simp
  show ?thesis
  proof (cases "is_local_or_blocked_target ?t cfg")
    case True
    then have "handle_transparent_client ?env cfg conn = (conn, [ClosedLocal])"
      by (simp only: handle_transparent_client_def o sum.case if_True)
    then show ?thesis using True [unfolded l] closed_local_balanced by auto
  next
    case False
    then have "handle_transparent_client ?env cfg conn = (conn', tr)"
      by (simp only: handle_transparent_client_def o sum.case if_False s)
    moreover have "balanced env tr" using serve_stream_balanced(1) [OF s] by (simp only: bal)
    moreover have "conn' = conn" using serve_stream_balanced(3) [OF s] by blast
    moreover have "dial_targets tr = (if se_client env 0 = None then {} else {?t})"
      using serve_stream_targets [OF s] by (simp only: c)
    moreover have "(se_client env 0 = None \<or> a = 127 \<or> [a, b, c, d] = [0, 0, 0, 0] \<or> a \<in> {224..239} \<or>
        ?p \<in> {api_port (c_api cfg), lp_port (c_local cfg), tp_port (c_tproxy cfg)}) = (se_client env 0 = None)"
      using False [unfolded l] by blast
    ultimately show ?thesis by (simp only: prod.case t simp_thms)
  qed
qed

section \<open>Copying\<close>

text \<open>
  \<open>writeAll\<close>: \<open>w k\<close> is what the \<open>k\<close>-th \<open>Write\<close> answers, the number of bytes it took and its error. A
  \<open>net.Conn\<close> never reports more bytes than it was given.
\<close>

function write_all :: "(nat \<Rightarrow> nat \<times> string option) \<Rightarrow> nat \<Rightarrow> byte list \<Rightarrow> nat \<times> string option" where
  "write_all w k b =
     (if b = [] then (0, None)
      else case w k of (n, err) \<Rightarrow>
        let n = min n (length b) in
        case err of
          Some e \<Rightarrow> (n, Some e)
        | None \<Rightarrow>
            if n = 0 then (0, Some ''short write'')
            else (case write_all w (Suc k) (drop n b) of (sent, e) \<Rightarrow> (n + sent, e)))"
  by pat_completeness auto
termination
  by (relation "measure (\<lambda>(w, k, b). length b)") auto

declare write_all.simps [simp del]

lemma write_all_bounds:
  "case write_all w k b of (sent, err) \<Rightarrow> sent \<le> length b \<and> (err = None \<longrightarrow> sent = length b)"
proof (induction w k b rule: write_all.induct)
  case (1 w k b)
  show ?case
  proof (cases "b = []")
    case True
    then show ?thesis by (simp add: write_all.simps)
  next
    case False
    obtain n e where n: "w k = (n, e)" by fastforce
    have e: "write_all w k b = (case e of Some e \<Rightarrow> (min n (length b), Some e)
        | None \<Rightarrow> if min n (length b) = 0 then (0, Some ''short write'')
            else (case write_all w (Suc k) (drop (min n (length b)) b) of (sent, e) \<Rightarrow> (min n (length b) + sent, e)))"
      using False n by (subst write_all.simps) (simp add: Let_def)
    show ?thesis
    proof (cases "e = None \<and> min n (length b) \<noteq> 0")
      case True
      then have c: "e = None" "min n (length b) \<noteq> 0" by simp_all
      note r = "1.IH" [OF False n [symmetric] refl c]
      from r c show ?thesis unfolding e by (auto split: prod.splits)
    next
      case f: False
      then show ?thesis unfolding e by (auto split: option.splits)
    qed
  qed
qed

text \<open>
  \<open>pipeBoth\<close> as a step relation: two pumps, one per direction, and the loop that waits for them. A
  pump reads a chunk and passes it to \<open>writeAll\<close>, whose outcome is in the event; it stops at a read
  error, half-closing its destination when that is a TCP connection, or at a write error. The
  loop enters a grace period when one pump is done and closes both connections when the second is
  done, when the grace period is over or when the idle timer fires.
\<close>

datatype dir = AtoB | BtoA

datatype copy_phase = Copying | Grace | AllClosed

record pipe =
  p_read :: "dir \<Rightarrow> byte list"
  p_sent :: "dir \<Rightarrow> byte list"
  p_lost :: "dir \<Rightarrow> bool"
  p_running :: "dir \<Rightarrow> bool"
  p_half :: "dir \<Rightarrow> bool"
  p_phase :: copy_phase

datatype pevent =
    Chunk dir "byte list" "nat \<Rightarrow> nat \<times> string option"
  | ReadError dir
  | PumpDone
  | SecondDone
  | GraceOver
  | IdleTimeout

definition pump_chunk :: "dir \<Rightarrow> byte list \<Rightarrow> (nat \<Rightarrow> nat \<times> string option) \<Rightarrow> pipe \<Rightarrow> pipe" where
  "pump_chunk d b w p =
     (case write_all w 0 b of (sent, err) \<Rightarrow>
        p\<lparr>p_read := (p_read p)(d := p_read p d @ b), p_sent := (p_sent p)(d := p_sent p d @ take sent b),
          p_lost := (p_lost p)(d := err \<noteq> None), p_running := (p_running p)(d := err = None)\<rparr>)"

definition pump_read_error :: "(dir \<Rightarrow> bool) \<Rightarrow> dir \<Rightarrow> pipe \<Rightarrow> pipe" where
  "pump_read_error tcp d p =
     p\<lparr>p_running := (p_running p)(d := False), p_half := (if tcp d then (p_half p)(d := True) else p_half p)\<rparr>"

inductive pstep :: "(dir \<Rightarrow> bool) \<Rightarrow> pipe \<Rightarrow> pevent \<Rightarrow> pipe \<Rightarrow> bool" for tcp where
  chunk: "p_running p d \<Longrightarrow> p_phase p \<noteq> AllClosed \<Longrightarrow> pstep tcp p (Chunk d b w) (pump_chunk d b w p)"
| read_error: "p_running p d \<Longrightarrow> pstep tcp p (ReadError d) (pump_read_error tcp d p)"
| pump_done: "p_phase p = Copying \<Longrightarrow> \<not> p_running p d \<Longrightarrow> pstep tcp p PumpDone (p\<lparr>p_phase := Grace\<rparr>)"
| second_done: "p_phase p = Grace \<Longrightarrow> (\<And>d. \<not> p_running p d) \<Longrightarrow> pstep tcp p SecondDone (p\<lparr>p_phase := AllClosed\<rparr>)"
| grace_over: "p_phase p = Grace \<Longrightarrow> pstep tcp p GraceOver (p\<lparr>p_phase := AllClosed\<rparr>)"
| idle: "p_phase p = Copying \<Longrightarrow> pstep tcp p IdleTimeout (p\<lparr>p_phase := AllClosed\<rparr>)"

inductive preach :: "(dir \<Rightarrow> bool) \<Rightarrow> pipe \<Rightarrow> pipe \<Rightarrow> bool" for tcp p0 where
  start: "preach tcp p0 p0"
| step: "preach tcp p0 p \<Longrightarrow> pstep tcp p e p' \<Longrightarrow> preach tcp p0 p'"

inductive_cases pstep_ChunkE: "pstep tcp p (Chunk d b w) p'"
inductive_simps pstep_GraceOver_iff: "pstep tcp p GraceOver p'"
inductive_simps pstep_PumpDone_iff: "pstep tcp p PumpDone p'"

definition pipe_start :: pipe where
  "pipe_start = \<lparr>p_read = \<lambda>_. [], p_sent = \<lambda>_. [], p_lost = \<lambda>_. False, p_running = \<lambda>_. True, p_half = \<lambda>_. False,
     p_phase = Copying\<rparr>"

definition pipe_inv :: "pipe \<Rightarrow> bool" where
  "pipe_inv p =
     (\<forall>d. prefix (p_sent p d) (p_read p d) \<and>
          (\<not> p_lost p d \<longrightarrow> p_sent p d = p_read p d) \<and>
          (p_lost p d \<longrightarrow> \<not> p_running p d) \<and>
          (p_half p d \<longrightarrow> \<not> p_running p d \<and> p_sent p d = p_read p d) \<and>
          (p_phase p = Grace \<longrightarrow> (\<exists>d. \<not> p_running p d)))"

lemma pump_chunk_inv:
  assumes "pipe_inv p" "p_running p d"
  shows "pipe_inv (pump_chunk d b w p)"
proof -
  obtain sent err where w: "write_all w 0 b = (sent, err)" by fastforce
  have s: "err = None \<Longrightarrow> take sent b = b" using write_all_bounds [where w = w and k = 0 and b = b] w by simp
  have i: "prefix (p_sent p i) (p_read p i) \<and> (\<not> p_lost p i \<longrightarrow> p_sent p i = p_read p i) \<and>
      (p_lost p i \<longrightarrow> \<not> p_running p i) \<and> (p_half p i \<longrightarrow> \<not> p_running p i \<and> p_sent p i = p_read p i) \<and>
      (p_phase p = Grace \<longrightarrow> (\<exists>d. \<not> p_running p d))" for i
    using assms(1) unfolding pipe_inv_def by blast
  have p: "p_sent p d = p_read p d" "\<not> p_half p d" using i [of d] assms(2) by blast+
  have g: "p_phase p = Grace \<longrightarrow> (\<exists>j. \<not> p_running p j \<and> j \<noteq> d)" using i [of d] assms(2) by blast
  let ?q = "pump_chunk d b w p"
  have q: "p_read ?q = (p_read p)(d := p_read p d @ b)" "p_sent ?q = (p_sent p)(d := p_sent p d @ take sent b)"
    "p_lost ?q = (p_lost p)(d := err \<noteq> None)" "p_running ?q = (p_running p)(d := err = None)"
    "p_half ?q = p_half p" "p_phase ?q = p_phase p"
    by (simp_all add: pump_chunk_def w)
  have x: "prefix (p_read p d @ take sent b) (p_read p d @ b)" by (simp add: take_is_prefix)
  show ?thesis unfolding pipe_inv_def q
  proof
    fix j
    show "prefix (((p_sent p)(d := p_sent p d @ take sent b)) j) (((p_read p)(d := p_read p d @ b)) j) \<and>
        (\<not> ((p_lost p)(d := err \<noteq> None)) j \<longrightarrow>
           ((p_sent p)(d := p_sent p d @ take sent b)) j = ((p_read p)(d := p_read p d @ b)) j) \<and>
        (((p_lost p)(d := err \<noteq> None)) j \<longrightarrow> \<not> ((p_running p)(d := err = None)) j) \<and>
        (p_half p j \<longrightarrow> \<not> ((p_running p)(d := err = None)) j \<and>
           ((p_sent p)(d := p_sent p d @ take sent b)) j = ((p_read p)(d := p_read p d @ b)) j) \<and>
        (p_phase p = Grace \<longrightarrow> (\<exists>i. \<not> ((p_running p)(d := err = None)) i))"
    proof (cases "j = d")
      case True
      then show ?thesis using p g s x by auto
    next
      case False
      then show ?thesis using i [of j] g by auto
    qed
  qed
qed

lemma pstep_inv: "pstep tcp p e p' \<Longrightarrow> pipe_inv p \<Longrightarrow> pipe_inv p'"
proof (induction rule: pstep.induct)
  case (chunk p d b w)
  then show ?case by (simp add: pump_chunk_inv)
next
  case (read_error p d)
  then show ?case unfolding pipe_inv_def pump_read_error_def by auto
qed (auto simp: pipe_inv_def)

lemma preach_inv: "preach tcp p0 p \<Longrightarrow> pipe_inv p0 \<Longrightarrow> pipe_inv p"
  by (induction rule: preach.induct) (auto intro: pstep_inv)

lemma pipe_start_inv: "pipe_inv pipe_start"
  by (simp add: pipe_inv_def pipe_start_def)

lemma preach_trans: "preach tcp p q \<Longrightarrow> preach tcp r p \<Longrightarrow> preach tcp r q"
  by (induction rule: preach.induct) (auto intro: preach.step)

text \<open>C18: at every moment of a piped stream, and in both directions, what was
  written is a prefix of what was read, and all of it as long as no write failed; a failed write
  ends its direction; the write side of a connection is only ever half-closed when everything
  read for it has been delivered.\<close>

theorem pipe_delivers_in_order:
  assumes "preach tcp pipe_start p"
  shows "prefix (p_sent p d) (p_read p d) \<and>
     (if p_lost p d then \<not> p_running p d else p_sent p d = p_read p d) \<and>
     (if p_half p d then \<not> p_running p d \<and> p_sent p d = p_read p d else True)"
  using preach_inv [OF assms pipe_start_inv] by (auto simp: pipe_inv_def)

definition all_at_once :: "byte list \<Rightarrow> nat \<Rightarrow> nat \<times> string option" where
  "all_at_once b k = (length b, None)"

lemma sample_pipe_step:
  "preach (\<lambda>_. True) pipe_start (pump_chunk AtoB [1, 2] (all_at_once [1, 2]) pipe_start)"
  by (rule preach.step [OF preach.start pstep.chunk]) (simp_all add: pipe_start_def)

theorem pipe_delivers_in_order_witness:
  "\<exists>p. preach (\<lambda>_. True) pipe_start p \<and> p_read p AtoB = [1, 2] \<and> prefix (p_sent p AtoB) [1, 2]"
proof -
  let ?p = "pump_chunk AtoB [1, 2] (all_at_once [1, 2]) pipe_start"
  have "p_read ?p AtoB = [1, 2]" by (simp add: pump_chunk_def pipe_start_def split: prod.splits)
  then show ?thesis using sample_pipe_step pipe_delivers_in_order [OF sample_pipe_step, of AtoB] by metis
qed

text \<open>The grace period does not ask whether the other direction is still busy: 400 ms after a client has
  half-closed its side, the answer it waits for is cut off.\<close>

lemma grace_cuts_other_direction:
  assumes "p_phase p = Copying" "p_running p AtoB" "p_running p BtoA"
  shows "\<exists>q. preach tcp p q \<and> p_phase q = AllClosed \<and> p_running q BtoA \<and> p_lost q = p_lost p"
proof -
  let ?a = "pump_read_error tcp AtoB p" let ?b = "?a\<lparr>p_phase := Grace\<rparr>" let ?c = "?b\<lparr>p_phase := AllClosed\<rparr>"
  have "preach tcp p ?a" by (rule preach.step [OF preach.start pstep.read_error]) (rule assms(2))
  then have "preach tcp p ?b"
    by (rule preach.step [OF _ pstep.pump_done [where d = AtoB]]) (simp_all add: pump_read_error_def assms)
  then have "preach tcp p ?c" by (rule preach.step [OF _ pstep.grace_over]) simp
  then show ?thesis using assms(3)
    by (intro exI [of _ ?c]) (simp add: pump_read_error_def)
qed

section \<open>The listeners\<close>

text \<open>
  \<open>serveSOCKS\<close> and \<open>serveTransparent\<close> as the state of their listener: bound or not, with the error the
  state shows, and one handler per accepted connection until \<open>Accept\<close> fails, which the cancelled
  context brings about by closing the listener.
\<close>

record listener =
  ln_running :: bool
  ln_addr :: string
  ln_error :: string

definition serve_socks :: "config \<Rightarrow> string option \<Rightarrow> listener \<Rightarrow> listener" where
  "serve_socks cfg listen_error ln =
     (case listen_error of
        Some e \<Rightarrow> ln\<lparr>ln_running := False, ln_error := ''SOCKS5 listen failed: '' @ e\<rparr>
      | None \<Rightarrow> ln\<lparr>ln_running := True, ln_addr := socks_addr cfg\<rparr>)"

definition serve_transparent :: "config \<Rightarrow> string option \<Rightarrow> listener \<Rightarrow> listener" where
  "serve_transparent cfg listen_error ln =
     (case listen_error of
        Some e \<Rightarrow> ln\<lparr>ln_running := False, ln_error := ''transparent listen failed: '' @ e\<rparr>
      | None \<Rightarrow> ln\<lparr>ln_running := True, ln_addr := transparent_addr cfg\<rparr>)"

definition accept_failed :: "listener \<Rightarrow> listener" where
  "accept_failed ln = ln\<lparr>ln_running := False\<rparr>"

text \<open>\<open>startListeners\<close>: which services are started.\<close>

datatype service = SocksService | TransparentService | DnsForwardService string string

definition start_listeners :: "config \<Rightarrow> service list" where
  "start_listeners cfg =
     (if lp_enabled (c_local cfg) then [SocksService] else []) @
     (if tp_enabled (c_tproxy cfg) then [TransparentService] else []) @
     [DnsForwardService (''127.0.0.1:'' @ itoa dns_forward_port) ''8.8.8.8:53'']"


section \<open>The copying ends\<close>

text \<open>Runs of \<open>pipeBoth\<close> with their events; the data events are the chunks.\<close>

inductive ptrace :: "(dir \<Rightarrow> bool) \<Rightarrow> pipe \<Rightarrow> pevent list \<Rightarrow> pipe \<Rightarrow> bool" for tcp p0 where
  start: "ptrace tcp p0 [] p0"
| step: "ptrace tcp p0 es p \<Longrightarrow> pstep tcp p e p' \<Longrightarrow> ptrace tcp p0 (es @ [e]) p'"

definition is_chunk :: "pevent \<Rightarrow> bool" where
  "is_chunk e = (case e of Chunk d b w \<Rightarrow> True | _ \<Rightarrow> False)"

text \<open>What is left to happen: the pumps that run, and the phases of the loop.\<close>

definition pipe_left :: "pipe \<Rightarrow> nat" where
  "pipe_left p = of_bool (p_running p AtoB) + of_bool (p_running p BtoA) +
     (case p_phase p of Copying \<Rightarrow> 2 | Grace \<Rightarrow> 1 | AllClosed \<Rightarrow> 0)"

lemma stop_pump_left: "p_running p d \<Longrightarrow> of_bool ((f(d := False)) AtoB) + of_bool ((f(d := False)) BtoA) + (1 :: nat) \<le>
    of_bool (p_running p AtoB) + of_bool (p_running p BtoA)" if "f = p_running p"
  using that by (cases d) auto

lemma pstep_left: "pstep tcp p e p' \<Longrightarrow> pipe_left p' + (if is_chunk e then 0 else 1) \<le> pipe_left p"
proof (induction rule: pstep.induct)
  case (chunk p d b w)
  then show ?case by (cases d) (auto simp: pipe_left_def is_chunk_def pump_chunk_def split: prod.splits)
next
  case (read_error p d)
  then show ?case by (cases d) (auto simp: pipe_left_def is_chunk_def pump_read_error_def)
qed (simp_all add: pipe_left_def is_chunk_def)

lemma ptrace_left: "ptrace tcp p0 es p \<Longrightarrow> pipe_left p + length (filter (\<lambda>e. \<not> is_chunk e) es) \<le> pipe_left p0"
  by (induction rule: ptrace.induct) (use pstep_left in \<open>fastforce split: if_splits\<close>)+

text \<open>C27: besides the chunks that are copied, a connection pair sees at most four events
  before it is closed on both sides, and it can never be stuck before: while it copies the idle
  timer can close it, and in the grace period the end of that period. So a pair on which no data flows is
  always closed.\<close>

theorem pipe_both_terminates:
  assumes "ptrace tcp pipe_start es p"
  shows "length (filter (\<lambda>e. \<not> is_chunk e) es) \<le> 4 \<and>
     (p_phase p = AllClosed \<or> (\<exists>e p'. \<not> is_chunk e \<and> pstep tcp p e p' \<and> pipe_left p' < pipe_left p))"
proof -
  have "length (filter (\<lambda>e. \<not> is_chunk e) es) \<le> 4"
    using ptrace_left [OF assms] by (simp add: pipe_left_def pipe_start_def)
  moreover have "\<exists>e p'. \<not> is_chunk e \<and> pstep tcp p e p'" if "p_phase p \<noteq> AllClosed"
  proof (cases "p_phase p")
    case Copying
    from pstep.idle [OF this] show ?thesis by (intro exI [of _ IdleTimeout]) (auto simp: is_chunk_def)
  next
    case Grace
    from pstep.grace_over [OF this] show ?thesis by (intro exI [of _ GraceOver]) (auto simp: is_chunk_def)
  qed (use that in simp)
  moreover have "pipe_left p' < pipe_left p" if "pstep tcp p e p'" "\<not> is_chunk e" for e p'
    using pstep_left [OF that(1)] that(2) by simp
  ultimately show ?thesis by blast
qed

theorem pipe_both_terminates_witness:
  "\<exists>p. ptrace (\<lambda>_. True) pipe_start [ReadError AtoB, PumpDone, GraceOver] p \<and> p_phase p = AllClosed"
proof -
  let ?p1 = "pump_read_error (\<lambda>_. True) AtoB pipe_start"
  let ?p2 = "?p1\<lparr>p_phase := Grace\<rparr>"
  have a: "ptrace (\<lambda>_. True) pipe_start [ReadError AtoB] ?p1"
    using ptrace.step [OF ptrace.start pstep.read_error] by (simp add: pipe_start_def)
  have b: "ptrace (\<lambda>_. True) pipe_start [ReadError AtoB, PumpDone] ?p2"
    using ptrace.step [OF a pstep.pump_done [of _ AtoB]] by (simp add: pump_read_error_def pipe_start_def)
  have c: "ptrace (\<lambda>_. True) pipe_start [ReadError AtoB, PumpDone, GraceOver] (?p2\<lparr>p_phase := AllClosed\<rparr>)"
    using ptrace.step [OF b pstep.grace_over] by simp
  from pipe_both_terminates [OF c] show ?thesis using c by (intro exI [of _ "?p2\<lparr>p_phase := AllClosed\<rparr>"]) simp
qed

end
