(* ===== verification/DnsForward.thy ===== *)
theory DnsForward
  imports ByteIO
begin

text \<open>
  The DNS forwarder of \<open>cmd/sshcustomd/engine.go\<close>: \<open>dnsForwardLoop\<close> takes UDP queries, \<open>forwardOneDNSQuery\<close>
  sends each over a stream of the SSH tunnel as DNS over TCP (RFC 1035, a two-byte length before
  the message) and passes the answer back. Which client is published at each look, whether the
  context is done, and what a dial gives are the record \<open>forward_env\<close>.
\<close>

record forward_env =
  fw_client :: "nat \<Rightarrow> nat option"
  fw_cancelled :: "nat \<Rightarrow> bool"
  fw_dial :: "nat \<Rightarrow> string \<Rightarrow> conn result"

text \<open>Up to four more looks at the client pointer, half a second apart; \<open>None\<close> if the context ends first.\<close>

fun await_client :: "('m) forward_env_scheme \<Rightarrow> nat \<Rightarrow> nat \<Rightarrow> nat option" where
  "await_client env i 0 = None"
| "await_client env i (Suc n) =
     (if fw_cancelled env i then None
      else case fw_client env (Suc i) of Some c \<Rightarrow> Some c | None \<Rightarrow> await_client env (Suc i) n)"

definition forward_client :: "('m) forward_env_scheme \<Rightarrow> nat option" where
  "forward_client env = (case fw_client env 0 of Some c \<Rightarrow> Some c | None \<Rightarrow> await_client env 0 4)"

definition dns_frame :: "byte list \<Rightarrow> byte list" where
  "dns_frame query = be16_bytes (int (length query)) @ query"

text \<open>The exchange on the stream. The check against 65535 is in the code and can never fail.\<close>

definition dns_exchange :: "byte list \<Rightarrow> byte list io" where
  "dns_exchange query =
     io_bind (conn_write (dns_frame query)) (\<lambda>_.
       io_bind (read_full 2) (\<lambda>hdr.
         let resp_len = be16 (hdr ! 0) (hdr ! 1) in
         if resp_len < 12 \<or> 65535 < resp_len then io_fail [] else read_full resp_len))"

text \<open>\<open>forwardOneDNSQuery\<close>: the answer sent back to the client, if any, and the stream as it was closed.\<close>

definition forward_one_dns_query ::
  "('m) forward_env_scheme \<Rightarrow> string \<Rightarrow> byte list \<Rightarrow> byte list option \<times> conn option" where
  "forward_one_dns_query env upstream query =
     (case forward_client env of
        None \<Rightarrow> (None, None)
      | Some c \<Rightarrow>
          (case fw_dial env c upstream of
             Inl e \<Rightarrow> (None, None)
           | Inr tcp \<Rightarrow>
               (case dns_exchange query tcp of
                  (Inl e, tcp) \<Rightarrow> (None, Some tcp)
                | (Inr resp, tcp) \<Rightarrow> (Some resp, Some tcp))))"

text \<open>What the loop's \<open>ReadFromUDP\<close> can answer: a datagram (cut to the 1500 bytes of the buffer), or an
  error that is a timeout or not.\<close>

datatype 'a udp_read = Datagram 'a "byte list" | ReadTimeout | ReadFailed string

fun dns_forward_loop :: "(nat \<Rightarrow> bool) \<Rightarrow> nat \<Rightarrow> 'a udp_read list \<Rightarrow> string option \<times> ('a \<times> byte list) list" where
  "dns_forward_loop cancelled i [] = (None, [])"
| "dns_forward_loop cancelled i (Datagram src b # rs) =
     (let query = take 1500 b; (err, qs) = dns_forward_loop cancelled (Suc i) rs in
      if length query < 12 then (err, qs) else (err, (src, query) # qs))"
| "dns_forward_loop cancelled i (ReadTimeout # rs) =
     (if cancelled i then (None, []) else dns_forward_loop cancelled (Suc i) rs)"
| "dns_forward_loop cancelled i (ReadFailed e # rs) =
     (if cancelled i then (None, []) else (Some (''read udp: '' @ e), []))"

text \<open>\<open>measureLatency\<close>: the time a dial through the tunnel takes, in milliseconds.\<close>

definition measure_latency ::
  "nat option \<Rightarrow> (nat \<Rightarrow> string \<Rightarrow> conn result) \<Rightarrow> (int \<times> int) \<Rightarrow> string \<Rightarrow> int result" where
  "measure_latency cl dial clock target =
     (case cl of
        None \<Rightarrow> Err ''tunnel not connected''
      | Some c \<Rightarrow> (case dial c target of Inl e \<Rightarrow> Err e | Inr _ \<Rightarrow> Ok ((snd clock - fst clock) div 1000000)))"

section \<open>The framing\<close>

text \<open>A DNS-over-TCP peer: reads the length, then that many bytes.\<close>

definition read_message :: "byte list io" where
  "read_message = io_bind (read_full 2) (\<lambda>h. read_full (be16 (h ! 0) (h ! 1)))"

lemma read_message_frame:
  assumes "length m < 65536" "cn_in c = dns_frame m @ rest"
  shows "read_message c = (Ok m, c\<lparr>cn_in := rest\<rparr>)"
proof -
  have h: "read_full 2 c = (Ok (be16_bytes (int (length m))), c\<lparr>cn_in := m @ rest\<rparr>)"
    using assms(2) by (simp add: read_full_def dns_frame_def)
  have "be16 (be16_bytes (int (length m)) ! 0) (be16_bytes (int (length m)) ! 1) = length m"
    using be16_round [of "int (length m)"] assms(1) by simp
  then show ?thesis unfolding read_message_def io_bind_simps(2) [of "read_full 2", OF h]
    by (simp add: read_full_def)
qed

lemma dns_exchange_answer:
  assumes "cn_werr c = (\<lambda>_. None)" "cn_in c = dns_frame m @ rest" "12 \<le> length m" "length m < 65536"
  shows "dns_exchange query c = (Ok m, c\<lparr>cn_in := rest, cn_out := cn_out c @ [dns_frame query]\<rparr>)"
proof -
  let ?c = "c\<lparr>cn_out := cn_out c @ [dns_frame query]\<rparr>"
  have w: "conn_write (dns_frame query) c = (Ok (), ?c)" using assms(1) by (simp add: conn_write_def)
  have h: "read_full 2 ?c = (Ok (be16_bytes (int (length m))), ?c\<lparr>cn_in := m @ rest\<rparr>)"
    using assms(2) by (simp add: read_full_def dns_frame_def)
  have "be16 (be16_bytes (int (length m)) ! 0) (be16_bytes (int (length m)) ! 1) = length m"
    using be16_round [of "int (length m)"] assms(4) by simp
  then show ?thesis
    unfolding dns_exchange_def io_bind_simps(2) [of "conn_write (dns_frame query)", OF w]
      io_bind_simps(2) [of "read_full 2", OF h]
    using assms(3,4) by (simp add: Let_def read_full_def)
qed

lemma dns_exchange_ok:
  assumes "dns_exchange query c = (Ok m, c')"
  shows "cn_in c = dns_frame m @ cn_in c' \<and> 12 \<le> length m \<and> cn_out c' = cn_out c @ [dns_frame query]"
proof -
  from assms have w: "cn_werr c (length (cn_out c)) = None"
    by (auto simp: dns_exchange_def io_bind_def conn_write_def split: option.splits)
  let ?c = "c\<lparr>cn_out := cn_out c @ [dns_frame query]\<rparr>"
  have "conn_write (dns_frame query) c = (Ok (), ?c)" using w by (simp add: conn_write_def)
  with assms have "io_bind (read_full 2) (\<lambda>hdr. let resp_len = be16 (hdr ! 0) (hdr ! 1) in
         if resp_len < 12 \<or> 65535 < resp_len then io_fail [] else read_full resp_len) ?c = (Ok m, c')"
    by (simp add: dns_exchange_def)
  then obtain h c1 where h: "read_full 2 ?c = (Ok h, c1)"
    "(let resp_len = be16 (h ! 0) (h ! 1) in
         if resp_len < 12 \<or> 65535 < resp_len then io_fail [] else read_full resp_len) c1 = (Ok m, c')"
    by (auto simp: io_bind_def split: sum.splits prod.splits)
  then have m: "12 \<le> be16 (h ! 0) (h ! 1)" "read_full (be16 (h ! 0) (h ! 1)) c1 = (Ok m, c')"
    by (auto simp: Let_def split: if_splits)
  from h(1) have a: "length h = 2" "cn_in c = h @ cn_in c1" "c1 = ?c\<lparr>cn_in := cn_in c1\<rparr>"
    unfolding read_full_ok by simp_all
  from m(2) have b: "length m = be16 (h ! 0) (h ! 1)" "cn_in c1 = m @ cn_in c'" "c' = c1\<lparr>cn_in := cn_in c'\<rparr>"
    unfolding read_full_ok by simp_all
  obtain x y where xy: "h = [x, y]" using a(1) by (auto simp: numeral_eq_Suc length_Suc_conv)
  have "be16_bytes (int (length m)) = h" using b(1) xy by (simp add: be16_bytes_inverse)
  then have "cn_in c = dns_frame m @ cn_in c'" using a(2) b(2) by (simp add: dns_frame_def)
  moreover have "cn_out c' = cn_out c @ [dns_frame query]"
    using arg_cong [OF a(3), of cn_out] arg_cong [OF b(3), of cn_out] by simp
  ultimately show ?thesis using m(1) b(1) by simp
qed

section \<open>What is relayed\<close>

lemma forward_loop_query:
  "(s, q) \<in> set (snd (dns_forward_loop cancelled i rs)) \<Longrightarrow>
   \<exists>b. q = take 1500 b \<and> Datagram s b \<in> set rs \<and> 12 \<le> length b"
proof (induction cancelled i rs rule: dns_forward_loop.induct)
  case (2 cancelled i src b rs)
  then consider "s = src" "q = take 1500 b" "12 \<le> length b"
    | "(s, q) \<in> set (snd (dns_forward_loop cancelled (Suc i) rs))"
    by (auto simp: Let_def split: prod.splits if_splits)
  then show ?case
  proof cases
    case 1
    then show ?thesis by auto
  next
    case 2
    then show ?thesis using "2.IH" by (metis list.set_intros(2))
  qed
qed (auto split: if_splits)

lemma forward_loop_queries:
  "set (snd (dns_forward_loop cancelled i rs)) \<subseteq> {(s, take 1500 b) | s b. Datagram s b \<in> set rs \<and> 12 \<le> length b}"
  using forward_loop_query by fastforce

text \<open>An answer goes back to a client only if it is exactly one message that came
  framed on the stream opened through a published SSH client, of at least the twelve bytes of a
  DNS header, after the query was sent framed on that stream. The forwarded queries are datagrams
  of at least a header, cut to 1500 bytes, each with the address it came from.\<close>

theorem dns_relay_is_faithful:
  "(case forward_one_dns_query env upstream query of
      (Some m, Some t') \<Rightarrow>
        \<exists>c t. forward_client env = Some c \<and> fw_dial env c upstream = Ok t \<and>
          cn_in t = dns_frame m @ cn_in t' \<and> 12 \<le> length m \<and> cn_out t' = cn_out t @ [dns_frame query]
    | (Some m, None) \<Rightarrow> False
    | (None, _) \<Rightarrow> True) \<and>
   set (snd (dns_forward_loop cancelled i rs)) \<subseteq> {(s, take 1500 b) | s b. Datagram s b \<in> set rs \<and> 12 \<le> length b}"
  using forward_loop_queries [of cancelled i rs]
  by (auto simp: forward_one_dns_query_def dest: dns_exchange_ok split: option.splits sum.splits prod.splits)

text \<open>C17: on a stream that works, the upstream resolver decodes exactly the client's query
  from what the daemon sends, and the client gets exactly the resolver's message, for every query and every
  message of a DNS header or more.\<close>

theorem dns_query_roundtrip:
  assumes "forward_client env = Some c" "fw_dial env c upstream = Ok t" "cn_werr t = (\<lambda>_. None)"
    and "cn_in t = dns_frame m @ rest" "12 \<le> length m" "length m < 65536" "length query < 65536"
  shows "\<exists>t'. forward_one_dns_query env upstream query = (Some m, Some t') \<and>
     cn_out t' = cn_out t @ [dns_frame query] \<and>
     (\<forall>peer more. fst (read_message (peer\<lparr>cn_in := dns_frame query @ more\<rparr>)) = Ok query)"
proof -
  have "forward_one_dns_query env upstream query =
      (Some m, Some (t\<lparr>cn_in := rest, cn_out := cn_out t @ [dns_frame query]\<rparr>))"
    using assms(1,2) dns_exchange_answer [OF assms(3-6), of query] by (simp add: forward_one_dns_query_def)
  moreover have "fst (read_message (peer\<lparr>cn_in := dns_frame query @ more\<rparr>)) = Ok query" for peer :: conn and more
    using read_message_frame [OF assms(7), of "peer\<lparr>cn_in := dns_frame query @ more\<rparr>" more] by simp
  ultimately show ?thesis by simp
qed

definition sample_message :: "byte list" where
  "sample_message = [0, 1, 1, 0, 0, 1, 0, 0, 0, 0, 0, 0, 7]"

definition sample_stream :: conn where
  "sample_stream = \<lparr>cn_in = dns_frame sample_message @ [], cn_end = ''EOF'', cn_out = [], cn_werr = \<lambda>_. None\<rparr>"

definition sample_forward :: forward_env where
  "sample_forward = \<lparr>fw_client = \<lambda>i. if i < 2 then None else Some 1, fw_cancelled = \<lambda>_. False,
     fw_dial = \<lambda>_ _. Ok sample_stream\<rparr>"

theorem dns_query_roundtrip_witness:
  "\<exists>t'. forward_one_dns_query sample_forward ''8.8.8.8:53'' (sample_message @ [9]) = (Some sample_message, Some t')"
proof -
  have "forward_client sample_forward = Some 1"
    by (simp add: forward_client_def sample_forward_def numeral_eq_Suc)
  moreover have "fw_dial sample_forward 1 ''8.8.8.8:53'' = Ok sample_stream" by (simp add: sample_forward_def)
  ultimately show ?thesis
    using dns_query_roundtrip [of sample_forward 1 "''8.8.8.8:53''" sample_stream sample_message "[]" "sample_message @ [9]"]
    by (auto simp: sample_stream_def sample_message_def)
qed

end
