(* ===== verification/Payload.thy ===== *)
theory Payload
  imports Profiles "HOL-Library.Multiset"
begin

text \<open>
  The text the transport of a profile sends and reads (\<open>cmd/sshcustomd/main.go\<close>): filling in a payload
  template (\<open>renderPayload\<close>), finding HTTP status codes and the SSH banner in a response, deciding
  whether the statuses are allowed, previews for messages, and the classification of errors by
  their text.
\<close>

section \<open>Templates\<close>

definition payload_table :: "profile \<Rightarrow> (string \<times> string) list" where
  "payload_table p =
     [(''[crlf]'', crlf), (''[lf]'', [CHR 0x0A]),
      (''[host]'', ssh_host (p_ssh p)), (''[port]'', itoa (ssh_port (p_ssh p))),
      (''[ssh_host]'', ssh_host (p_ssh p)), (''[ssh_port]'', itoa (ssh_port (p_ssh p))),
      (''[sni]'', case t_tls (p_transport p) of None \<Rightarrow> [] | Some t \<Rightarrow> tls_server_name t),
      (''[proxy_host]'', case t_proxy (p_transport p) of None \<Rightarrow> [] | Some h \<Rightarrow> hp_host h),
      (''[proxy_port]'', case t_proxy (p_transport p) of None \<Rightarrow> [] | Some h \<Rightarrow> itoa (hp_port h))]"

text \<open>A Go map is ranged over in an unspecified order: \<open>order\<close> is the one this call gets.\<close>

definition render_payload :: "((string \<times> string) list \<Rightarrow> (string \<times> string) list) \<Rightarrow> string \<Rightarrow> profile \<Rightarrow> string" where
  "render_payload order t p = foldl (\<lambda>out (k, v). replace_all k v out) t (order (payload_table p))"

section \<open>Responses\<close>

definition ssh_prefix :: string where
  "ssh_prefix = ''SSH-''"

definition status_of_line :: "string \<Rightarrow> int option" where
  "status_of_line line =
     (let line = trim_space line in
      if \<not> has_prefix line ''HTTP/'' then None
      else (case GoStrings.fields line of _ # code # _ \<Rightarrow> atoi code | _ \<Rightarrow> None))"

definition extract_http_statuses :: "string \<Rightarrow> int list" where
  "extract_http_statuses s =
     List.map_filter status_of_line (split_on (CHR 0x0A) (replace_all crlf [CHR 0x0A] s))"

definition extract_ssh_banner :: "string \<Rightarrow> string" where
  "extract_ssh_banner s =
     (case str_index s ssh_prefix of
        None \<Rightarrow> []
      | Some idx \<Rightarrow>
          let tail = drop idx s in
          (case str_index tail crlf of
             Some j \<Rightarrow> trim_space (take j tail)
           | None \<Rightarrow>
               (case str_index tail [CHR 0x0A] of
                  Some j \<Rightarrow> trim_space (take j tail)
                | None \<Rightarrow> trim_space (if 120 < length tail then take 120 tail else tail))))"

definition allowed_statuses :: "int list \<Rightarrow> int list \<Rightarrow> bool" where
  "allowed_statuses got allowed =
     (if got = [] \<or> allowed = [] then True else list_all (\<lambda>n. n \<in> set allowed) got)"

definition preview :: "string \<Rightarrow> string" where
  "preview b =
     (let s = replace_all [CHR 0x0D] [CHR 0x5C, CHR ''r''] b;
          s = replace_all [CHR 0x0A] [CHR 0x5C, CHR ''n''] s
      in if 500 < length s then take 500 s @ ''...'' else s)"

section \<open>Errors by their text\<close>

definition is_network_transient_error :: "string option \<Rightarrow> bool" where
  "is_network_transient_error err =
     (case err of None \<Rightarrow> False
      | Some e \<Rightarrow> list_ex (str_contains (to_lower e))
          [''network is unreachable'', ''no route to host'', ''connection timed out'',
           ''i/o timeout'', ''context deadline exceeded'', ''operation was canceled'',
           ''temporary failure in name resolution'', ''lookup'', ''dns'',
           ''read udp [::1]'', ''connection refused''])"

definition is_ssh_transport_broken :: "string option \<Rightarrow> bool" where
  "is_ssh_transport_broken err =
     (case err of None \<Rightarrow> False
      | Some e \<Rightarrow> list_ex (str_contains (to_lower e))
          [''eof'', ''use of closed network connection'', ''unexpected packet'', ''connection reset'',
           ''broken pipe'', ''bad record mac'', ''error decoding message'', ''packet too large'',
           ''invalid packet length''])"

definition short_banner_log :: "string \<Rightarrow> string" where
  "short_banner_log message =
     (let m = trim_space message in
      if m = [] then []
      else if str_contains (to_lower m) ''<html'' \<or> str_contains (to_lower m) ''<body''
        then ''http/html banner suppressed ('' @ nat_dec (length m) @ '' bytes)''
      else if 160 < length m then take 160 m @ ''...'' else m)"

section \<open>Filling a template in one pass\<close>

text \<open>A template without nested brackets: text without an opening bracket, and bracketed words.\<close>

datatype piece = Lit string | Slot string

fun piece_ok :: "piece \<Rightarrow> bool" where
  "piece_ok (Lit s) = (CHR ''['' \<notin> set s)"
| "piece_ok (Slot w) = (CHR ''['' \<notin> set w \<and> CHR '']'' \<notin> set w)"

fun piece_text :: "piece \<Rightarrow> string" where
  "piece_text (Lit s) = s"
| "piece_text (Slot w) = ''['' @ w @ '']''"

definition fill :: "(string \<times> string) list \<Rightarrow> piece \<Rightarrow> string" where
  "fill T pc = (case pc of Lit s \<Rightarrow> s
     | Slot w \<Rightarrow> (case map_of T (piece_text pc) of Some v \<Rightarrow> v | None \<Rightarrow> piece_text pc))"

text \<open>The effect of one \<open>ReplaceAll\<close> on a piece.\<close>

fun upd :: "string \<times> string \<Rightarrow> piece \<Rightarrow> piece" where
  "upd (k, v) (Lit s) = Lit s"
| "upd (k, v) (Slot w) = (if piece_text (Slot w) = k then Lit v else Slot w)"

definition slot_key :: "string \<Rightarrow> bool" where
  "slot_key k = (\<exists>u. k = piece_text (Slot u) \<and> piece_ok (Slot u))"

lemma replace_all_lit:
  "CHR ''['' \<notin> set a \<Longrightarrow> replace_all (CHR ''['' # k) v (a @ r) = a @ replace_all (CHR ''['' # k) v r"
  by (induction a) (auto simp: replace_all.simps)

lemma replace_all_here: "k \<noteq> [] \<Longrightarrow> replace_all k v (k @ r) = v @ replace_all k v r"
  by (cases k) (simp_all add: replace_all.simps)

lemma bracket_split:
  "CHR '']'' \<notin> set u \<Longrightarrow> CHR '']'' \<notin> set w \<Longrightarrow> prefix (u @ '']'') (w @ '']'' @ r) \<Longrightarrow> u = w"
proof (induction u arbitrary: w)
  case Nil
  then show ?case by (cases w) auto
next
  case (Cons x u)
  then show ?case by (cases w) auto
qed

lemma replace_all_piece:
  assumes "piece_ok pc" "slot_key k"
  shows "replace_all k v (piece_text pc @ r) = piece_text (upd (k, v) pc) @ replace_all k v r"
proof -
  obtain u where u: "k = ''['' @ u @ '']''" "CHR '']'' \<notin> set u" using assms(2) by (auto simp: slot_key_def)
  show ?thesis
  proof (cases pc)
    case (Lit s)
    then show ?thesis using assms(1) u replace_all_lit [of s "u @ '']''"] by simp
  next
    case (Slot w)
    show ?thesis
    proof (cases "piece_text pc = k")
      case True
      then show ?thesis using Slot replace_all_here [of k v r] u by simp
    next
      case False
      have w: "CHR ''['' \<notin> set (w @ '']'')" "CHR '']'' \<notin> set w" using assms(1) Slot by simp_all
      have "\<not> prefix k (CHR ''['' # ((w @ '']'') @ r))"
        using bracket_split [OF u(2) w(2), of r] False Slot u(1) by auto
      then have "replace_all k v (CHR ''['' # ((w @ '']'') @ r)) = CHR ''['' # replace_all k v ((w @ '']'') @ r)"
        by (simp add: replace_all.simps)
      also have "replace_all k v ((w @ '']'') @ r) = (w @ '']'') @ replace_all k v r"
        using replace_all_lit [OF w(1), of "u @ '']''"] u(1) by simp
      finally show ?thesis using Slot False by simp
    qed
  qed
qed

lemma replace_all_pieces:
  "list_all piece_ok ps \<Longrightarrow> slot_key k \<Longrightarrow>
   replace_all k v (concat (map piece_text ps)) = concat (map piece_text (map (upd (k, v)) ps))"
  by (induction ps) (simp_all add: replace_all_piece)

lemma upd_ok: "piece_ok pc \<Longrightarrow> CHR ''['' \<notin> set v \<Longrightarrow> piece_ok (upd (k, v) pc)"
  by (cases pc) auto

lemma fold_pieces:
  assumes "list_all piece_ok ps" "list_all (\<lambda>(k, v). slot_key k \<and> CHR ''['' \<notin> set v) T"
  shows "foldl (\<lambda>out (k, v). replace_all k v out) (concat (map piece_text ps)) T =
     concat (map piece_text (map (\<lambda>pc. foldl (\<lambda>pc kv. upd kv pc) pc T) ps))"
  using assms
proof (induction T arbitrary: ps)
  case Nil
  then show ?case by simp
next
  case (Cons kv T)
  obtain k v where kv: "kv = (k, v)" by fastforce
  have ok: "list_all piece_ok (map (upd kv) ps)" using Cons.prems kv upd_ok by (auto simp: list_all_iff)
  have "replace_all k v (concat (map piece_text ps)) = concat (map piece_text (map (upd kv) ps))"
    using Cons.prems kv replace_all_pieces by simp
  then show ?case using Cons.IH [OF ok] Cons.prems kv by (simp add: comp_def)
qed

lemma fold_upd_lit: "foldl (\<lambda>pc kv. upd kv pc) (Lit s) T = Lit s"
  by (induction T) (auto simp: split_paired_all)

lemma fold_upd_text: "piece_text (foldl (\<lambda>pc kv. upd kv pc) pc T) = fill T pc"
proof (cases pc)
  case (Lit s)
  then show ?thesis by (simp add: fold_upd_lit fill_def)
next
  case (Slot w)
  have "piece_text (foldl (\<lambda>pc kv. upd kv pc) (Slot w) T) = fill T (Slot w)"
    by (induction T) (auto simp: fill_def fold_upd_lit)
  with Slot show ?thesis by simp
qed

lemma map_of_permutes: "distinct (map fst xs) \<Longrightarrow> mset ys = mset xs \<Longrightarrow> map_of ys = map_of xs"
proof
  fix k
  assume d: "distinct (map fst xs)" and m: "mset ys = mset xs"
  then have "distinct (map fst ys)" by (metis mset_map mset_eq_imp_distinct_iff)
  with d m show "map_of ys k = map_of xs k"
    by (metis map_of_eq_Some_iff mset_eq_setD not_None_eq)
qed

lemma payload_keys: "distinct (map fst (payload_table p))" "list_all (\<lambda>(k, v). slot_key k) (payload_table p)"
proof -
  show "distinct (map fst (payload_table p))" by (simp add: payload_table_def)
  have "slot_key ''[crlf]''" "slot_key ''[lf]''" "slot_key ''[host]''" "slot_key ''[port]''" "slot_key ''[ssh_host]''"
    "slot_key ''[ssh_port]''" "slot_key ''[sni]''" "slot_key ''[proxy_host]''" "slot_key ''[proxy_port]''"
    unfolding slot_key_def
    by (rule exI [of _ "''crlf''"], simp, rule exI [of _ "''lf''"], simp, rule exI [of _ "''host''"], simp,
        rule exI [of _ "''port''"], simp, rule exI [of _ "''ssh_host''"], simp, rule exI [of _ "''ssh_port''"], simp,
        rule exI [of _ "''sni''"], simp, rule exI [of _ "''proxy_host''"], simp, rule exI [of _ "''proxy_port''"], simp)
  then show "list_all (\<lambda>(k, v). slot_key k) (payload_table p)" by (simp add: payload_table_def)
qed

text \<open>C37: for a template whose brackets do not nest and values without an opening
  bracket, the repeated \<open>ReplaceAll\<close> of \<open>renderPayload\<close> has the effect of one simultaneous pass that
  replaces each known word in brackets and leaves the others as they are, whatever the order in
  which Go ranges over the map.\<close>

theorem render_payload_one_pass:
  assumes "mset (order (payload_table p)) = mset (payload_table p)"
    and "list_all piece_ok ps" "list_all (\<lambda>(k, v). CHR ''['' \<notin> set v) (payload_table p)"
  shows "render_payload order (concat (map piece_text ps)) p = concat (map (fill (payload_table p)) ps)"
proof -
  let ?T = "order (payload_table p)"
  have m: "map_of ?T = map_of (payload_table p)" using map_of_permutes [OF payload_keys(1) assms(1)] .
  have "set ?T = set (payload_table p)" using assms(1) by (metis mset_eq_setD)
  then have T: "list_all (\<lambda>(k, v). slot_key k \<and> CHR ''['' \<notin> set v) ?T"
    using payload_keys(2) [of p] assms(3) by (auto simp: list_all_iff)
  have "fill ?T = fill (payload_table p)" by (simp add: fun_eq_iff fill_def m split: piece.splits)
  then show ?thesis
    unfolding render_payload_def fold_pieces [OF assms(2) T] by (simp add: fold_upd_text comp_def)
qed

definition sample_profile :: profile where
  "sample_profile =
     \<lparr>p_id = ''p'', p_name = ''P'', p_selected = True,
      p_ssh = \<lparr>ssh_host = ''ssh.example'', ssh_port = 22, ssh_user = ''u'', ssh_password = [], ssh_auth = ''password'',
               ssh_fallback = []\<rparr>,
      p_transport = \<lparr>t_mode = ''direct'', t_chain = [''tcp'', ''payload'', ''ssh''], t_proxy = None, t_tls = None,
        t_payload = \<lparr>pl_enabled = True, pl_template = ''CONNECT [host] HTTP/1.0[crlf][crlf]'', pl_timing = ''before_ssh'',
                     pl_read = True, pl_allow = [200]\<rparr>\<rparr>\<rparr>"

lemma itoa_22: "itoa 22 = ''22''"
  by (simp add: itoa_def nat_dec.simps char_of_def bit_0)

theorem render_payload_one_pass_witness:
  "render_payload rev (''CONNECT '' @ ''[host]'' @ '' HTTP/1.0'' @ ''[crlf]'' @ ''[crlf]'') sample_profile =
     ''CONNECT ssh.example HTTP/1.0'' @ crlf @ crlf"
proof -
  let ?ps = "[Lit ''CONNECT '', Slot ''host'', Lit '' HTTP/1.0'', Slot ''crlf'', Slot ''crlf'']"
  have "list_all piece_ok ?ps" by simp
  moreover have "list_all (\<lambda>(k, v). CHR ''['' \<notin> set v) (payload_table sample_profile)"
    by (simp add: payload_table_def sample_profile_def itoa_22 crlf_def)
  ultimately have "render_payload rev (concat (map piece_text ?ps)) sample_profile =
      concat (map (fill (payload_table sample_profile)) ?ps)"
    by (intro render_payload_one_pass) simp_all
  then show ?thesis by (simp add: fill_def payload_table_def sample_profile_def)
qed

end
