(* ===== verification/Transport.thy ===== *)
theory Transport
  imports Payload Tunnel
begin

text \<open>
  Opening the carrier connection of a profile (\<open>cmd/sshcustomd/main.go\<close>): resolving and dialing
  (\<open>dialTCPResolved\<close>), the HTTP CONNECT of a proxy, TLS, the payload and the response to it
  (\<open>openPreparedSSHConn\<close>, and \<open>attemptTransport\<close> for the transport test), up to the SSH handshake
  (\<open>attemptSSHAuth\<close>). A carrier is what a \<open>net.Conn\<close> will deliver, read by read; the network, the TLS and the
  SSH library are the record \<open>net_env\<close>. Every call to them has a number, so that the answers may
  differ from call to call.
\<close>

section \<open>Carriers\<close>

datatype read_error = TimedOut | Eof | ReadFailure string

text \<open>What successive reads find: data, or an error. A timeout passes, the other errors stay.\<close>

datatype chunk = Data string | Stop read_error

record carrier =
  ca_in :: "chunk list"
  ca_prefix :: string
  ca_out :: "string list"
  ca_werr :: "nat \<Rightarrow> string option"

fun read_chunk :: "nat \<Rightarrow> chunk list \<Rightarrow> (string \<times> read_error option) \<times> chunk list" where
  "read_chunk n [] = (([], Some TimedOut), [])"
| "read_chunk n (Data b # cs) = ((take n b, None), (if length b \<le> n then cs else Data (drop n b) # cs))"
| "read_chunk n (Stop TimedOut # cs) = (([], Some TimedOut), cs)"
| "read_chunk n (Stop e # cs) = (([], Some e), Stop e # cs)"

text \<open>\<open>prefixConn.Read\<close>: first the bytes that were read ahead, then the connection.\<close>

definition prefix_read :: "nat \<Rightarrow> carrier \<Rightarrow> (string \<times> read_error option) \<times> carrier" where
  "prefix_read n c =
     (if ca_prefix c \<noteq> [] then ((take n (ca_prefix c), None), c\<lparr>ca_prefix := drop n (ca_prefix c)\<rparr>)
      else case read_chunk n (ca_in c) of (r, cs) \<Rightarrow> (r, c\<lparr>ca_in := cs\<rparr>))"

definition carrier_write :: "string \<Rightarrow> carrier \<Rightarrow> string option \<times> carrier" where
  "carrier_write s c =
     (case ca_werr c (length (ca_out c)) of
        Some e \<Rightarrow> (Some e, c)
      | None \<Rightarrow> (None, c\<lparr>ca_out := ca_out c @ [s]\<rparr>))"

definition read_error_text :: "read_error \<Rightarrow> string" where
  "read_error_text e = (case e of TimedOut \<Rightarrow> ''i/o timeout'' | Eof \<Rightarrow> ''EOF'' | ReadFailure m \<Rightarrow> m)"

fun chunk_weight :: "chunk \<Rightarrow> nat" where
  "chunk_weight (Data b) = Suc (length b)"
| "chunk_weight (Stop e) = 1"

lemma read_chunk_weight:
  "read_chunk (Suc n) cs = ((b, None), cs') \<Longrightarrow> sum_list (map chunk_weight cs') < sum_list (map chunk_weight cs)"
  by (induction "Suc n" cs rule: read_chunk.induct) (auto split: if_splits)

text \<open>The loop of \<open>readProbe\<close>, with 64 KiB and reads of 2 KiB.\<close>

function probe_loop :: "string \<Rightarrow> chunk list \<Rightarrow> (string \<times> read_error option) \<times> chunk list" where
  "probe_loop out cs =
     (if 64 * 1024 \<le> length out then ((out, None), cs)
      else case read_chunk 2048 cs of
        ((b, Some e), cs') \<Rightarrow> ((out @ b, Some e), cs')
      | ((b, None), cs') \<Rightarrow>
          if b \<noteq> [] \<and> str_contains (out @ b) ssh_prefix then ((out @ b, None), cs')
          else probe_loop (out @ b) cs')"
  by pat_completeness auto
termination
  by (relation "measure (\<lambda>(out, cs). sum_list (map chunk_weight cs))")
    (auto dest: read_chunk_weight [of 2047, simplified, OF sym])

declare probe_loop.simps [simp del]

definition read_probe :: "carrier \<Rightarrow> string result \<times> carrier" where
  "read_probe c =
     (case probe_loop [] (ca_in c) of ((out, err), cs) \<Rightarrow>
        (case err of
           Some (ReadFailure m) \<Rightarrow> Err m
         | _ \<Rightarrow> if out = [] then Err ''no bytes received before timeout'' else Ok out,
         c\<lparr>ca_in := cs\<rparr>))"

definition read_some :: "nat \<Rightarrow> carrier \<Rightarrow> string result \<times> carrier" where
  "read_some mx c =
     (case read_chunk mx (ca_in c) of ((b, err), cs) \<Rightarrow>
        (if b \<noteq> [] then Ok b
         else case err of Some e \<Rightarrow> Err (read_error_text e) | None \<Rightarrow> Err ''empty response'',
         c\<lparr>ca_in := cs\<rparr>))"

section \<open>The network\<close>

record 's net_env =
  ne_dns :: dns_env
  ne_clock :: "nat \<Rightarrow> nat \<Rightarrow> int"
  ne_nano :: "nat \<Rightarrow> nat"
  ne_dial :: "nat \<Rightarrow> int \<Rightarrow> string \<Rightarrow> carrier result"
  ne_tls :: "string \<Rightarrow> bool \<Rightarrow> string list \<Rightarrow> carrier \<Rightarrow> carrier result"
  ne_order :: "(string \<times> string) list \<Rightarrow> (string \<times> string) list"
  ne_ssh :: "string \<Rightarrow> string \<Rightarrow> string \<Rightarrow> carrier \<Rightarrow> 's result"

record net_state =
  nt_dns :: dns_state
  nt_calls :: nat
  nt_opened :: nat
  nt_closed :: nat

definition connect_timeout :: "config \<Rightarrow> int" where
  "connect_timeout cfg = seconds_default (pf_connect_timeout (c_perf cfg)) 20"

definition dial_one :: "'s net_env \<Rightarrow> int \<Rightarrow> string \<Rightarrow> net_state \<Rightarrow> carrier result \<times> net_state" where
  "dial_one env timeout addr st =
     (let r = ne_dial env (nt_calls st) timeout addr in
      (r, st\<lparr>nt_calls := Suc (nt_calls st), nt_opened := nt_opened st + (if is_ok r then 1 else 0)\<rparr>))"

definition close_carrier :: "net_state \<Rightarrow> net_state" where
  "close_carrier st = st\<lparr>nt_closed := Suc (nt_closed st)\<rparr>"

definition resolve_smart :: "'s net_env \<Rightarrow> config \<Rightarrow> string \<Rightarrow> net_state \<Rightarrow> (string list \<times> string) \<times> net_state" where
  "resolve_smart env cfg host st =
     (case resolve_host (ne_dns env) (ne_clock env (nt_calls st)) (dns_config_of cfg) host (nt_dns st) of
        (r, d) \<Rightarrow> (r, st\<lparr>nt_dns := d, nt_calls := Suc (nt_calls st)\<rparr>))"

definition rotated :: "'s net_env \<Rightarrow> string list \<Rightarrow> net_state \<Rightarrow> string list \<times> net_state" where
  "rotated env ips st = (rotate_ips (ne_nano env (nt_calls st)) ips, st\<lparr>nt_calls := Suc (nt_calls st)\<rparr>)"

text \<open>The loops over addresses: the first that answers, with its address, or the last error.\<close>

fun dial_each ::
  "'s net_env \<Rightarrow> int \<Rightarrow> string \<Rightarrow> string list \<Rightarrow> string \<Rightarrow> net_state \<Rightarrow> (carrier \<times> string) result \<times> net_state" where
  "dial_each env timeout port [] err st = (Err err, st)"
| "dial_each env timeout port (ip # ips) err st =
     (case dial_one env timeout (join_host_port ip port) st of
        (Inr c, st') \<Rightarrow> (Ok (c, join_host_port ip port), st')
      | (Inl e, st') \<Rightarrow> dial_each env timeout port ips e st')"

record dialed =
  dl_conn :: "carrier result"
  dl_addr :: string
  dl_method :: string
  dl_ips :: "string list"

text \<open>\<open>dialTCPResolved\<close> from the system resolver on: the system's own resolution, then the resolver with its
  cache, then the fallback addresses of the profile.\<close>

definition dial_by_system :: "'s net_env \<Rightarrow> config \<Rightarrow> string \<Rightarrow> string \<Rightarrow> string list \<Rightarrow> net_state \<Rightarrow> dialed \<times> net_state" where
  "dial_by_system env cfg host port fallback st =
     (let addr = join_host_port host port;
          t = connect_timeout cfg;
          t10 = (if t \<le> 0 \<or> 10 < t then 10 else t)
      in case dial_one env t10 addr st of
        (Inr c, st) \<Rightarrow> (\<lparr>dl_conn = Ok c, dl_addr = addr, dl_method = ''device_system_dns'', dl_ips = []\<rparr>, st)
      | (Inl err, st) \<Rightarrow>
          (case resolve_smart env cfg host st of ((ips, meth), st) \<Rightarrow>
             if ips = [] then
               (let failed = \<lparr>dl_conn = Err err, dl_addr = addr, dl_method = ''device_system_dns_failed'', dl_ips = []\<rparr> in
                if fallback = [] then (failed, st)
                else case rotated env fallback st of (fips, st) \<Rightarrow>
                  (case dial_each env t port fips err st of
                     (Inr (c, a), st) \<Rightarrow>
                       (\<lparr>dl_conn = Ok c, dl_addr = a, dl_method = ''profile_fallback_ip_last_resort'', dl_ips = fallback\<rparr>, st)
                   | (Inl _, st) \<Rightarrow> (failed, st)))
             else case rotated env ips st of (ips, st) \<Rightarrow>
               (case dial_each env t port ips err st of
                  (Inr (c, a), st) \<Rightarrow> (\<lparr>dl_conn = Ok c, dl_addr = a, dl_method = meth, dl_ips = ips\<rparr>, st)
                | (Inl e, st) \<Rightarrow>
                    (\<lparr>dl_conn = Err e, dl_addr = join_host_port (hd ips) port, dl_method = meth, dl_ips = ips\<rparr>, st))))"

definition dial_tcp_resolved :: "'s net_env \<Rightarrow> config \<Rightarrow> string \<Rightarrow> int \<Rightarrow> string list \<Rightarrow> net_state \<Rightarrow> dialed \<times> net_state" where
  "dial_tcp_resolved env cfg host port_num fallback st =
     (let port = itoa port_num; t = connect_timeout cfg in
      case parse_ip host of
        Some ip \<Rightarrow>
          (case dial_one env t (join_host_port host port) st of (r, st) \<Rightarrow>
             (\<lparr>dl_conn = r, dl_addr = join_host_port host port, dl_method = ''literal_ip'', dl_ips = [ip_string ip]\<rparr>, st))
      | None \<Rightarrow>
          if normalize_dns_mode (dns_mode (c_dns cfg)) = ''device'' then dial_by_system env cfg host port fallback st
          else case resolve_smart env cfg host st of ((ips, meth), st) \<Rightarrow>
            if ips = [] then dial_by_system env cfg host port fallback st
            else case rotated env ips st of (rips, st) \<Rightarrow>
              (case dial_each env t port rips [] st of
                 (Inr (c, a), st) \<Rightarrow> (\<lparr>dl_conn = Ok c, dl_addr = a, dl_method = meth, dl_ips = ips\<rparr>, st)
               | (Inl _, st) \<Rightarrow> dial_by_system env cfg host port fallback st))"

section \<open>Proxy, TLS and payload\<close>

definition connect_text :: "profile \<Rightarrow> string" where
  "connect_text p =
     (let target = join_host_port (ssh_host (p_ssh p)) (itoa (ssh_port (p_ssh p))) in
      ''CONNECT '' @ target @ '' HTTP/1.1'' @ crlf @ ''Host: '' @ target @ crlf @
      ''Proxy-Connection: Keep-Alive'' @ crlf @ crlf)"

definition http_connect :: "profile \<Rightarrow> carrier \<Rightarrow> string option \<times> carrier" where
  "http_connect p c =
     (case carrier_write (connect_text p) c of
        (Some e, c) \<Rightarrow> (Some (''http CONNECT write failed: '' @ e), c)
      | (None, c) \<Rightarrow>
          (case read_some 4096 c of
             (Inl e, c) \<Rightarrow> (Some (''http CONNECT response read failed: '' @ e), c)
           | (Inr d, c) \<Rightarrow>
               (case extract_http_statuses d of
                  [] \<Rightarrow> (Some (''http CONNECT response had no status: '' @ go_quote (preview d)), c)
                | s # _ \<Rightarrow>
                    if s < 200 \<or> 299 < s
                    then (Some (''http CONNECT failed with status '' @ itoa s @ '': '' @ go_quote (preview d)), c)
                    else (None, c))))"

text \<open>What both ways of opening do with the dialed connection: the CONNECT and the TLS handshake.\<close>

definition secure_carrier :: "'s net_env \<Rightarrow> profile \<Rightarrow> carrier \<Rightarrow> carrier result" where
  "secure_carrier env p c =
     (let wants_connect = (uses_http_proxy p \<and>
            (case t_proxy (p_transport p) of Some h \<Rightarrow> equal_fold (hp_method h) ''connect'' | None \<Rightarrow> False))
      in case (if wants_connect then http_connect p c else (None, c)) of
        (Some e, _) \<Rightarrow> Err e
      | (None, c) \<Rightarrow>
          if \<not> uses_tls p then Ok c
          else (case t_tls (p_transport p) of
                  None \<Rightarrow> Err ''tls mode selected but tls config is missing''
                | Some t \<Rightarrow>
                    (case ne_tls env (if tls_server_name t = [] then ssh_host (p_ssh p) else tls_server_name t)
                            (tls_insecure t) (tls_alpn t) c of
                       Inl e \<Rightarrow> Err (''tls handshake failed: '' @ e)
                     | Inr c \<Rightarrow> Ok c)))"

text \<open>Sending the payload and, if the profile asks for it, reading the response.\<close>

definition exchange_payload :: "'s net_env \<Rightarrow> profile \<Rightarrow> carrier \<Rightarrow> (string \<times> carrier) result" where
  "exchange_payload env p c =
     (let pl = t_payload (p_transport p) in
      case carrier_write (render_payload (ne_order env) (pl_template pl) p) c of
        (Some e, _) \<Rightarrow> Err (''payload write failed: '' @ e)
      | (None, c) \<Rightarrow>
          if \<not> pl_read pl then Ok ([], c)
          else (case read_probe c of
                  (Inl e, _) \<Rightarrow> Err (''payload response read failed: '' @ e)
                | (Inr d, c) \<Rightarrow> Ok (d, c)))"

definition no_probe :: probe_result where
  "no_probe = \<lparr>pr_banner = [], pr_statuses = [], pr_preview = [], pr_dial = [], pr_method = [], pr_ips = []\<rparr>"

definition dial_probe :: "dialed \<Rightarrow> probe_result" where
  "dial_probe d = no_probe\<lparr>pr_dial := dl_addr d, pr_method := dl_method d, pr_ips := dl_ips d\<rparr>"

definition no_banner :: "string \<Rightarrow> string" where
  "no_banner d = ''transport did not expose SSH banner; preview='' @ go_quote (preview d)"

section \<open>The transport test\<close>

definition attempt_transport :: "'s net_env \<Rightarrow> config \<Rightarrow> profile \<Rightarrow> net_state \<Rightarrow> (string option \<times> probe_result) \<times> net_state" where
  "attempt_transport env cfg p st =
     (case dial_endpoint p of
        Inl e \<Rightarrow> ((Some e, no_probe), st)
      | Inr (host, port) \<Rightarrow>
          (case dial_tcp_resolved env cfg host port (dial_fallback_ips p host) st of (d, st) \<Rightarrow>
             (case dl_conn d of
                Inl e \<Rightarrow> ((Some (''tcp dial failed: '' @ e), dial_probe d), st)
              | Inr c \<Rightarrow>
                  (let st = close_carrier st in
                   case secure_carrier env p c of
                     Inl e \<Rightarrow> ((Some e, no_probe), st)
                   | Inr c \<Rightarrow>
                       (case (if pl_enabled (t_payload (p_transport p)) then exchange_payload env p c
                              else case read_probe c of
                                     (Inl e, _) \<Rightarrow> Err (''ssh banner read failed: '' @ e)
                                   | (Inr a, c) \<Rightarrow> Ok (a, c)) of
                          Inl e \<Rightarrow> ((Some e, no_probe), st)
                        | Inr (received, c) \<Rightarrow>
                            let statuses = extract_http_statuses received;
                                banner = extract_ssh_banner received;
                                bad = no_probe\<lparr>pr_statuses := statuses, pr_preview := preview received\<rparr>
                            in if statuses \<noteq> [] \<and> \<not> allowed_statuses statuses (pl_allow (t_payload (p_transport p))) then
                                 ((Some (''http status not allowed: '' @ show_ints statuses), bad), st)
                               else if banner = [] \<and> statuses = [] then ((Some (no_banner received), bad), st)
                               else ((None, (dial_probe d)\<lparr>pr_banner := banner, pr_statuses := statuses,
                                        pr_preview := preview received\<rparr>), st))))))"

section \<open>Opening for SSH\<close>

text \<open>A redirecting or rate-limiting edge: the cached addresses of the hosts are dropped.\<close>

definition evict_on_redirect :: "profile \<Rightarrow> int list \<Rightarrow> net_state \<Rightarrow> net_state" where
  "evict_on_redirect p statuses st =
     (if list_ex (\<lambda>s. s = 302 \<or> s = 301 \<or> s = 503) statuses then
        let d = nt_dns st;
            hosts = evict_host (ssh_host (p_ssh p)) (ds_hosts d);
            hosts = (case t_proxy (p_transport p) of Some h \<Rightarrow> evict_host (hp_host h) hosts | None \<Rightarrow> hosts)
        in st\<lparr>nt_dns := d\<lparr>ds_hosts := hosts\<rparr>\<rparr>
      else st)"

definition open_prepared_ssh_conn ::
  "'s net_env \<Rightarrow> config \<Rightarrow> profile \<Rightarrow> net_state \<Rightarrow> (carrier result \<times> probe_result) \<times> net_state" where
  "open_prepared_ssh_conn env cfg p st =
     (case dial_endpoint p of
        Inl e \<Rightarrow> ((Err e, no_probe), st)
      | Inr (host, port) \<Rightarrow>
          (case dial_tcp_resolved env cfg host port (dial_fallback_ips p host) st of (d, st) \<Rightarrow>
             (case dl_conn d of
                Inl e \<Rightarrow> ((Err (''tcp dial failed: '' @ e), dial_probe d), st)
              | Inr c \<Rightarrow>
                  (case secure_carrier env p c of
                     Inl e \<Rightarrow> ((Err e, no_probe), close_carrier st)
                   | Inr c \<Rightarrow>
                       (let pl = t_payload (p_transport p) in
                        case (if pl_enabled pl then exchange_payload env p c else Ok ([], c)) of
                          Inl e \<Rightarrow> ((Err e, no_probe), close_carrier st)
                        | Inr (received, c) \<Rightarrow>
                            let statuses = extract_http_statuses received;
                                banner = extract_ssh_banner received;
                                idx = str_index received ssh_prefix;
                                bad = no_probe\<lparr>pr_statuses := statuses, pr_preview := preview received\<rparr>;
                                good = (dial_probe d)\<lparr>pr_banner := banner, pr_statuses := statuses,
                                         pr_preview := preview received\<rparr>
                            in if statuses \<noteq> [] \<and> \<not> allowed_statuses statuses (pl_allow pl) then
                                 ((Err (''http status not allowed: '' @ show_ints statuses), bad), close_carrier st)
                               else if pl_enabled pl \<and> pl_read pl then
                                 (if banner \<noteq> [] \<and> idx \<noteq> None
                                  then ((Ok (c\<lparr>ca_prefix := drop (the idx) received\<rparr>), good), st)
                                  else if statuses \<noteq> [] then ((Ok c, good), evict_on_redirect p statuses st)
                                  else ((Err (no_banner received), bad), close_carrier st))
                               else ((Ok c, good), st))))))"

text \<open>\<open>attemptSSHAuth\<close>: user, password and address are what the SSH library is given. An empty password is
  replaced by the user name.\<close>

definition ssh_password_of :: "profile \<Rightarrow> string" where
  "ssh_password_of p = (if ssh_password (p_ssh p) = [] then ssh_user (p_ssh p) else ssh_password (p_ssh p))"

definition attempt_ssh_auth :: "'s net_env \<Rightarrow> config \<Rightarrow> profile \<Rightarrow> net_state \<Rightarrow> ('s result \<times> probe_result) \<times> net_state" where
  "attempt_ssh_auth env cfg p st =
     (case open_prepared_ssh_conn env cfg p st of
        ((Inl e, res), st) \<Rightarrow> ((Err e, res), st)
      | ((Inr c, res), st) \<Rightarrow>
          (case ne_ssh env (ssh_user (p_ssh p)) (ssh_password_of p)
                  (join_host_port (ssh_host (p_ssh p)) (itoa (ssh_port (p_ssh p)))) c of
             Inl e \<Rightarrow> ((Err (''ssh auth/handshake failed: '' @ e), res), close_carrier st)
           | Inr client \<Rightarrow> ((Ok client, res), st)))"

text \<open>The answers the password and the keyboard-interactive method give: always the one password.\<close>

definition keyboard_answers :: "profile \<Rightarrow> string list \<Rightarrow> string list" where
  "keyboard_answers p questions = map (\<lambda>_. ssh_password_of p) questions"

section \<open>Every carrier is accounted for\<close>

definition live :: "net_state \<Rightarrow> int" where
  "live st = int (nt_opened st) - int (nt_closed st)"

lemma live_close [simp]: "live (close_carrier st) = live st - 1"
  by (simp add: live_def close_carrier_def)

lemma live_evict [simp]: "live (evict_on_redirect p ss st) = live st"
  by (simp add: live_def evict_on_redirect_def Let_def)

lemma live_dial_one: "dial_one env t a st = (r, st') \<Longrightarrow> live st' = live st + of_bool (is_ok r)"
  by (auto simp: dial_one_def live_def Let_def)

lemma live_resolve: "resolve_smart env cfg host st = (r, st') \<Longrightarrow> live st' = live st"
  by (auto simp: resolve_smart_def live_def split: prod.splits)

lemma live_rotated: "rotated env ips st = (r, st') \<Longrightarrow> live st' = live st"
  by (auto simp: rotated_def live_def)

lemma live_dial_each: "dial_each env t port ips e st = (r, st') \<Longrightarrow> live st' = live st + of_bool (is_ok r)"
proof (induction ips arbitrary: e st)
  case Nil
  then show ?case by auto
next
  case (Cons ip ips)
  obtain q u where d: "dial_one env t (join_host_port ip port) st = (q, u)" by fastforce
  show ?case using Cons d live_dial_one [OF d] by (cases q) auto
qed

lemma live_dial_by_system:
  assumes "dial_by_system env cfg host port fallback st = (d, st')"
  shows "live st' = live st + of_bool (is_ok (dl_conn d))"
  using assms
  by (auto simp: dial_by_system_def Let_def dest!: live_dial_one live_resolve live_rotated live_dial_each
      split: prod.splits sum.splits if_splits)

lemma live_dial:
  assumes "dial_tcp_resolved env cfg host port fallback st = (d, st')"
  shows "live st' = live st + of_bool (is_ok (dl_conn d))"
  using assms
  by (auto simp: dial_tcp_resolved_def Let_def dest!: live_dial_one live_resolve live_rotated live_dial_each
      live_dial_by_system split: prod.splits sum.splits option.splits if_splits)

lemma live_attempt: "live (snd (attempt_transport env cfg p st)) = live st"
  by (auto simp: attempt_transport_def Let_def dest!: live_dial split: prod.splits sum.splits)

lemma live_open:
  "live (snd (open_prepared_ssh_conn env cfg p st)) =
     live st + of_bool (is_ok (fst (fst (open_prepared_ssh_conn env cfg p st))))"
  by (auto simp: open_prepared_ssh_conn_def Let_def dest!: live_dial split: prod.splits sum.splits)

text \<open>C34: on every path, whatever the network answers, the transport test closes
  what it opened, and preparing a carrier or authenticating over it leaves exactly one connection open
  when it succeeds and none when it fails.\<close>

theorem carriers_never_leak:
  "live (snd (attempt_transport env cfg p st)) = live st \<and>
   live (snd (open_prepared_ssh_conn env cfg p st)) =
     live st + of_bool (is_ok (fst (fst (open_prepared_ssh_conn env cfg p st)))) \<and>
   live (snd (attempt_ssh_auth env cfg p st)) =
     live st + of_bool (is_ok (fst (fst (attempt_ssh_auth env cfg p st))))"
proof (intro conjI)
  show "live (snd (attempt_ssh_auth env cfg p st)) =
     live st + of_bool (is_ok (fst (fst (attempt_ssh_auth env cfg p st))))"
    using live_open [of env cfg p st] by (auto simp: attempt_ssh_auth_def split: prod.splits sum.splits)
qed (rule live_attempt live_open)+

section \<open>Reading ahead loses nothing\<close>

text \<open>The bytes a carrier will still deliver, until it fails for good.\<close>

fun stream_of :: "chunk list \<Rightarrow> string" where
  "stream_of [] = []"
| "stream_of (Data b # cs) = b @ stream_of cs"
| "stream_of (Stop TimedOut # cs) = stream_of cs"
| "stream_of (Stop e # cs) = []"

lemma read_chunk_stream: "read_chunk n cs = ((b, e), cs') \<Longrightarrow> b @ stream_of cs' = stream_of cs"
  by (induction n cs rule: read_chunk.induct) (auto split: if_splits)

lemma probe_loop_stream: "probe_loop out cs = ((out', e), cs') \<Longrightarrow> out' @ stream_of cs' = out @ stream_of cs"
proof (induction out cs rule: probe_loop.induct)
  case (1 out cs)
  obtain b e' cs1 where r: "read_chunk 2048 cs = ((b, e'), cs1)" by (metis prod.exhaust)
  note s = read_chunk_stream [OF r]
  show ?case
  proof (cases "64 * 1024 \<le> length out")
    case True
    then show ?thesis using "1.prems" by (simp add: probe_loop.simps [of out])
  next
    case False
    show ?thesis
    proof (cases "e' = None \<and> \<not> (b \<noteq> [] \<and> str_contains (out @ b) ssh_prefix)")
      case True
      then have "probe_loop out cs = probe_loop (out @ b) cs1" using False r by (auto simp: probe_loop.simps [of out])
      then show ?thesis using "1.IH" [OF False r [symmetric]] True "1.prems" s by auto
    next
      case f: False
      then show ?thesis using False r "1.prems" s
        by (auto simp: probe_loop.simps [of out] split: option.splits if_splits)
    qed
  qed
qed

lemma read_probe_stream: "read_probe c = (Ok d, c') \<Longrightarrow> d @ stream_of (ca_in c') = stream_of (ca_in c) \<and> d \<noteq> []"
  by (auto simp: read_probe_def dest: probe_loop_stream split: prod.splits option.splits read_error.splits if_splits)

lemma read_probe_frame: "read_probe c = (r, c') \<Longrightarrow> ca_prefix c' = ca_prefix c \<and> ca_out c' = ca_out c"
  by (auto simp: read_probe_def split: prod.splits)

lemma str_index_append: "str_index s pat = Some i \<Longrightarrow> str_index (s @ r) pat = Some i"
proof (induction s arbitrary: i)
  case Nil
  then have "pat = []" by (simp add: str_index.simps split: if_splits)
  with Nil show ?case by (simp add: str_index_Some_0)
next
  case (Cons x xs)
  show ?case
  proof (cases "prefix pat (x # xs)")
    case True
    moreover from this have "prefix pat ((x # xs) @ r)" by (rule prefix_prefix)
    ultimately show ?thesis using Cons.prems by (simp only: str_index_Some_0)
  next
    case False
    then obtain k where k: "i = Suc k" "str_index xs pat = Some k"
      using Cons.prems by (subst (asm) str_index.simps) auto
    have "length pat \<le> length xs"
      using str_index_correct [OF k(2)] prefix_length_le by fastforce
    then have "\<not> prefix pat ((x # xs) @ r)"
      using False by (metis append_Cons length_Cons le_SucI prefix_append prefix_length_prefix prefixI)
    with Cons.IH [OF k(2)] k(1) show ?thesis by (subst str_index.simps) simp
  qed
qed

lemma carrier_write_frame: "carrier_write t c = (e, c') \<Longrightarrow> ca_in c' = ca_in c"
  by (auto simp: carrier_write_def split: option.splits)

lemma exchange_payload_stream:
  "exchange_payload env p c = Ok (d, c') \<Longrightarrow> d @ stream_of (ca_in c') = stream_of (ca_in c)"
  by (auto simp: exchange_payload_def Let_def dest!: carrier_write_frame read_probe_stream
      split: prod.splits option.splits sum.splits if_splits)

lemma banner_index: "extract_ssh_banner s \<noteq> [] \<Longrightarrow> \<exists>i. str_index s ssh_prefix = Some i"
  by (auto simp: extract_ssh_banner_def split: option.splits)

lemma banner_Nil [simp]: "extract_ssh_banner [] = []"
  by (simp add: extract_ssh_banner_def ssh_prefix_def str_index.simps)

text \<open>The carrier that carries the payload: dialed, past the proxy and the TLS handshake.\<close>

definition secured :: "'s net_env \<Rightarrow> config \<Rightarrow> profile \<Rightarrow> net_state \<Rightarrow> carrier option" where
  "secured env cfg p st =
     (case dial_endpoint p of
        Inl e \<Rightarrow> None
      | Inr (host, port) \<Rightarrow>
          (case dl_conn (fst (dial_tcp_resolved env cfg host port (dial_fallback_ips p host) st)) of
             Inl e \<Rightarrow> None
           | Inr c \<Rightarrow> (case secure_carrier env p c of Inl e \<Rightarrow> None | Inr c \<Rightarrow> Some c)))"

text \<open>What the rest of the opening makes of a secured carrier; the dial stands before it.\<close>

lemma open_prepared_ok:
  assumes "open_prepared_ssh_conn env cfg p st = ((Ok c', res), st')"
  shows "\<exists>c0 received c1. secured env cfg p st = Some c0 \<and>
     (if pl_enabled (t_payload (p_transport p)) then exchange_payload env p c0 else Ok ([], c0)) = Ok (received, c1) \<and>
     pr_statuses res = extract_http_statuses received \<and> pr_banner res = extract_ssh_banner received \<and>
     allowed_statuses (pr_statuses res) (pl_allow (t_payload (p_transport p))) \<and>
     (c' = c1 \<or> c' = c1\<lparr>ca_prefix := drop (the (str_index received ssh_prefix)) received\<rparr>) \<and>
     (pr_banner res \<noteq> [] \<longrightarrow> c' = c1\<lparr>ca_prefix := drop (the (str_index received ssh_prefix)) received\<rparr>)"
proof -
  obtain host port where e: "dial_endpoint p = Ok (host, port)"
    using assms by (auto simp: open_prepared_ssh_conn_def split: sum.splits)
  obtain d st1 where d: "dial_tcp_resolved env cfg host port (dial_fallback_ips p host) st = (d, st1)" by fastforce
  obtain c where c: "dl_conn d = Ok c"
    using assms e d by (auto simp: open_prepared_ssh_conn_def split: sum.splits)
  obtain c0 where c0: "secure_carrier env p c = Ok c0"
    using assms e d c by (auto simp: open_prepared_ssh_conn_def split: sum.splits)
  let ?x = "if pl_enabled (t_payload (p_transport p)) then exchange_payload env p c0 else Ok ([], c0)"
  obtain received c1 where x: "?x = Ok (received, c1)"
    using assms e d c c0 by (cases ?x) (auto simp: open_prepared_ssh_conn_def Let_def)
  have empty: "received = []" if "\<not> (pl_enabled (t_payload (p_transport p)) \<and> pl_read (t_payload (p_transport p)))"
    using x that by (auto simp: exchange_payload_def Let_def split: if_splits prod.splits option.splits)
  have "secured env cfg p st = Some c0" using e d c c0 by (simp add: secured_def)
  moreover have "pr_statuses res = extract_http_statuses received \<and> pr_banner res = extract_ssh_banner received \<and>
     allowed_statuses (pr_statuses res) (pl_allow (t_payload (p_transport p))) \<and>
     (c' = c1 \<or> c' = c1\<lparr>ca_prefix := drop (the (str_index received ssh_prefix)) received\<rparr>) \<and>
     (pr_banner res \<noteq> [] \<longrightarrow> c' = c1\<lparr>ca_prefix := drop (the (str_index received ssh_prefix)) received\<rparr>)"
    using assms e d c c0 x empty banner_index [of received]
    by (auto simp: open_prepared_ssh_conn_def Let_def allowed_statuses_def split: if_splits)
  ultimately show ?thesis using x by blast
qed

text \<open>C35: a carrier handed to SSH has, in the response that was read (none is read with
  \<open>read_response\<close> false), only answered with allowed HTTP statuses; and if the response already held the SSH banner, what SSH will read is exactly what
  the server sent from the first occurrence of \<open>SSH-\<close> on: nothing read ahead is lost, and no
  byte of the HTTP response before it gets through.\<close>

theorem prepared_carrier_starts_at_banner:
  "case open_prepared_ssh_conn env cfg p st of
     ((Inl e, res), st') \<Rightarrow> True
   | ((Inr c', res), st') \<Rightarrow>
       allowed_statuses (pr_statuses res) (pl_allow (t_payload (p_transport p))) \<and>
       (if pr_banner res = [] then True
        else \<exists>c0 i. secured env cfg p st = Some c0 \<and> str_index (stream_of (ca_in c0)) ssh_prefix = Some i \<and>
               ca_prefix c' @ stream_of (ca_in c') = drop i (stream_of (ca_in c0)))"
proof -
  obtain r res st' where o: "open_prepared_ssh_conn env cfg p st = ((r, res), st')" by (metis prod.exhaust)
  show ?thesis
  proof (cases r)
    case (Inl e)
    then show ?thesis using o by simp
  next
    case (Inr c')
    from open_prepared_ok [OF o [unfolded Inr]] obtain c0 received c1 where c:
      "secured env cfg p st = Some c0"
      "(if pl_enabled (t_payload (p_transport p)) then exchange_payload env p c0 else Ok ([], c0)) = Ok (received, c1)"
      "pr_banner res = extract_ssh_banner received"
      "allowed_statuses (pr_statuses res) (pl_allow (t_payload (p_transport p)))"
      "pr_banner res \<noteq> [] \<longrightarrow> c' = c1\<lparr>ca_prefix := drop (the (str_index received ssh_prefix)) received\<rparr>" by blast
    have "\<exists>c0 i. secured env cfg p st = Some c0 \<and> str_index (stream_of (ca_in c0)) ssh_prefix = Some i \<and>
               ca_prefix c' @ stream_of (ca_in c') = drop i (stream_of (ca_in c0))" if b: "pr_banner res \<noteq> []"
    proof -
      obtain i where i: "str_index received ssh_prefix = Some i" using banner_index b c(3) by metis
      have s: "received @ stream_of (ca_in c1) = stream_of (ca_in c0)"
        using c(2) exchange_payload_stream by (auto split: if_splits)
      have "i \<le> length received" using str_index_correct [OF i] by simp
      then have "ca_prefix c' @ stream_of (ca_in c') = drop i (stream_of (ca_in c0))"
        using c(5) b i s [symmetric] by simp
      moreover have "str_index (stream_of (ca_in c0)) ssh_prefix = Some i"
        using str_index_append [OF i] s by metis
      ultimately show ?thesis using c(1) by blast
    qed
    then show ?thesis using o Inr c(4) by simp
  qed
qed

section \<open>The transport test tells the truth\<close>

text \<open>C36: for a profile with a payload whose response is read, the transport test
  reports success exactly when opening the carrier for SSH succeeds, and in every case the same
  error and the same probe result.\<close>

theorem transport_test_agrees:
  assumes "pl_enabled (t_payload (p_transport p))" "pl_read (t_payload (p_transport p))"
  shows "fst (attempt_transport env cfg p st) =
     (case open_prepared_ssh_conn env cfg p st of ((r, res), st') \<Rightarrow>
        (case r of Inl e \<Rightarrow> Some e | Inr c \<Rightarrow> None, res))"
proof (cases "dial_endpoint p")
  case (Inl e)
  then show ?thesis by (simp add: attempt_transport_def open_prepared_ssh_conn_def)
next
  case (Inr hp)
  obtain host port where e: "hp = (host, port)" by fastforce
  obtain d st1 where d: "dial_tcp_resolved env cfg host port (dial_fallback_ips p host) st = (d, st1)" by fastforce
  show ?thesis
  proof (cases "dl_conn d")
    case dl: (Inl m)
    then show ?thesis using Inr e d by (simp add: attempt_transport_def open_prepared_ssh_conn_def)
  next
    case dr: (Inr c)
    show ?thesis
    proof (cases "secure_carrier env p c")
      case sl: (Inl m)
      then show ?thesis using Inr e d dr
        by (simp add: attempt_transport_def open_prepared_ssh_conn_def Let_def)
    next
      case sr: (Inr c0)
      show ?thesis
      proof (cases "exchange_payload env p c0")
        case xl: (Inl m)
        then show ?thesis using Inr e d dr sr assms
          by (simp add: attempt_transport_def open_prepared_ssh_conn_def Let_def)
      next
        case xr: (Inr x)
        obtain received c1 where x: "x = (received, c1)" by fastforce
        show ?thesis using Inr e d dr sr xr x assms banner_index [of received]
          by (auto simp: attempt_transport_def open_prepared_ssh_conn_def Let_def)
      qed
    qed
  qed
qed

text \<open>A server that answers the payload of \<open>sample_profile\<close> with a status line and its banner.\<close>

definition sample_carrier :: carrier where
  "sample_carrier = \<lparr>ca_in = [Data (''HTTP/1.1 200 OK'' @ crlf @ crlf @ ''SSH-2.0-x'' @ crlf)], ca_prefix = [], ca_out = [],
     ca_werr = \<lambda>_. None\<rparr>"

definition sample_net :: "nat net_env" where
  "sample_net = \<lparr>ne_dns = sample_env, ne_clock = \<lambda>_ _. 0, ne_nano = \<lambda>_. 0, ne_dial = \<lambda>_ _ _. Ok sample_carrier,
     ne_tls = \<lambda>_ _ _ c. Ok c, ne_order = id, ne_ssh = \<lambda>_ _ _ _. Ok 0\<rparr>"

definition net_start :: net_state where
  "net_start = \<lparr>nt_dns = dns_init, nt_calls = 0, nt_opened = 0, nt_closed = 0\<rparr>"

theorem transport_test_agrees_witness:
  "fst (attempt_transport sample_net sample_config sample_profile net_start) =
     (case open_prepared_ssh_conn sample_net sample_config sample_profile net_start of ((r, res), st') \<Rightarrow>
        (case r of Inl e \<Rightarrow> Some e | Inr c \<Rightarrow> None, res))"
  by (rule transport_test_agrees) (simp_all add: sample_profile_def)

text \<open>A payload whose response is not to be read fails the test although it can be connected.\<close>

lemma no_statuses_Nil: "extract_http_statuses [] = []"
  by (simp add: extract_http_statuses_def List.map_filter_def status_of_line_def has_prefix_def Let_def)

lemma transport_test_needs_response:
  assumes "pl_enabled (t_payload (p_transport p))" "\<not> pl_read (t_payload (p_transport p))"
  shows "fst (fst (attempt_transport env cfg p st)) \<noteq> None"
proof -
  have x: "exchange_payload env p c = Ok (d, c') \<Longrightarrow> d = []" for c d c'
    using assms(2) by (auto simp: exchange_payload_def Let_def split: prod.splits option.splits)
  show ?thesis
  proof
    assume "fst (fst (attempt_transport env cfg p st)) = None"
    then obtain d where "extract_http_statuses d \<noteq> [] \<or> extract_ssh_banner d \<noteq> []" "d = []"
      using assms(1) x
      by (fastforce simp: attempt_transport_def Let_def split: sum.splits prod.splits if_splits)
    then show False by (simp add: no_statuses_Nil)
  qed
qed

section \<open>Where a dial goes\<close>

lemma dial_each_addr: "dial_each env t port ips e st = (Ok (c, a), st') \<Longrightarrow> a \<in> (\<lambda>ip. join_host_port ip port) ` set ips"
  by (induction ips arbitrary: e st) (auto split: prod.splits sum.splits)

lemma set_rotated: "rotated env ips st = (xs, st') \<Longrightarrow> set xs = set ips"
proof -
  assume "rotated env ips st = (xs, st')"
  then have "xs = rotate_ips (ne_nano env (nt_calls st)) ips" by (simp add: rotated_def)
  then show ?thesis by (metis mset_eq_setD mset_rotate_ips)
qed

text \<open>The bytes a probe returns are bounded, and it stops reading at the banner.\<close>

lemma read_chunk_length: "read_chunk n cs = ((b, e), cs') \<Longrightarrow> length b \<le> n"
  by (induction n cs rule: read_chunk.induct) (auto split: if_splits)

lemma probe_loop_bound:
  "length out < 64 * 1024 + 2048 \<Longrightarrow> length (fst (fst (probe_loop out cs))) < 64 * 1024 + 2048"
proof (induction out cs rule: probe_loop.induct)
  case (1 out cs)
  obtain b e' cs1 where r: "read_chunk 2048 cs = ((b, e'), cs1)" by (metis prod.exhaust)
  note l = read_chunk_length [OF r]
  show ?case
  proof (cases "64 * 1024 \<le> length out")
    case True
    then show ?thesis using "1.prems" by (simp add: probe_loop.simps [of out])
  next
    case False
    show ?thesis
    proof (cases "e' = None \<and> \<not> (b \<noteq> [] \<and> str_contains (out @ b) ssh_prefix)")
      case True
      then have "probe_loop out cs = probe_loop (out @ b) cs1" using False r by (auto simp: probe_loop.simps [of out])
      then show ?thesis using "1.IH" [OF False r [symmetric]] True False l by auto
    next
      case f: False
      then show ?thesis using False r l
        by (auto simp: probe_loop.simps [of out] split: option.splits)
    qed
  qed
qed

lemma read_probe_bound: "case fst (read_probe c) of Inl e \<Rightarrow> True | Inr d \<Rightarrow> length d < 64 * 1024 + 2048"
  using probe_loop_bound [of "[]" "ca_in c"]
  by (auto simp: read_probe_def split: prod.splits option.splits read_error.splits)

end
