(* ===== verification/Lifecycle.thy ===== *)
theory Lifecycle
  imports Tunnel Payload
begin

text \<open>
  The life of the tunnel under \<open>run\<close> of \<open>cmd/sshcustomd/main.go\<close>: the closures \<open>startTunnel\<close> and \<open>stopTunnel\<close>, the
  goroutine around \<open>tunnelLoop\<close> with its automatic restart, the shutdown, and the module property
  that shows the state. Neither closure takes a lock: each is written here as the composition of its
  single reads and writes. The relation \<open>lstep\<close> runs a call of \<open>startTunnel\<close>, and the part of a call of
  \<open>stopTunnel\<close> before its wait, without interruption; the theory \<open>TunnelRaces\<close> interleaves the single accesses.
\<close>

section \<open>State\<close>

record ui =
  u_state :: string
  u_running :: bool
  u_connected :: bool
  u_auth :: bool
  u_ready :: bool
  u_started :: bool
  u_profile :: string
  u_mode :: string
  u_chain :: string
  u_payload :: bool
  u_error :: string
  u_event :: string
  u_pool :: pool_info

text \<open>A goroutine around \<open>tunnelLoop\<close>: its channel and context made but not yet spawned, in the loop, waiting to
  restart, or finished with its channel closed.\<close>

datatype loop_phase = Armed | Looping | Waiting int | Finished

record loop =
  lp_phase :: loop_phase
  lp_cancelled :: bool

record lifecycle =
  lc_running :: bool
  lc_explicit :: bool
  lc_backoff :: int
  lc_loops :: "loop list"
  lc_current :: "nat option"
  lc_done :: "nat option"
  lc_sp :: "profile option"
  lc_published :: bool
  lc_shutdown :: bool
  lc_stopping :: nat
  lc_pf :: profiles_file
  lc_ui :: ui
  lc_prop :: string
  lc_last :: string

section \<open>Starting\<close>

definition chain_text :: "profile \<Rightarrow> string" where
  "chain_text p = str_join '' -> '' (t_chain (p_transport p))"

definition starting_ui :: "profile \<Rightarrow> ui \<Rightarrow> ui" where
  "starting_ui p u = u\<lparr>u_running := True, u_state := ''STARTING'', u_started := True, u_profile := p_name p,
     u_mode := t_mode (p_transport p), u_chain := chain_text p,
     u_payload := pl_enabled (t_payload (p_transport p)), u_event := ''tunnel starting'', u_error := []\<rparr>"

text \<open>\<open>startTunnel\<close> past its test, access by access: the profiles are read again (\<open>loaded\<close> is \<open>None\<close> if that fails) and the
  shared variable \<open>sp\<close> is set; \<open>tunnelRunning\<close> and \<open>explicitStop\<close> are stored; the channel and the
  context are made and put into the shared \<open>tunnelDone\<close> and \<open>tunnelCancel\<close>; the state and the module property
  are written, and the goroutine is spawned.\<close>

definition start_read :: "profiles_file option \<Rightarrow> lifecycle \<Rightarrow> lifecycle" where
  "start_read loaded s =
     (let s = (case loaded of Some pf \<Rightarrow> s\<lparr>lc_pf := pf\<rparr> | None \<Rightarrow> s);
          s = s\<lparr>lc_sp := selected_profile (lc_pf s)\<rparr>
      in if lc_sp s = None
         then s\<lparr>lc_ui := (lc_ui s)\<lparr>u_error := ''no selected profile'',
                  u_event := ''cannot start tunnel: no profile selected''\<rparr>\<rparr>
         else s)"

definition start_mark :: "lifecycle \<Rightarrow> lifecycle" where
  "start_mark s = s\<lparr>lc_running := True\<rparr>"

definition start_clear :: "lifecycle \<Rightarrow> lifecycle" where
  "start_clear s = s\<lparr>lc_explicit := False\<rparr>"

definition start_make :: "lifecycle \<Rightarrow> lifecycle" where
  "start_make s = s\<lparr>lc_backoff := 0, lc_loops := lc_loops s @ [\<lparr>lp_phase = Armed, lp_cancelled = lc_shutdown s\<rparr>],
     lc_done := Some (length (lc_loops s))\<rparr>"

definition start_arm :: "nat \<Rightarrow> lifecycle \<Rightarrow> lifecycle" where
  "start_arm i s = s\<lparr>lc_current := Some i\<rparr>"

definition start_state :: "profile \<Rightarrow> lifecycle \<Rightarrow> lifecycle" where
  "start_state sp s = s\<lparr>lc_ui := starting_ui sp (lc_ui s)\<rparr>"

definition start_prop :: "lifecycle \<Rightarrow> lifecycle" where
  "start_prop s = s\<lparr>lc_prop := ''running''\<rparr>"

definition set_loop :: "nat \<Rightarrow> loop \<Rightarrow> lifecycle \<Rightarrow> lifecycle" where
  "set_loop i l s = s\<lparr>lc_loops := (lc_loops s)[i := l]\<rparr>"

definition start_spawn :: "nat \<Rightarrow> lifecycle \<Rightarrow> lifecycle" where
  "start_spawn i s = set_loop i ((lc_loops s ! i)\<lparr>lp_phase := Looping\<rparr>) s"

definition start_commit :: "profiles_file option \<Rightarrow> lifecycle \<Rightarrow> lifecycle" where
  "start_commit loaded s =
     (let s = start_read loaded s; i = length (lc_loops s) in
      case lc_sp s of
        None \<Rightarrow> s
      | Some sp \<Rightarrow> start_spawn i (start_prop (start_state sp (start_arm i (start_make (start_clear (start_mark s)))))))"

lemmas start_accesses = start_read_def start_mark_def start_clear_def start_make_def start_arm_def start_state_def
  start_prop_def start_spawn_def set_loop_def

definition start_tunnel :: "profiles_file option \<Rightarrow> lifecycle \<Rightarrow> lifecycle" where
  "start_tunnel loaded s = (if lc_running s then s else start_commit loaded s)"

section \<open>The goroutine\<close>

definition idle_ui :: "ui \<Rightarrow> ui" where
  "idle_ui u =
     (let u' = u\<lparr>u_running := False, u_connected := False, u_auth := False, u_ready := False, u_started := False\<rparr> in
      if u_state u \<noteq> ''IDLE'' then u'\<lparr>u_state := ''IDLE'', u_event := ''tunnel stopped''\<rparr> else u')"

definition next_backoff :: "int \<Rightarrow> int \<times> int" where
  "next_backoff b =
     (let b = (if b \<le> 0 then seconds 2 else b); d = b; b = b * 2
      in (d, if seconds 60 < b then seconds 60 else b))"

text \<open>After \<open>tunnelLoop\<close> has returned.\<close>

definition loop_exit :: "nat \<Rightarrow> lifecycle \<Rightarrow> lifecycle" where
  "loop_exit i s =
     (if lc_explicit s \<or> lc_shutdown s then
        (set_loop i ((lc_loops s ! i)\<lparr>lp_phase := Finished\<rparr>) s)
          \<lparr>lc_running := False, lc_published := False, lc_ui := idle_ui (lc_ui s), lc_prop := ''disconnected''\<rparr>
      else
        (set_loop i ((lc_loops s ! i)\<lparr>lp_phase := Waiting (fst (next_backoff (lc_backoff s)))\<rparr>) s)
          \<lparr>lc_running := False, lc_published := False, lc_backoff := snd (next_backoff (lc_backoff s))\<rparr>)"

text \<open>A panic unwinds past the code after the call; only the deferred functions run.\<close>

definition loop_panic :: "nat \<Rightarrow> lifecycle \<Rightarrow> lifecycle" where
  "loop_panic i s = set_loop i ((lc_loops s ! i)\<lparr>lp_phase := Finished\<rparr>) s"

definition restart_due :: "nat \<Rightarrow> profiles_file option \<Rightarrow> lifecycle \<Rightarrow> lifecycle" where
  "restart_due i loaded s =
     (let s = set_loop i ((lc_loops s ! i)\<lparr>lp_phase := Finished\<rparr>) s in
      if \<not> lc_shutdown s \<and> \<not> lc_explicit s then start_tunnel loaded s else s)"

section \<open>Stopping\<close>

text \<open>\<open>stopTunnel\<close> past its test, up to its wait: \<open>explicitStop\<close> is stored, the context that \<open>tunnelCancel\<close> belongs to
  at that moment is cancelled, and the published client is taken back. \<open>lc_stopping\<close> counts the calls that wait.\<close>

definition stop_mark :: "lifecycle \<Rightarrow> lifecycle" where
  "stop_mark s = s\<lparr>lc_explicit := True\<rparr>"

definition stop_cancel :: "lifecycle \<Rightarrow> lifecycle" where
  "stop_cancel s = s\<lparr>lc_loops := (case lc_current s of None \<Rightarrow> lc_loops s
      | Some i \<Rightarrow> (lc_loops s)[i := (lc_loops s ! i)\<lparr>lp_cancelled := True\<rparr>])\<rparr>"

definition stop_client :: "lifecycle \<Rightarrow> lifecycle" where
  "stop_client s = s\<lparr>lc_published := False, lc_stopping := Suc (lc_stopping s)\<rparr>"

definition stop_begin :: "lifecycle \<Rightarrow> lifecycle" where
  "stop_begin s = (if \<not> lc_running s then s else stop_client (stop_cancel (stop_mark s)))"

lemmas stop_accesses = stop_begin_def stop_mark_def stop_cancel_def stop_client_def

definition stopped_ui :: "ui \<Rightarrow> ui" where
  "stopped_ui u = u\<lparr>u_running := False, u_connected := False, u_auth := False, u_ready := False, u_state := ''IDLE'',
     u_event := ''tunnel stopped and rules cleaned'', u_error := [], u_started := False,
     u_pool := (u_pool u)\<lparr>po_size := 0, po_healthy := 0, po_reconnecting := 0, po_streams := 0\<rparr>\<rparr>"

definition stop_finish :: "lifecycle \<Rightarrow> lifecycle" where
  "stop_finish s = s\<lparr>lc_stopping := lc_stopping s - 1, lc_ui := stopped_ui (lc_ui s), lc_prop := ''disconnected''\<rparr>"

definition shut_down :: "lifecycle \<Rightarrow> lifecycle" where
  "shut_down s = s\<lparr>lc_shutdown := True, lc_loops := map (\<lambda>l. l\<lparr>lp_cancelled := True\<rparr>) (lc_loops s),
     lc_ui := (lc_ui s)\<lparr>u_state := ''STOPPED'', u_running := False, u_connected := False, u_ready := False\<rparr>\<rparr>"

text \<open>The property the monitor goroutine derives from the state.\<close>

definition status_word :: "ui \<Rightarrow> string" where
  "status_word u =
     (if u_connected u \<and> u_auth u then ''running''
      else if u_running u \<and> u_state u = ''PAUSED_NO_NETWORK'' then ''standby''
      else if u_running u then ''running'' else ''disconnected'')"

text \<open>The monitor, when it is notified: it writes the property only if its own last status has changed.\<close>

definition monitor :: "lifecycle \<Rightarrow> lifecycle" where
  "monitor s =
     (if status_word (lc_ui s) = lc_last s then s
      else s\<lparr>lc_last := status_word (lc_ui s), lc_prop := status_word (lc_ui s)\<rparr>)"

lemma monitor_frame [simp]:
  "lc_running (monitor s) = lc_running s" "lc_explicit (monitor s) = lc_explicit s" "lc_loops (monitor s) = lc_loops s"
  "lc_current (monitor s) = lc_current s" "lc_shutdown (monitor s) = lc_shutdown s" "lc_ui (monitor s) = lc_ui s"
  "lc_stopping (monitor s) = lc_stopping s" "lc_pf (monitor s) = lc_pf s" "lc_last (monitor s) = status_word (lc_ui s)"
  by (simp_all add: monitor_def)

text \<open>The file is right once the monitor has seen a change of the status; a direct write that disagrees with the status while
  the status the monitor saw last is still current stays until the status changes.\<close>

lemma monitor_writes: "status_word (lc_ui s) \<noteq> lc_last s \<Longrightarrow> lc_prop (monitor s) = status_word (lc_ui s)"
  by (simp add: monitor_def)

lemma monitor_keeps_direct_write:
  "lc_last s = status_word (lc_ui s) \<Longrightarrow> monitor (s\<lparr>lc_prop := w\<rparr>) = s\<lparr>lc_prop := w\<rparr>"
  by (simp add: monitor_def)

section \<open>Steps\<close>

datatype levent =
    StartCall "profiles_file option"
  | StopCall
  | StopReturns
  | LoopReturns nat
  | LoopPanics nat
  | RestartDue nat "profiles_file option"
  | Published bool
  | Monitor
  | Shutdown

definition looping :: "lifecycle \<Rightarrow> nat \<Rightarrow> bool" where
  "looping s i = (i < length (lc_loops s) \<and> lp_phase (lc_loops s ! i) = Looping)"

inductive lstep :: "lifecycle \<Rightarrow> levent \<Rightarrow> lifecycle \<Rightarrow> bool" where
  start_call: "lstep s (StartCall pf) (start_tunnel pf s)"
| stop_call: "lstep s StopCall (stop_begin s)"
| stop_returns: "0 < lc_stopping s \<Longrightarrow> lstep s StopReturns (stop_finish s)"
| loop_returns: "looping s i \<Longrightarrow> lp_cancelled (lc_loops s ! i) \<Longrightarrow> lstep s (LoopReturns i) (loop_exit i s)"
| loop_panics: "looping s i \<Longrightarrow> lstep s (LoopPanics i) (loop_panic i s)"
| restart_due: "i < length (lc_loops s) \<Longrightarrow> lp_phase (lc_loops s ! i) = Waiting d \<Longrightarrow>
     lstep s (RestartDue i pf) (restart_due i pf s)"
| published: "looping s i \<Longrightarrow> lstep s (Published b) (s\<lparr>lc_published := b\<rparr>)"
| monitor: "lstep s Monitor (monitor s)"
| shutdown: "lstep s Shutdown (shut_down s)"

inductive_cases lstep_LoopReturnsE: "lstep s (LoopReturns i) s'"
inductive_simps lstep_Start_iff: "lstep s (StartCall pf) s'"
inductive_simps lstep_Stop_iff: "lstep s StopCall s'"
inductive_simps lstep_Panics_iff: "lstep s (LoopPanics i) s'"

inductive lreach :: "lifecycle \<Rightarrow> levent list \<Rightarrow> lifecycle \<Rightarrow> bool" for s0 where
  start: "lreach s0 [] s0"
| step: "lreach s0 es s \<Longrightarrow> lstep s e s' \<Longrightarrow> lreach s0 (es @ [e]) s'"

definition idle_lifecycle :: "profiles_file \<Rightarrow> ui \<Rightarrow> lifecycle" where
  "idle_lifecycle pf u =
     \<lparr>lc_running = False, lc_explicit = False, lc_backoff = 0, lc_loops = [], lc_current = None, lc_done = None,
      lc_sp = selected_profile pf, lc_published = False,
      lc_shutdown = False, lc_stopping = 0, lc_pf = pf, lc_ui = u, lc_prop = ''disconnected'', lc_last = []\<rparr>"

section \<open>The invariant\<close>

definition life_inv :: "lifecycle \<Rightarrow> bool" where
  "life_inv s =
     ((\<forall>i. looping s i \<longrightarrow> lc_current s = Some i \<and> lc_running s) \<and>
      (\<forall>i. looping s i \<and> lp_cancelled (lc_loops s ! i) \<longrightarrow> lc_explicit s \<or> lc_shutdown s) \<and>
      (\<forall>l\<in>set (lc_loops s). \<forall>d. lp_phase l \<noteq> Waiting d))"

lemma looping_unique: "life_inv s \<Longrightarrow> looping s i \<Longrightarrow> looping s j \<Longrightarrow> j = i"
  unfolding life_inv_def by (metis option.inject)

lemma looping_set_loop:
  "i < length (lc_loops s) \<Longrightarrow>
   looping (set_loop i l s) j = (if i = j then lp_phase l = Looping else looping s j)"
  by (auto simp: looping_def set_loop_def)

lemma start_commit_cases:
  assumes "start_commit pf s = t"
  shows "(lc_loops t = lc_loops s \<and> lc_running t = lc_running s \<and> lc_explicit t = lc_explicit s \<and>
          lc_current t = lc_current s \<and> lc_shutdown t = lc_shutdown s) \<or>
         (lc_loops t = lc_loops s @ [\<lparr>lp_phase = Looping, lp_cancelled = lc_shutdown s\<rparr>] \<and> lc_running t \<and>
          lc_current t = Some (length (lc_loops s)) \<and> lc_shutdown t = lc_shutdown s)"
  unfolding assms [symmetric] start_commit_def start_accesses Let_def by (auto split: option.splits)

lemma start_tunnel_inv:
  assumes "life_inv s"
  shows "life_inv (start_tunnel pf s)"
proof (cases "lc_running s")
  case True
  then show ?thesis using assms by (simp add: start_tunnel_def)
next
  case False
  then have n: "\<not> looping s i" for i using assms by (auto simp: life_inv_def)
  from start_commit_cases [OF refl, of pf s] show ?thesis
  proof (elim disjE)
    assume a: "lc_loops (start_commit pf s) = lc_loops s \<and> lc_running (start_commit pf s) = lc_running s \<and>
      lc_explicit (start_commit pf s) = lc_explicit s \<and> lc_current (start_commit pf s) = lc_current s \<and>
      lc_shutdown (start_commit pf s) = lc_shutdown s"
    then show ?thesis using assms False by (simp add: start_tunnel_def life_inv_def looping_def)
  next
    assume a: "lc_loops (start_commit pf s) = lc_loops s @ [\<lparr>lp_phase = Looping, lp_cancelled = lc_shutdown s\<rparr>] \<and>
      lc_running (start_commit pf s) \<and> lc_current (start_commit pf s) = Some (length (lc_loops s)) \<and>
      lc_shutdown (start_commit pf s) = lc_shutdown s"
    have l: "looping (start_commit pf s) i \<longleftrightarrow> i = length (lc_loops s)" for i
      using a n [of i] by (auto simp: looping_def nth_append less_Suc_eq)
    then show ?thesis using assms False a by (auto simp: start_tunnel_def life_inv_def)
  qed
qed

lemma stop_cancel_looping [simp]: "looping (stop_cancel s) i = looping s i"
proof (cases "lc_current s")
  case None
  then show ?thesis by (simp add: stop_cancel_def looping_def)
next
  case (Some k)
  then show ?thesis by (cases "k = i") (auto simp: stop_cancel_def looping_def)
qed

lemma stop_cancel_phases: "lp_phase ` set (lc_loops (stop_cancel s)) \<subseteq> lp_phase ` set (lc_loops s)"
proof (cases "lc_current s")
  case (Some i)
  have "lp_phase ` set ((lc_loops s)[i := (lc_loops s ! i)\<lparr>lp_cancelled := True\<rparr>]) \<subseteq> lp_phase ` set (lc_loops s)"
    by (metis (no_types, lifting) image_set list_update_id loop.simps(1) loop.update_convs(2) loop.surjective
        map_update order_refl)
  with Some show ?thesis by (simp add: stop_cancel_def)
qed (simp add: stop_cancel_def)

lemma stop_cancel_inv:
  assumes "life_inv s" "lc_explicit s"
  shows "life_inv (stop_cancel s)"
proof -
  have "lp_phase l \<noteq> Waiting d" if "l \<in> set (lc_loops (stop_cancel s))" for l d
  proof -
    have "lp_phase l \<in> lp_phase ` set (lc_loops s)" using stop_cancel_phases that by blast
    then show ?thesis using assms(1) unfolding life_inv_def by (metis imageE)
  qed
  then show ?thesis using assms unfolding life_inv_def by simp (simp add: stop_cancel_def)
qed

lemma stop_begin_inv: "life_inv s \<Longrightarrow> life_inv (stop_begin s)"
proof -
  assume "life_inv s"
  then have "life_inv (stop_mark s)" by (simp add: life_inv_def stop_mark_def looping_def)
  then have "life_inv (stop_cancel (stop_mark s))" by (rule stop_cancel_inv) (simp add: stop_mark_def)
  moreover have "life_inv (stop_client t) = life_inv t" for t
    by (simp add: life_inv_def stop_client_def looping_def)
  ultimately show ?thesis using \<open>life_inv s\<close> by (simp add: stop_begin_def)
qed

lemma loop_exit_inv:
  assumes "life_inv s" "looping s i" "lp_cancelled (lc_loops s ! i)"
  shows "life_inv (loop_exit i s)"
proof -
  have i: "i < length (lc_loops s)" using assms(2) by (simp add: looping_def)
  have x: "lc_explicit s \<or> lc_shutdown s" using assms by (auto simp: life_inv_def)
  have u: "looping s j \<Longrightarrow> j = i" for j using assms(1,2) looping_unique by blast
  have l: "\<not> looping (loop_exit i s) j" for j
    using u [of j] i x by (auto simp: loop_exit_def looping_def set_loop_def nth_list_update)
  have "\<forall>l\<in>set ((lc_loops s)[i := (lc_loops s ! i)\<lparr>lp_phase := Finished\<rparr>]). \<forall>d. lp_phase l \<noteq> Waiting d"
    using assms(1) by (auto simp: life_inv_def dest!: set_update_subset_insert [THEN subsetD])
  then show ?thesis using l x by (simp add: life_inv_def) (simp add: loop_exit_def set_loop_def)
qed

lemma loop_panic_inv: "life_inv s \<Longrightarrow> looping s i \<Longrightarrow> life_inv (loop_panic i s)"
proof -
  assume a: "life_inv s" "looping s i"
  have l: "\<not> looping (loop_panic i s) j" for j
    using looping_unique [OF a, of j] a(2) by (cases "i = j") (auto simp: loop_panic_def looping_def set_loop_def)
  have "\<forall>l\<in>set ((lc_loops s)[i := (lc_loops s ! i)\<lparr>lp_phase := Finished\<rparr>]). \<forall>d. lp_phase l \<noteq> Waiting d"
    using a(1) by (auto simp: life_inv_def dest!: set_update_subset_insert [THEN subsetD])
  then show "life_inv (loop_panic i s)" using l by (simp add: life_inv_def) (simp add: loop_panic_def set_loop_def)
qed

lemma shut_down_inv: "life_inv s \<Longrightarrow> life_inv (shut_down s)"
  by (auto simp: life_inv_def shut_down_def looping_def)

lemma lstep_inv: "lstep s e s' \<Longrightarrow> life_inv s \<Longrightarrow> life_inv s'"
proof (induction rule: lstep.induct)
  case (restart_due i s d pf)
  then have "lc_loops s ! i \<in> set (lc_loops s)" by simp
  with restart_due show ?case by (auto simp: life_inv_def)
qed (simp_all add: start_tunnel_inv stop_begin_inv loop_exit_inv loop_panic_inv shut_down_inv,
    simp_all add: life_inv_def looping_def stop_finish_def)

lemma lreach_inv: "lreach s0 es s \<Longrightarrow> life_inv s0 \<Longrightarrow> life_inv s"
  by (induction rule: lreach.induct) (auto intro: lstep_inv)

lemma idle_inv: "life_inv (idle_lifecycle pf u)"
  by (simp add: life_inv_def idle_lifecycle_def looping_def)

section \<open>After a panic\<close>

definition stuck :: "nat \<Rightarrow> lifecycle \<Rightarrow> bool" where
  "stuck n s = (lc_running s \<and> length (lc_loops s) = n \<and> (\<forall>i. \<not> looping s i) \<and>
     (\<forall>l\<in>set (lc_loops s). \<forall>d. lp_phase l \<noteq> Waiting d))"

lemma stuck_update:
  assumes "\<forall>i. \<not> looping s i" "\<forall>l\<in>set (lc_loops s). \<forall>d. lp_phase l \<noteq> Waiting d"
  shows "stuck (length (lc_loops s)) (s\<lparr>lc_running := True\<rparr>)"
  using assms by (simp add: stuck_def looping_def)

lemma lstep_stuck: "lstep s e s' \<Longrightarrow> stuck n s \<Longrightarrow> stuck n s'"
proof (induction rule: lstep.induct)
  case (start_call s pf)
  then show ?case by (simp add: start_tunnel_def stuck_def)
next
  case (stop_call s)
  show ?case
  proof (cases "lc_current s")
    case None
    then show ?thesis using stop_call by (simp add: stop_accesses stuck_def looping_def)
  next
    case (Some k)
    have l: "\<not> looping (stop_begin s) i" for i
      using stop_call Some by (cases "k = i") (auto simp: stop_accesses looping_def stuck_def)
    have "lp_phase l \<noteq> Waiting d" if "l \<in> set ((lc_loops s)[k := (lc_loops s ! k)\<lparr>lp_cancelled := True\<rparr>])" for l d
    proof (cases "k < length (lc_loops s)")
      case True
      then have "lc_loops s ! k \<in> set (lc_loops s)" by simp
      then show ?thesis using stop_call that
        by (auto simp: stuck_def dest!: set_update_subset_insert [THEN subsetD])
    next
      case False
      then have "l \<in> set (lc_loops s)" using that by (simp add: list_update_beyond)
      then show ?thesis using stop_call by (simp add: stuck_def)
    qed
    then show ?thesis using stop_call Some l by (simp add: stuck_def) (simp add: stop_accesses)
  qed
next
  case (restart_due i s d pf)
  then have "lc_loops s ! i \<in> set (lc_loops s)" by simp
  with restart_due show ?case by (auto simp: stuck_def)
next
  case (shutdown s)
  then show ?case by (auto simp: stuck_def shut_down_def looping_def)
qed (auto simp: stuck_def looping_def stop_finish_def)

lemma lreach_stuck: "lreach s es t \<Longrightarrow> stuck n s \<Longrightarrow> stuck n t"
  by (induction rule: lreach.induct) (auto intro: lstep_stuck)

text \<open>When the tunnel loop panics, the daemon goes on believing that it
  runs, and no start, stop, restart or any other step brings a tunnel up again until the daemon
  itself is restarted.\<close>

theorem panic_disables_the_tunnel:
  assumes "lreach (idle_lifecycle pf u) es s" "lstep s (LoopPanics i) s1" "lreach s1 fs t"
  shows "lc_running t \<and> {j. looping t j} = {} \<and> length (lc_loops t) = length (lc_loops s)"
proof -
  note inv = lreach_inv [OF assms(1) idle_inv]
  from assms(2) have l: "looping s i" and s1: "s1 = loop_panic i s" by (simp_all add: lstep_Panics_iff)
  have n: "\<not> looping s1 j" for j
    using looping_unique [OF inv l, of j] l unfolding s1
    by (cases "i = j") (auto simp: loop_panic_def looping_def set_loop_def)
  have i: "life_inv s1" unfolding s1 using inv l by (rule loop_panic_inv)
  have "stuck (length (lc_loops s)) s1"
    using n i inv l unfolding stuck_def
    by (simp add: life_inv_def) (simp add: s1 loop_panic_def set_loop_def)
  from lreach_stuck [OF assms(3) this] show ?thesis by (simp add: stuck_def)
qed

section \<open>Restarting\<close>

definition restart_fast :: "profiles_file option \<Rightarrow> nat \<Rightarrow> levent list" where
  "restart_fast pf i = [StopCall, LoopReturns i, StopReturns, StartCall pf]"

definition restart_slow :: "profiles_file option \<Rightarrow> nat \<Rightarrow> levent list" where
  "restart_slow pf i = [StopCall, StopReturns, StartCall pf, LoopReturns i]"

lemma lreach_snoc: "lreach s es t \<Longrightarrow> lstep t e t' \<Longrightarrow> lreach s (es @ [e]) t'"
  by (rule lreach.step)

lemma lreach_four:
  assumes "lstep s a s1" "lstep s1 b s2" "lstep s2 c s3" "lstep s3 d s4"
  shows "lreach s [a, b, c, d] s4"
  using lreach_snoc [OF lreach_snoc [OF lreach_snoc [OF lreach_snoc [OF lreach.start assms(1)] assms(2)] assms(3)] assms(4)]
  by simp

lemma stop_begin_running:
  assumes "life_inv s" "looping s i"
  shows "looping (stop_begin s) i" "lp_cancelled (lc_loops (stop_begin s) ! i)" "lc_explicit (stop_begin s)"
    "lc_stopping (stop_begin s) = Suc (lc_stopping s)" "length (lc_loops (stop_begin s)) = length (lc_loops s)"
    "lc_running (stop_begin s)"
proof -
  have c: "lc_current s = Some i" "lc_running s" using assms by (auto simp: life_inv_def)
  then show "looping (stop_begin s) i" "lp_cancelled (lc_loops (stop_begin s) ! i)" "lc_explicit (stop_begin s)"
    "lc_stopping (stop_begin s) = Suc (lc_stopping s)" "length (lc_loops (stop_begin s)) = length (lc_loops s)"
    "lc_running (stop_begin s)"
    using assms(2) by (simp_all add: stop_accesses looping_def)
qed

lemma loop_exit_explicit:
  assumes "lc_explicit s"
  shows "\<not> lc_running (loop_exit i s)" "lc_stopping (loop_exit i s) = lc_stopping s"
    "length (lc_loops (loop_exit i s)) = length (lc_loops s)" "lc_explicit (loop_exit i s)"
  using assms by (simp_all add: loop_exit_def set_loop_def)

text \<open>C31: the restart of the API, when the old loop returns in time, ends
  with a new loop for the profile that is selected on disk at that moment, and the state and
  the module property say so.\<close>

theorem restart_brings_up_the_selected_profile:
  assumes "lreach (idle_lifecycle pf0 u) es s" "looping s i" "selected_profile pf = Some sp"
  shows "\<exists>t. lreach s (restart_fast (Some pf) i) t \<and> lc_running t \<and> looping t (length (lc_loops s)) \<and>
     lc_current t = Some (length (lc_loops s)) \<and> u_profile (lc_ui t) = p_name sp \<and>
     u_state (lc_ui t) = ''STARTING'' \<and> lc_prop t = ''running''"
proof -
  note inv = lreach_inv [OF assms(1) idle_inv]
  note b = stop_begin_running [OF inv assms(2)]
  let ?b = "stop_begin s" let ?x = "loop_exit i ?b" let ?f = "stop_finish ?x"
  note x = loop_exit_explicit [OF b(3), of i]
  have st: "start_tunnel (Some pf) ?f = start_commit (Some pf) ?f"
    using x(1) by (simp add: start_tunnel_def stop_finish_def)
  have "lreach s (restart_fast (Some pf) i) (start_commit (Some pf) ?f)"
    unfolding restart_fast_def st [symmetric]
    by (rule lreach_four [OF lstep.stop_call lstep.loop_returns [OF b(1,2)] lstep.stop_returns lstep.start_call])
      (simp add: x(2) b(4))
  moreover have "length (lc_loops ?f) = length (lc_loops s)" using x(3) b(5) by (simp add: stop_finish_def)
  ultimately show ?thesis
    using assms(3)
    by (intro exI [of _ "start_commit (Some pf) ?f"])
      (simp add: start_commit_def start_accesses Let_def looping_def nth_append starting_ui_def)
qed

text \<open>C32: if the old loop needs longer than the five seconds \<open>stopTunnel\<close> waits and the half
  second the restart sleeps after it, the same restart ends with no tunnel at all: the start finds the daemon still running and does nothing, and
  then the old loop returns.\<close>

theorem slow_stop_loses_restart:
  assumes "lreach (idle_lifecycle pf0 u) es s" "looping s i"
  shows "\<exists>t. lreach s (restart_slow pf i) t \<and> \<not> lc_running t \<and> {j. looping t j} = {} \<and> u_state (lc_ui t) = ''IDLE''"
proof -
  note inv = lreach_inv [OF assms(1) idle_inv]
  note b = stop_begin_running [OF inv assms(2)]
  let ?b = "stop_begin s" let ?f = "stop_finish ?b" let ?x = "loop_exit i ?f"
  have f: "looping ?f i" "lp_cancelled (lc_loops ?f ! i)" "lc_running ?f" "lc_explicit ?f"
    using b by (simp_all add: stop_finish_def looping_def)
  have st: "lstep ?f (StartCall pf) ?f"
    using lstep.start_call [of ?f pf] f(3) by (simp add: start_tunnel_def)
  have r: "lreach s (restart_slow pf i) ?x"
    unfolding restart_slow_def
    by (rule lreach_four [OF lstep.stop_call lstep.stop_returns st lstep.loop_returns [OF f(1,2)]])
      (simp add: b(4))
  have i: "life_inv ?f" using stop_begin_inv [OF inv] by (simp add: life_inv_def stop_finish_def looping_def)
  have "\<not> looping ?x j" for j
    using looping_unique [OF i f(1), of j] f(1,4)
    by (cases "i = j") (auto simp: loop_exit_def looping_def set_loop_def)
  then show ?thesis using r f(4)
    by (intro exI [of _ ?x]) (simp add: loop_exit_def idle_ui_def stop_finish_def stopped_ui_def Let_def)
qed

section \<open>Instances\<close>

definition sample_store :: profiles_file where
  "sample_store = \<lparr>pf_selected = ''p'', pf_profiles = [sample_profile]\<rparr>"

definition blank_ui :: ui where
  "blank_ui = \<lparr>u_state = ''IDLE'', u_running = False, u_connected = False, u_auth = False, u_ready = False,
     u_started = False, u_profile = [], u_mode = [], u_chain = [], u_payload = False, u_error = [], u_event = [],
     u_pool = \<lparr>po_size = 0, po_healthy = 0, po_reconnecting = 0, po_streams = 0, po_max = 0\<rparr>\<rparr>"

definition sample_started :: lifecycle where
  "sample_started = start_tunnel None (idle_lifecycle sample_store blank_ui)"

lemma sample_selected: "selected_profile sample_store = Some sample_profile"
  by (simp add: selected_profile_def sample_store_def sample_profile_def)

lemma sample_started_reach: "lreach (idle_lifecycle sample_store blank_ui) [StartCall None] sample_started"
  using lreach.step [OF lreach.start lstep.start_call, of "idle_lifecycle sample_store blank_ui" None]
  by (simp add: sample_started_def)

lemma sample_looping: "looping sample_started 0" "length (lc_loops sample_started) = 1"
  using sample_selected
  by (simp_all add: sample_started_def start_tunnel_def start_commit_def start_accesses idle_lifecycle_def looping_def)

theorem panic_disables_the_tunnel_witness:
  "\<exists>t. lreach (loop_panic 0 sample_started) [StartCall (Some sample_store)] t \<and> {j. looping t j} = {}"
proof -
  have p: "lstep sample_started (LoopPanics 0) (loop_panic 0 sample_started)"
    by (rule lstep.loop_panics) (rule sample_looping)
  have r: "lreach (loop_panic 0 sample_started) [StartCall (Some sample_store)]
      (start_tunnel (Some sample_store) (loop_panic 0 sample_started))"
    using lreach.step [OF lreach.start lstep.start_call, of "loop_panic 0 sample_started" "Some sample_store"] by simp
  show ?thesis using panic_disables_the_tunnel [OF sample_started_reach p r] r by blast
qed

theorem restart_brings_up_the_selected_profile_witness:
  "\<exists>t. lreach sample_started (restart_fast (Some sample_store) 0) t \<and> looping t 1"
  using restart_brings_up_the_selected_profile [OF sample_started_reach sample_looping(1) sample_selected]
    sample_looping(2) by auto

theorem slow_stop_loses_restart_witness:
  "\<exists>t. lreach sample_started (restart_slow (Some sample_store) 0) t \<and> \<not> lc_running t"
  using slow_stop_loses_restart [OF sample_started_reach sample_looping(1)] by blast

section \<open>The module property\<close>

text \<open>\<open>updateModuleProp\<close>: the description line of \<open>module.prop\<close> shows the status. The circles are UTF-8.\<close>

definition status_description :: "string \<Rightarrow> string" where
  "status_description status =
     (if status = ''running'' then ''description=[ '' @ [CHR 0xF0, CHR 0x9F, CHR 0x9F, CHR 0xA2] @ '' ] SSHCustom-Magisk - running''
      else if status = ''standby'' then ''description=[ '' @ [CHR 0xF0, CHR 0x9F, CHR 0x9F, CHR 0xA1] @ '' ] SSHCustom-Magisk - standby''
      else ''description=[ '' @ [CHR 0xF0, CHR 0x9F, CHR 0x94, CHR 0xB4] @ '' ] SSHCustom-Magisk - disconnected'')"

fun replace_description :: "string \<Rightarrow> string list \<Rightarrow> string list" where
  "replace_description d [] = []"
| "replace_description d (l # ls) =
     (if has_prefix l ''description='' then d # ls else l # replace_description d ls)"

definition update_module_prop :: "string \<Rightarrow> string \<Rightarrow> string" where
  "update_module_prop status data =
     str_join [CHR 0x0A] (replace_description (status_description status) (split_on (CHR 0x0A) data))"

lemma replace_description_length [simp]: "length (replace_description d ls) = length ls"
  by (induction ls) auto

lemma replace_description_twice:
  "has_prefix d ''description='' \<Longrightarrow> replace_description e (replace_description d ls) = replace_description e ls"
  by (induction ls) auto

lemma replace_description_newline:
  "CHR 0x0A \<notin> set d \<Longrightarrow> \<forall>l\<in>set ls. CHR 0x0A \<notin> set l \<Longrightarrow> \<forall>l\<in>set (replace_description d ls). CHR 0x0A \<notin> set l"
  by (induction ls) auto

lemma status_description_line:
  "has_prefix (status_description st) ''description=''" "CHR 0x0A \<notin> set (status_description st)"
  by (simp_all add: status_description_def has_prefix_def)

text \<open>Updating the property file keeps every line but the first
  description line, and a later update overrides an earlier one completely, so the file always
  shows the last status written.\<close>

theorem module_prop_shows_last_status:
  "split_on (CHR 0x0A) (update_module_prop st data) =
     replace_description (status_description st) (split_on (CHR 0x0A) data) \<and>
   update_module_prop st' (update_module_prop st data) = update_module_prop st' data"
proof -
  have "\<forall>l\<in>set (replace_description (status_description st) (split_on (CHR 0x0A) data)). CHR 0x0A \<notin> set l"
    by (rule replace_description_newline) (use split_on_no_sep in \<open>auto simp: status_description_line\<close>)
  moreover have "replace_description (status_description st) (split_on (CHR 0x0A) data) \<noteq> []"
    by (metis length_0_conv replace_description_length split_on_ne)
  ultimately have "split_on (CHR 0x0A) (update_module_prop st data) =
     replace_description (status_description st) (split_on (CHR 0x0A) data)"
    unfolding update_module_prop_def by (intro split_on_join)
  then show ?thesis
    by (simp add: update_module_prop_def [of st'] replace_description_twice status_description_line)
qed

end
