(* ===== verification/TunnelRaces.thy ===== *)
theory TunnelRaces
  imports Lifecycle
begin

text \<open>
  \<open>startTunnel\<close> and \<open>stopTunnel\<close> as goroutines of their own. The handlers of \<open>buildMux\<close>, the automatic restart and
  \<open>run\<close> call the two closures without a lock, so that the accesses of several calls can
  come in any order. A call is the point it has reached; \<open>call_step\<close> makes its next access. A call that runs alone
  is the step of \<open>Lifecycle\<close> (\<open>start_alone\<close>, \<open>stop_alone\<close>).
\<close>

section \<open>Calls\<close>

datatype call =
    StartTest | StartRead | StartMark | StartClear | StartMake | StartArm nat | StartState nat | StartProp nat
  | StartSpawn nat
  | StopTest | StopMark | StopCancel | StopClient
  | Past

text \<open>The next access of a call. Past its last access a call of \<open>startTunnel\<close> is over, and one of \<open>stopTunnel\<close> waits.
  If another call has set the shared \<open>sp\<close> to nil, \<open>startTunnel\<close> panics on it with the lock of the state held: the
  call makes no further access.\<close>

fun call_step :: "profiles_file option \<Rightarrow> call \<Rightarrow> lifecycle \<Rightarrow> call \<times> lifecycle" where
  "call_step pf StartTest s = (if lc_running s then Past else StartRead, s)"
| "call_step pf StartRead s = (if lc_sp (start_read pf s) = None then Past else StartMark, start_read pf s)"
| "call_step pf StartMark s = (StartClear, start_mark s)"
| "call_step pf StartClear s = (StartMake, start_clear s)"
| "call_step pf StartMake s = (StartArm (length (lc_loops s)), start_make s)"
| "call_step pf (StartArm i) s = (StartState i, start_arm i s)"
| "call_step pf (StartState i) s =
     (case lc_sp s of None \<Rightarrow> (StartState i, s) | Some sp \<Rightarrow> (StartProp i, start_state sp s))"
| "call_step pf (StartProp i) s = (StartSpawn i, start_prop s)"
| "call_step pf (StartSpawn i) s = (Past, start_spawn i s)"
| "call_step pf StopTest s = (if lc_running s then StopMark else Past, s)"
| "call_step pf StopMark s = (StopCancel, stop_mark s)"
| "call_step pf StopCancel s = (StopClient, stop_cancel s)"
| "call_step pf StopClient s = (Past, stop_client s)"
| "call_step pf Past s = (Past, s)"

definition alone :: "profiles_file option \<Rightarrow> nat \<Rightarrow> call \<times> lifecycle \<Rightarrow> call \<times> lifecycle" where
  "alone pf n = (\<lambda>(c, s). call_step pf c s) ^^ n"

lemma alone_Suc [simp]: "alone pf (Suc n) (c, s) = alone pf n (call_step pf c s)"
  by (simp add: alone_def funpow_swap1)

lemma alone_0 [simp]: "alone pf 0 p = p"
  by (simp add: alone_def)

lemma alone_past [simp]: "alone pf n (Past, s) = (Past, s)"
  by (induction n) simp_all

lemma start_alone: "alone pf 9 (StartTest, s) = (Past, start_tunnel pf s)"
proof (cases "lc_running s \<or> lc_sp (start_read pf s) = None")
  case True
  then show ?thesis by (auto simp: numeral_eq_Suc start_tunnel_def start_commit_def)
next
  case False
  then obtain sp where sp: "lc_sp (start_read pf s) = Some sp" "\<not> lc_running s" by auto
  have k: "lc_sp (start_arm i (start_make (start_clear (start_mark (start_read pf s))))) = Some sp"
    "length (lc_loops (start_clear (start_mark (start_read pf s)))) = length (lc_loops (start_read pf s))" for i
    using sp(1) by (simp_all add: start_arm_def start_make_def start_clear_def start_mark_def)
  show ?thesis using sp by (simp add: numeral_eq_Suc start_tunnel_def start_commit_def Let_def k)
qed

lemma stop_alone: "alone pf 4 (StopTest, s) = (Past, stop_begin s)"
  by (simp add: numeral_eq_Suc stop_begin_def)

section \<open>Interleaving\<close>

record tunnel_calls =
  tc_life :: lifecycle
  tc_calls :: "call list"

datatype cevent =
    CallStart
  | CallStop
  | Access nat "profiles_file option"
  | RestartCheck nat
  | Other levent

fun own_step :: "levent \<Rightarrow> bool" where
  "own_step (StartCall pf) = False"
| "own_step StopCall = False"
| "own_step (RestartDue i pf) = False"
| "own_step _ = True"

text \<open>The back-off is over: the goroutine calls \<open>startTunnel\<close> unless it is to stop.\<close>

definition restart_check :: "nat \<Rightarrow> tunnel_calls \<Rightarrow> tunnel_calls" where
  "restart_check i m =
     m\<lparr>tc_life := set_loop i ((lc_loops (tc_life m) ! i)\<lparr>lp_phase := Finished\<rparr>) (tc_life m),
       tc_calls := tc_calls m @ (if \<not> lc_shutdown (tc_life m) \<and> \<not> lc_explicit (tc_life m) then [StartTest] else [])\<rparr>"

inductive cstep :: "tunnel_calls \<Rightarrow> cevent \<Rightarrow> tunnel_calls \<Rightarrow> bool" where
  call_start: "cstep m CallStart (m\<lparr>tc_calls := tc_calls m @ [StartTest]\<rparr>)"
| call_stop: "cstep m CallStop (m\<lparr>tc_calls := tc_calls m @ [StopTest]\<rparr>)"
| access: "i < length (tc_calls m) \<Longrightarrow> call_step pf (tc_calls m ! i) (tc_life m) = (c, s) \<Longrightarrow>
     cstep m (Access i pf) (m\<lparr>tc_life := s, tc_calls := (tc_calls m)[i := c]\<rparr>)"
| restart_check: "i < length (lc_loops (tc_life m)) \<Longrightarrow> lp_phase (lc_loops (tc_life m) ! i) = Waiting d \<Longrightarrow>
     cstep m (RestartCheck i) (restart_check i m)"
| other: "lstep (tc_life m) e s \<Longrightarrow> own_step e \<Longrightarrow> cstep m (Other e) (m\<lparr>tc_life := s\<rparr>)"

inductive creach :: "tunnel_calls \<Rightarrow> cevent list \<Rightarrow> tunnel_calls \<Rightarrow> bool" for m0 where
  start: "creach m0 [] m0"
| step: "creach m0 es m \<Longrightarrow> cstep m e m' \<Longrightarrow> creach m0 (es @ [e]) m'"

definition idle_calls :: "profiles_file \<Rightarrow> ui \<Rightarrow> tunnel_calls" where
  "idle_calls pf u = \<lparr>tc_life = idle_lifecycle pf u, tc_calls = []\<rparr>"

text \<open>Calls that do not overlap: at most one of them is between its test and its last access.\<close>

definition one_call :: "tunnel_calls \<Rightarrow> bool" where
  "one_call m = (\<forall>i j. i < length (tc_calls m) \<longrightarrow> j < length (tc_calls m) \<longrightarrow>
     tc_calls m ! i \<noteq> Past \<longrightarrow> tc_calls m ! j \<noteq> Past \<longrightarrow> i = j)"

inductive sreach :: "tunnel_calls \<Rightarrow> cevent list \<Rightarrow> tunnel_calls \<Rightarrow> bool" for m0 where
  start: "sreach m0 [] m0"
| step: "sreach m0 es m \<Longrightarrow> cstep m e m' \<Longrightarrow> one_call m' \<Longrightarrow> sreach m0 (es @ [e]) m'"

lemma sreach_creach: "sreach m0 es m \<Longrightarrow> creach m0 es m"
  by (induction rule: sreach.induct) (auto intro: creach.intros)

section \<open>One tunnel at a time\<close>

text \<open>What holds of the shared variables at each point of a call that runs without another.\<close>

definition no_loop :: "lifecycle \<Rightarrow> bool" where
  "no_loop s = (\<forall>i. \<not> looping s i)"

definition armed :: "nat \<Rightarrow> lifecycle \<Rightarrow> bool" where
  "armed i s = (i < length (lc_loops s) \<and> lp_phase (lc_loops s ! i) = Armed \<and>
     (lp_cancelled (lc_loops s ! i) \<longrightarrow> lc_shutdown s))"

fun call_inv :: "call \<Rightarrow> lifecycle \<Rightarrow> bool" where
  "call_inv StartRead s = (\<not> lc_running s)"
| "call_inv StartMark s = (\<not> lc_running s)"
| "call_inv StartClear s = (lc_running s \<and> no_loop s)"
| "call_inv StartMake s = (lc_running s \<and> no_loop s)"
| "call_inv (StartArm i) s = (lc_running s \<and> no_loop s \<and> armed i s)"
| "call_inv (StartState i) s = (lc_running s \<and> no_loop s \<and> armed i s \<and> lc_current s = Some i)"
| "call_inv (StartProp i) s = (lc_running s \<and> no_loop s \<and> armed i s \<and> lc_current s = Some i)"
| "call_inv (StartSpawn i) s = (lc_running s \<and> no_loop s \<and> armed i s \<and> lc_current s = Some i)"
| "call_inv StopCancel s = lc_explicit s"
| "call_inv _ s = True"

lemma no_loop_inv:
  "no_loop s \<Longrightarrow> life_inv s \<longleftrightarrow> (\<forall>l\<in>set (lc_loops s). \<forall>d. lp_phase l \<noteq> Waiting d)"
  by (auto simp: no_loop_def life_inv_def)

lemma not_running_no_loop: "life_inv s \<Longrightarrow> \<not> lc_running s \<Longrightarrow> no_loop s"
  by (auto simp: no_loop_def life_inv_def)

lemma start_read_frame [simp]:
  "lc_running (start_read pf s) = lc_running s" "lc_loops (start_read pf s) = lc_loops s"
  "lc_explicit (start_read pf s) = lc_explicit s" "lc_shutdown (start_read pf s) = lc_shutdown s"
  "lc_current (start_read pf s) = lc_current s"
  by (simp_all add: start_read_def Let_def split: option.splits)

lemma life_inv_cong:
  "lc_loops t = lc_loops s \<Longrightarrow> lc_running t = lc_running s \<Longrightarrow> lc_explicit t = lc_explicit s \<Longrightarrow>
   lc_shutdown t = lc_shutdown s \<Longrightarrow> lc_current t = lc_current s \<Longrightarrow> life_inv t = life_inv s"
  by (simp add: life_inv_def looping_def)

lemma call_inv_cong:
  "lc_loops t = lc_loops s \<Longrightarrow> lc_running t = lc_running s \<Longrightarrow> lc_explicit t = lc_explicit s \<Longrightarrow>
   lc_shutdown t = lc_shutdown s \<Longrightarrow> lc_current t = lc_current s \<Longrightarrow> call_inv c t = call_inv c s"
  by (cases c) (simp_all add: no_loop_def looping_def armed_def)

lemma call_step_inv:
  assumes "life_inv s" "call_inv c s" "call_step pf c s = (c', s')"
  shows "life_inv s' \<and> call_inv c' s'"
proof (cases c)
  case StartTest
  then show ?thesis using assms by (auto split: if_splits)
next
  case StartRead
  have l: "life_inv (start_read pf s) = life_inv s" by (rule life_inv_cong) simp_all
  show ?thesis using assms StartRead l by (auto split: if_splits)
next
  case StartMark
  then have n: "no_loop s" using assms by (simp add: not_running_no_loop)
  then have "no_loop (start_mark s)" by (simp add: no_loop_def start_mark_def looping_def)
  then show ?thesis using assms StartMark n by (auto simp: no_loop_inv) (auto simp: start_mark_def)
next
  case StartClear
  then have n: "no_loop s" using assms by simp
  then have "no_loop (start_clear s)" by (simp add: no_loop_def start_clear_def looping_def)
  then show ?thesis using assms StartClear n by (auto simp: no_loop_inv) (auto simp: start_clear_def)
next
  case StartMake
  then have n: "no_loop s" using assms by simp
  then have m: "no_loop (start_make s)"
    by (auto simp: no_loop_def start_make_def looping_def nth_append less_Suc_eq)
  have "armed (length (lc_loops s)) (start_make s)" by (simp add: armed_def start_make_def)
  then show ?thesis using assms StartMake n m by (auto simp: no_loop_inv) (auto simp: start_make_def)
next
  case (StartArm i)
  then have n: "no_loop s" "armed i s" using assms by simp_all
  then have "no_loop (start_arm i s)" "armed i (start_arm i s)"
    by (simp_all add: no_loop_def start_arm_def looping_def armed_def)
  then show ?thesis using assms StartArm n by (auto simp: no_loop_inv) (auto simp: start_arm_def)
next
  case (StartState i)
  show ?thesis
  proof (cases "lc_sp s")
    case (Some sp)
    have "life_inv (start_state sp s) = life_inv s" "call_inv c (start_state sp s) = call_inv c s"
      by (rule life_inv_cong call_inv_cong; simp add: start_state_def)+
    then show ?thesis using assms StartState Some by auto
  qed (use assms StartState in auto)
next
  case (StartProp i)
  have "life_inv (start_prop s) = life_inv s" "call_inv c (start_prop s) = call_inv c s"
    by (rule life_inv_cong call_inv_cong; simp add: start_prop_def)+
  then show ?thesis using assms StartProp by auto
next
  case (StartSpawn i)
  then have n: "no_loop s" "armed i s" "lc_current s = Some i" "lc_running s" using assms by simp_all
  have i: "i < length (lc_loops s)" using n(2) by (simp add: armed_def)
  have l: "looping (start_spawn i s) j \<longleftrightarrow> j = i" for j
    using n(1) i by (auto simp: start_spawn_def looping_set_loop no_loop_def)
  have "\<forall>l\<in>set (lc_loops (start_spawn i s)). \<forall>d. lp_phase l \<noteq> Waiting d"
    using assms(1) by (auto simp: start_spawn_def set_loop_def life_inv_def dest!: set_update_subset_insert [THEN subsetD])
  then have "life_inv (start_spawn i s)"
    using l n(2,3,4) i unfolding life_inv_def by (simp add: start_spawn_def set_loop_def armed_def)
  then show ?thesis using assms StartSpawn by auto
next
  case StopTest
  then show ?thesis using assms by (auto split: if_splits)
next
  case StopMark
  have "life_inv (stop_mark s)" using assms(1) by (simp add: life_inv_def stop_mark_def looping_def)
  then show ?thesis using assms StopMark by (auto simp: stop_mark_def)
next
  case StopCancel
  then show ?thesis using assms stop_cancel_inv by auto
next
  case StopClient
  have "life_inv (stop_client s) = life_inv s" by (rule life_inv_cong) (simp_all add: stop_client_def)
  then show ?thesis using assms StopClient by auto
next
  case Past
  then show ?thesis using assms by auto
qed

lemma own_step_call_inv:
  assumes "lstep s e s'" "own_step e" "life_inv s" "call_inv c s"
  shows "call_inv c s'"
proof -
  have n: "\<not> looping s i" if "no_loop s \<or> \<not> lc_running s" for i
    using that assms(3) not_running_no_loop by (auto simp: no_loop_def)
  show ?thesis using assms(1)
  proof cases
    case stop_returns
    then show ?thesis using assms(4) by (subst call_inv_cong [of s' s]) (simp_all add: stop_finish_def)
  next
    case (loop_returns i)
    then show ?thesis using assms(4) n by (cases c) (auto simp: loop_exit_def set_loop_def)
  next
    case (loop_panics i)
    then show ?thesis using assms(4) n by (cases c) (auto simp: loop_panic_def set_loop_def)
  next
    case (published i b)
    then show ?thesis using assms(4) by (subst call_inv_cong [of s' s]) simp_all
  next
    case monitor
    then show ?thesis using assms(4) by (subst call_inv_cong [of s' s]) simp_all
  next
    case shutdown
    then show ?thesis using assms(4) by (cases c) (auto simp: shut_down_def no_loop_def looping_def armed_def)
  qed (use assms(2) in simp_all)
qed

definition calls_inv :: "tunnel_calls \<Rightarrow> bool" where
  "calls_inv m = (life_inv (tc_life m) \<and> (\<forall>c\<in>set (tc_calls m). call_inv c (tc_life m)))"

lemma others_past:
  assumes "one_call m" "i < length (tc_calls m)" "tc_calls m ! i \<noteq> Past" "c \<in> set ((tc_calls m)[i := c'])"
  shows "c = c' \<or> c = Past"
proof -
  obtain j where j: "j < length (tc_calls m)" "(tc_calls m)[i := c'] ! j = c"
    using assms(4) by (auto simp: in_set_conv_nth)
  then show ?thesis using assms(1-3) unfolding one_call_def by (cases "i = j") auto
qed

lemma cstep_calls_inv:
  assumes "cstep m e m'" "one_call m" "calls_inv m"
  shows "calls_inv m'"
  using assms(1)
proof cases
  case (access i pf c s)
  show ?thesis
  proof (cases "tc_calls m ! i = Past")
    case True
    then have e: "c = Past" "s = tc_life m" using access(4) by simp_all
    have "(tc_calls m)[i := c] = tc_calls m" using True e(1) by (metis list_update_id)
    then show ?thesis using access(2) e(2) assms(3) by (simp add: calls_inv_def)
  next
    case False
    have "call_inv (tc_calls m ! i) (tc_life m)" "life_inv (tc_life m)"
      using assms(3) access(3) by (simp_all add: calls_inv_def)
    with call_step_inv access(4) have "life_inv s" "call_inv c s" by blast+
    moreover have "call_inv x s" if "x \<in> set ((tc_calls m)[i := c])" for x
      using others_past [OF assms(2) access(3) False that] \<open>call_inv c s\<close> by auto
    ultimately show ?thesis using access(2) by (simp add: calls_inv_def)
  qed
next
  case (restart_check i d)
  then have "lc_loops (tc_life m) ! i \<in> set (lc_loops (tc_life m))" by simp
  with restart_check assms(3) show ?thesis by (auto simp: calls_inv_def life_inv_def)
next
  case (other e s)
  then show ?thesis using assms(3) lstep_inv own_step_call_inv by (auto simp: calls_inv_def)
qed (use assms(3) in \<open>auto simp: calls_inv_def\<close>)

lemma sreach_calls_inv:
  "sreach m0 es m \<Longrightarrow> one_call m0 \<Longrightarrow> calls_inv m0 \<Longrightarrow> one_call m \<and> calls_inv m"
  by (induction rule: sreach.induct) (auto intro: cstep_calls_inv)

text \<open>C30: in every run in which at most one call of \<open>startTunnel\<close> or \<open>stopTunnel\<close> at a time is
  between its test of \<open>tunnelRunning\<close> and its last access (the wait of \<open>stopTunnel\<close> not counted), at every
  point of these calls at most one tunnel loop runs, it is the one \<open>stopTunnel\<close> would cancel, and
  \<open>tunnelRunning\<close> is set; the automatic restart is never reached. Calls that do overlap break each part
  (\<open>stop_during_start_is_undone\<close>, \<open>overlapping_starts_run_two_tunnels\<close>).\<close>

theorem one_tunnel_at_a_time:
  assumes "sreach (idle_calls pf u) es m"
  shows "{i. looping (tc_life m) i} \<subseteq> (case lc_current (tc_life m) of None \<Rightarrow> {} | Some i \<Rightarrow> {i}) \<and>
     (lc_running (tc_life m) \<or> {i. looping (tc_life m) i} = {}) \<and>
     (\<exists>d. Waiting d \<in> lp_phase ` set (lc_loops (tc_life m))) = False"
proof -
  have "calls_inv m"
    using sreach_calls_inv [OF assms] by (simp add: one_call_def calls_inv_def idle_calls_def idle_inv)
  then have i: "life_inv (tc_life m)" by (simp add: calls_inv_def)
  have "Waiting d \<notin> lp_phase ` set (lc_loops (tc_life m))" for d using i unfolding life_inv_def by (metis imageE)
  moreover have "looping (tc_life m) j \<Longrightarrow> lc_current (tc_life m) = Some j \<and> lc_running (tc_life m)" for j
    using i by (simp add: life_inv_def)
  ultimately show ?thesis by (auto split: option.splits)
qed

section \<open>Schedules\<close>

definition access_at :: "nat \<Rightarrow> tunnel_calls \<Rightarrow> tunnel_calls" where
  "access_at i m = m\<lparr>tc_life := snd (call_step None (tc_calls m ! i) (tc_life m)),
     tc_calls := (tc_calls m)[i := fst (call_step None (tc_calls m ! i) (tc_life m))]\<rparr>"

lemma access_at_calls [simp]: "length (tc_calls (access_at i m)) = length (tc_calls m)"
  by (simp add: access_at_def)

lemma cstep_access_at: "i < length (tc_calls m) \<Longrightarrow> cstep m (Access i None) (access_at i m)"
  unfolding access_at_def by (rule cstep.access) simp_all

lemma creach_accesses:
  "creach m0 es m \<Longrightarrow> list_all (\<lambda>i. i < length (tc_calls m)) is \<Longrightarrow>
   creach m0 (es @ map (\<lambda>i. Access i None) is) (fold access_at is m)"
proof (induction "is" arbitrary: es m)
  case (Cons i "is")
  have "cstep m (Access i None) (access_at i m)"
    by (rule cstep_access_at) (use Cons.prems in simp)
  from Cons.IH [OF creach.step [OF Cons.prems(1) this]] Cons.prems(2) show ?case by simp
qed simp

lemma creach_snoc: "creach m0 es m \<Longrightarrow> cstep m e m' \<Longrightarrow> creach m0 (es @ [e]) m'"
  by (rule creach.step)

lemma idle_two_calls:
  "creach (idle_calls pf u) [CallStart, c] \<lparr>tc_life = idle_lifecycle pf u, tc_calls = [StartTest, d]\<rparr>"
  if "(c, d) \<in> {(CallStart, StartTest), (CallStop, StopTest)}"
proof -
  have a: "creach (idle_calls pf u) [CallStart] \<lparr>tc_life = idle_lifecycle pf u, tc_calls = [StartTest]\<rparr>"
    using creach.step [OF creach.start cstep.call_start, of "idle_calls pf u"] by (simp add: idle_calls_def)
  from that show ?thesis
    using creach.step [OF a cstep.call_start] creach.step [OF a cstep.call_stop] by auto
qed

lemmas run_accesses = access_at_def start_accesses stop_accesses idle_lifecycle_def

section \<open>A stop during a start\<close>

text \<open>A call of \<open>stopTunnel\<close> that overlaps one of \<open>startTunnel\<close>: it finds \<open>tunnelRunning\<close> set, the start then clears
  \<open>explicitStop\<close> behind it and sets \<open>tunnelCancel\<close>, and the stop cancels the new loop.\<close>

definition undone_schedule :: "nat list" where
  "undone_schedule = [0, 0, 0, 1, 1, 0, 0, 0, 1, 1, 0, 0, 0]"

definition undone_state :: "profiles_file \<Rightarrow> ui \<Rightarrow> tunnel_calls" where
  "undone_state pf u = fold access_at undone_schedule \<lparr>tc_life = idle_lifecycle pf u, tc_calls = [StartTest, StopTest]\<rparr>"

lemma undone_state:
  assumes "selected_profile pf = Some sp"
  shows "lc_loops (tc_life (undone_state pf u)) = [\<lparr>lp_phase = Looping, lp_cancelled = True\<rparr>] \<and>
    \<not> lc_explicit (tc_life (undone_state pf u)) \<and> tc_calls (undone_state pf u) = [Past, Past] \<and>
    \<not> lc_shutdown (tc_life (undone_state pf u)) \<and> lc_pf (tc_life (undone_state pf u)) = pf \<and>
    0 < lc_stopping (tc_life (undone_state pf u))"
  by (simp add: undone_state_def undone_schedule_def run_accesses assms)

theorem stop_during_start_is_undone:
  assumes "selected_profile pf = Some sp"
  shows "\<exists>es m. creach (idle_calls pf u) es m \<and> count_list es CallStart = 1 \<and> last (filter (\<lambda>e. e \<in> {CallStart, CallStop}) es) = CallStop \<and>
     set (tc_calls m) = {Past} \<and> looping (tc_life m) 1 \<and> \<not> lp_cancelled (lc_loops (tc_life m) ! 1) \<and> lc_running (tc_life m)"
proof -
  let ?m = "undone_state pf u"
  note u = undone_state [OF assms, of u]
  let ?x = "loop_exit 0 (tc_life ?m)"
  let ?m1 = "?m\<lparr>tc_life := ?x\<rparr>"
  let ?m2 = "restart_check 0 ?m1"
  let ?m3 = "fold access_at (replicate 9 2) ?m2"
  let ?e1 = "[CallStart, CallStop] @ map (\<lambda>i. Access i None) undone_schedule"
  have "creach (idle_calls pf u) ?e1 ?m"
    unfolding undone_state_def by (rule creach_accesses [OF idle_two_calls]) (simp_all add: undone_schedule_def)
  then have "creach (idle_calls pf u) (?e1 @ [Other (LoopReturns 0)]) ?m1"
    by (rule creach_snoc) (use u in \<open>auto intro!: cstep.other lstep.loop_returns simp: looping_def\<close>)
  then have "creach (idle_calls pf u) ((?e1 @ [Other (LoopReturns 0)]) @ [RestartCheck 0]) ?m2"
    by (rule creach_snoc) (use u in \<open>auto intro!: cstep.restart_check simp: loop_exit_def set_loop_def\<close>)
  then have r: "creach (idle_calls pf u)
      (((?e1 @ [Other (LoopReturns 0)]) @ [RestartCheck 0]) @ map (\<lambda>i. Access i None) (replicate 9 2)) ?m3"
    by (rule creach_accesses) (use u in \<open>simp add: restart_check_def loop_exit_def set_loop_def list_all_iff\<close>)
  have c: "tc_calls ?m2 = [Past, Past, StartTest]" "lc_running (tc_life ?m2) = False" "lc_pf (tc_life ?m2) = pf"
    "length (lc_loops (tc_life ?m2)) = 1" "lc_shutdown (tc_life ?m2) = False"
    using u by (simp_all add: restart_check_def loop_exit_def set_loop_def)
  have f: "set (tc_calls ?m3) = {Past} \<and> looping (tc_life ?m3) 1 \<and> \<not> lp_cancelled (lc_loops (tc_life ?m3) ! 1) \<and>
      lc_running (tc_life ?m3)"
    using c assms by (simp add: numeral_eq_Suc access_at_def start_accesses looping_def nth_append)
  show ?thesis
    by (rule exI, rule exI, rule conjI [OF r]) (use f in \<open>simp add: undone_schedule_def numeral_eq_Suc\<close>)
qed

section \<open>Overlapping starts\<close>










section \<open>Instances\<close>

lemma sample_running_calls:
  "sreach (idle_calls sample_store blank_ui) (CallStart # replicate 9 (Access 0 None))
     \<lparr>tc_life = sample_started, tc_calls = [Past]\<rparr>"
proof -
  let ?m = "\<lparr>tc_life = idle_lifecycle sample_store blank_ui, tc_calls = [StartTest]\<rparr>"
  have l: "length (tc_calls ((access_at 0 ^^ n) m)) = length (tc_calls m)" for m n
    by (induction n) simp_all
  have one: "sreach (idle_calls sample_store blank_ui) (CallStart # replicate n (Access 0 None)) ((access_at 0 ^^ n) ?m)" for n
  proof (induction n)
    case 0
    have "cstep (idle_calls sample_store blank_ui) CallStart ?m"
      using cstep.call_start [of "idle_calls sample_store blank_ui"] by (simp add: idle_calls_def)
    from sreach.step [OF sreach.start this] show ?case by (simp add: one_call_def)
  next
    case (Suc n)
    let ?n = "(access_at 0 ^^ n) ?m"
    have "cstep ?n (Access 0 None) (access_at 0 ?n)"
      by (rule cstep_access_at) (use l [of n ?m] in simp)
    moreover have "one_call (access_at 0 ?n)" using l [of n ?m] by (simp add: one_call_def)
    ultimately have "sreach (idle_calls sample_store blank_ui) ((CallStart # replicate n (Access 0 None)) @ [Access 0 None])
        (access_at 0 ?n)" by (rule sreach.step [OF Suc.IH])
    then show ?case by (simp add: replicate_append_same)
  qed
  have a: "(access_at 0 ^^ n) \<lparr>tc_life = s, tc_calls = [c]\<rparr> =
      \<lparr>tc_life = snd (alone None n (c, s)), tc_calls = [fst (alone None n (c, s))]\<rparr>" for n c s
  proof (induction n)
    case (Suc n)
    show ?case unfolding funpow.simps comp_def Suc.IH
      by (simp add: access_at_def alone_def split: prod.split)
  qed simp
  show ?thesis using one [of 9] unfolding a start_alone by (simp add: sample_started_def)
qed

theorem one_tunnel_at_a_time_witness:
  "(\<exists>d. Waiting d \<in> lp_phase ` set (lc_loops sample_started)) = False \<and> looping sample_started 0 \<and>
   {i. looping sample_started i} \<subseteq> {0}"
proof -
  from one_tunnel_at_a_time [OF sample_running_calls]
  have o: "{i. looping sample_started i} \<subseteq> (case lc_current sample_started of None \<Rightarrow> {} | Some i \<Rightarrow> {i})"
    "(\<exists>d. Waiting d \<in> lp_phase ` set (lc_loops sample_started)) = False" by simp_all
  from o(1) sample_looping(1) have "{i. looping sample_started i} \<subseteq> {0}"
    by (cases "lc_current sample_started") auto
  then show ?thesis using o(2) sample_looping(1) by blast
qed


end
