(* ===== verification/EventBus.thy ===== *)
theory EventBus
  imports GoPrelude
begin

text \<open>
  Change notification of \<open>State\<close> (\<open>cmd/sshcustomd/main.go\<close>): \<open>set\<close> mutates under the lock, releases it and broadcasts, a
  subscriber has a channel that holds at most one notification, and reads the whole state when it
  receives it. The state is counted by its version: \<open>set\<close> makes a new one. The handler of
  \<open>/api/v1/events\<close> sends a snapshot, subscribes, and sends one more for each notification.
\<close>

section \<open>Subscriptions\<close>

record subscriber =
  sb_id :: nat
  sb_pending :: bool
  sb_reading :: bool
  sb_seen :: nat
  sb_base :: nat

text \<open>\<open>sb_seen\<close> is the version the subscriber has last read, \<open>sb_base\<close> the one that was current when it subscribed. \<open>bu_owed\<close> counts the \<open>set\<close> calls that have released the lock and not yet broadcast.\<close>

record bus =
  bu_version :: nat
  bu_owed :: nat
  bu_subs :: "subscriber list"
  bu_next :: nat

text \<open>The two critical sections of \<open>set\<close>: the mutation, and \<open>broadcast\<close>, a send that skips full channels.\<close>

definition mutate :: "bus \<Rightarrow> bus" where
  "mutate b = b\<lparr>bu_version := Suc (bu_version b), bu_owed := Suc (bu_owed b)\<rparr>"

definition broadcast :: "bus \<Rightarrow> bus" where
  "broadcast b = b\<lparr>bu_subs := map (\<lambda>s. s\<lparr>sb_pending := True\<rparr>) (bu_subs b)\<rparr>"

definition set_done :: "bus \<Rightarrow> bus" where
  "set_done b = (if bu_owed b = 0 then b else broadcast (b\<lparr>bu_owed := bu_owed b - 1\<rparr>))"

text \<open>\<open>Subscribe\<close>; \<open>seen\<close> is the version its caller has read before, whichever that is: the event handler has sent a
  snapshot, the monitor of the module property has read nothing. Neither reads the state on subscribing.\<close>

definition subscribe :: "nat \<Rightarrow> bus \<Rightarrow> bus" where
  "subscribe seen b =
     b\<lparr>bu_subs := bu_subs b @ [\<lparr>sb_id = bu_next b, sb_pending = False, sb_reading = False, sb_seen = seen, sb_base = bu_version b\<rparr>],
       bu_next := Suc (bu_next b)\<rparr>"

text \<open>The cleanup function: removes the first entry with this channel.\<close>

fun remove_sub :: "nat \<Rightarrow> subscriber list \<Rightarrow> subscriber list" where
  "remove_sub i [] = []"
| "remove_sub i (s # ss) = (if sb_id s = i then ss else s # remove_sub i ss)"

definition unsubscribe :: "nat \<Rightarrow> bus \<Rightarrow> bus" where
  "unsubscribe i b = b\<lparr>bu_subs := remove_sub i (bu_subs b)\<rparr>"

text \<open>A subscriber that is woken by its notification, and then reads the state.\<close>

definition wake :: "nat \<Rightarrow> bus \<Rightarrow> bus" where
  "wake i b =
     b\<lparr>bu_subs := map (\<lambda>s. if sb_id s = i \<and> sb_pending s then s\<lparr>sb_pending := False, sb_reading := True\<rparr> else s)
        (bu_subs b)\<rparr>"

definition read_state :: "nat \<Rightarrow> bus \<Rightarrow> bus" where
  "read_state i b =
     b\<lparr>bu_subs := map (\<lambda>s. if sb_id s = i \<and> sb_reading s then s\<lparr>sb_reading := False, sb_seen := bu_version b\<rparr> else s)
        (bu_subs b)\<rparr>"

datatype bus_op = Mutate | SetDone | Subscribe nat | Unsubscribe nat | Wake nat | ReadState nat

fun bus_step :: "bus \<Rightarrow> bus_op \<Rightarrow> bus" where
  "bus_step b Mutate = mutate b"
| "bus_step b SetDone = set_done b"
| "bus_step b (Subscribe v) = subscribe v b"
| "bus_step b (Unsubscribe i) = unsubscribe i b"
| "bus_step b (Wake i) = wake i b"
| "bus_step b (ReadState i) = read_state i b"

definition bus_start :: bus where
  "bus_start = \<lparr>bu_version = 0, bu_owed = 0, bu_subs = [], bu_next = 0\<rparr>"

section \<open>No change is missed\<close>

definition informed :: "bus \<Rightarrow> subscriber \<Rightarrow> bool" where
  "informed b s = (sb_pending s \<or> sb_reading s \<or> sb_seen s = bu_version b \<or> sb_base s = bu_version b \<or> 0 < bu_owed b)"

definition up_to_date :: "bus \<Rightarrow> bool" where
  "up_to_date b = list_all (informed b) (bu_subs b)"

lemma remove_sub_subset: "set (remove_sub i ss) \<subseteq> set ss"
  by (induction ss) auto

lemmas bus_defs = mutate_def set_done_def broadcast_def subscribe_def unsubscribe_def wake_def read_state_def

lemma bus_step_up_to_date: "up_to_date b \<Longrightarrow> up_to_date (bus_step b op)"
  by (cases op) (auto simp: up_to_date_def informed_def bus_defs list_all_iff
      dest: remove_sub_subset [THEN subsetD])

interpretation bus: step_invariant bus_step up_to_date "\<lambda>_ _. True"
  by unfold_locales (rule bus_step_up_to_date)

lemma bus_start_ok: "up_to_date bus_start"
  by (simp add: up_to_date_def bus_start_def)

text \<open>At most one notification waits for a subscriber: a broadcast after a broadcast changes nothing.\<close>

lemma broadcast_idem: "broadcast (broadcast b) = broadcast b"
  by (simp add: broadcast_def)

text \<open>C38: however the mutations, their broadcasts, subscriptions, wake-ups and
  reads are interleaved, and although notifications coalesce, whenever no broadcast is owed, a subscriber with no
  notification waiting and no read under way has read the state as it is now, unless nothing has changed since it
  subscribed. So every change after the subscription reaches it, whatever it had read before (a
  change between that read and the subscription need not: \<open>event_stream_can_be_stale\<close>).\<close>

theorem subscribers_miss_nothing:
  assumes "bu_owed (run bus_step bus_start ops) = 0" "s \<in> set (bu_subs (run bus_step bus_start ops))"
    and "\<not> sb_pending s" "\<not> sb_reading s"
  shows "sb_seen s = bu_version (run bus_step bus_start ops) \<or> sb_base s = bu_version (run bus_step bus_start ops)"
  using bus.run_inv_every [OF bus_start_ok, of ops] assms
  by (auto simp: up_to_date_def informed_def list_all_iff)

theorem subscribers_miss_nothing_witness:
  "\<exists>s. s \<in> set (bu_subs (run bus_step bus_start [Subscribe 0, Mutate, SetDone, Wake 0, Mutate, SetDone, ReadState 0, Wake 0, ReadState 0])) \<and>
     sb_seen s = 2"
proof -
  let ?ops = "[Subscribe 0, Mutate, SetDone, Wake 0, Mutate, SetDone, ReadState 0, Wake 0, ReadState 0]"
  let ?s = "\<lparr>sb_id = 0, sb_pending = False, sb_reading = False, sb_seen = 2, sb_base = 0\<rparr>"
  have b: "bu_subs (run bus_step bus_start ?ops) = [?s]" "bu_owed (run bus_step bus_start ?ops) = 0"
      "bu_version (run bus_step bus_start ?ops) = 2"
    by (simp_all add: bus_start_def bus_defs)
  have "sb_seen ?s = bu_version (run bus_step bus_start ?ops) \<or> sb_base ?s = bu_version (run bus_step bus_start ?ops)"
    by (rule subscribers_miss_nothing [OF b(2)]) (simp_all only: b, simp_all)
  with b show ?thesis by simp
qed

text \<open>The event handler reads the state before it subscribes: a change in between reaches it only with
  the next one.\<close>

lemma event_stream_can_be_stale:
  "\<exists>s. let b = run bus_step bus_start [Mutate, SetDone, Subscribe 0] in
     s \<in> set (bu_subs b) \<and> bu_owed b = 0 \<and> \<not> sb_pending s \<and> \<not> sb_reading s \<and> sb_seen s \<noteq> bu_version b"
  by (simp add: bus_start_def bus_defs)


section \<open>The event stream\<close>

text \<open>What the handler of \<open>/api/v1/events\<close> answers to its \<open>select\<close>: the end of the request, a notification with
  the status it then reads, the heartbeat. \<open>ok n\<close> tells whether the write number \<open>n\<close> succeeds.\<close>

datatype 'j stream_event = StreamDone | Notified 'j | Heartbeat

datatype 'j chunk = StatusEvent 'j | Ping

fun stream_loop :: "(nat \<Rightarrow> bool) \<Rightarrow> nat \<Rightarrow> 'j stream_event list \<Rightarrow> 'j chunk list" where
  "stream_loop ok n [] = []"
| "stream_loop ok n (StreamDone # es) = []"
| "stream_loop ok n (Notified j # es) = (if ok n then StatusEvent j # stream_loop ok (Suc n) es else [])"
| "stream_loop ok n (Heartbeat # es) = (if ok n then Ping # stream_loop ok (Suc n) es else [])"

definition event_stream :: "(nat \<Rightarrow> bool) \<Rightarrow> 'j \<Rightarrow> 'j stream_event list \<Rightarrow> 'j chunk list" where
  "event_stream ok first es = (if ok 0 then StatusEvent first # stream_loop ok 1 es else [])"

text \<open>The stream ends with the first failed write: every chunk that was sent was written.\<close>

lemma stream_loop_ok: "k < length (stream_loop ok n es) \<Longrightarrow> ok (n + k)"
  by (induction ok n es arbitrary: k rule: stream_loop.induct) (auto simp: less_Suc_eq_0_disj split: if_splits)

lemma event_stream_ok: "k < length (event_stream ok first es) \<Longrightarrow> ok k"
  using stream_loop_ok [of "k - 1" ok 1 es] by (cases k) (auto simp: event_stream_def split: if_splits)

end
