(* ===== verification/TunnelSpec.thy ===== *)
theory TunnelSpec
  imports Tunnel
begin

text \<open>
  What the connection manager promises to the device, as an automaton, and the proof that \<open>tunnelLoop\<close>
  (\<open>Tunnel\<close>) implements it: traffic goes nowhere special before the first connect, through the tunnel
  while a client is published, and is held (listeners started, no client, nothing leaks) while the loop
  reconnects; it is never let out again before the loop has been stopped. When \<open>stopTunnel\<close> has taken the client
  back and the loop still serves it, the tunnel drains: no new stream is opened.
\<close>

section \<open>The promise\<close>

datatype promise = Idle | Online | Draining | Held | Stopped

datatype label = Wait | Connect | Stay | Lose | Stop | Clear | Report

fun promised :: "promise \<Rightarrow> label \<Rightarrow> promise option" where
  "promised Idle Wait = Some Idle"
| "promised Idle Connect = Some Online"
| "promised Online Stay = Some Online"
| "promised Online Lose = Some Held"
| "promised Held Wait = Some Held"
| "promised Held Connect = Some Online"
| "promised Draining Stay = Some Draining"
| "promised Draining Lose = Some Held"
| "promised Online Clear = Some Draining"
| "promised s Clear = Some s"
| "promised s Report = Some s"
| "promised Stopped l = None"
| "promised s Stop = Some Stopped"
| "promised s l = None"

fun promised_run :: "promise \<Rightarrow> label list \<Rightarrow> promise option" where
  "promised_run s [] = Some s"
| "promised_run s (l # ls) = (case promised s l of None \<Rightarrow> None | Some s' \<Rightarrow> promised_run s' ls)"

lemma promised_run_append:
  "promised_run s (ls @ ks) = (case promised_run s ls of None \<Rightarrow> None | Some s' \<Rightarrow> promised_run s' ks)"
  by (induction ls arbitrary: s) (auto split: option.split)

section \<open>The loop as seen through it\<close>

definition service_of :: "'k tstate \<Rightarrow> promise" where
  "service_of t =
     (if t_phase t = Exited then Stopped else if t_client t \<noteq> None then Online
      else if t_phase t = Serving then Draining
      else if t_listener t then Held else Idle)"

definition label_of :: "tevent \<Rightarrow> label" where
  "label_of e =
     (case e of
        Fire cfg ri auth \<Rightarrow> (if ri_online ri \<and> snd auth = None then Connect else Wait)
      | Died err \<Rightarrow> Lose
      | Tick cfg ri streams errors \<Rightarrow> (if 5 \<le> errors then Lose else Stay)
      | Cancelled cfg \<Rightarrow> Stop
      | StopClears \<Rightarrow> Clear
      | _ \<Rightarrow> Report)"

lemma outside_promised:
  assumes "tstep exec t e t'" "outside e" "tunnel_inv t"
  shows "promised (service_of t) (label_of e) = Some (service_of t')"
proof (cases "e = StopClears")
  case True
  with assms(1) have "t' = stop_clears t" by (auto elim: tstep.cases)
  then show ?thesis using True assms(3)
    by (cases "service_of t") (auto simp: tunnel_inv_def service_of_def label_of_def stop_clears_def split: if_splits)
next
  case False
  have "service_of t' = service_of t"
    using outside_frame [OF assms(1,2)] outside_client [OF assms(1,2) False] by (simp add: service_of_def own_parts_def)
  moreover have "label_of e = Report" using assms(2) False by (simp add: outside_def label_of_def split: tevent.splits)
  ultimately show ?thesis by (cases "service_of t") simp_all
qed

lemma tstep_promised:
  assumes "tstep exec t e t'" "tunnel_inv t"
  shows "promised (service_of t) (label_of e) = Some (service_of t')"
proof (cases "outside e")
  case True
  then show ?thesis by (rule outside_promised [OF assms(1) _ assms(2)])
next
  case False
  from not_outside [OF assms(1) False] show ?thesis
  proof (elim disjE exE conjE)
    fix cfg ri auth
    assume "e = Fire cfg ri auth" "t_phase t = Delaying" "t' = fire exec cfg ri auth t"
    then show ?thesis using assms(2)
      by (auto simp: tunnel_inv_def service_of_def label_of_def fire_def Let_def frame_simps
          split: prod.splits option.splits)
  next
    fix err
    assume "e = Died err" "t_phase t = Serving" "t' = lost err t"
    then show ?thesis using assms(2) by (auto simp: tunnel_inv_def service_of_def label_of_def lost_def Let_def)
  next
    fix cfg ri n m
    assume "e = Tick cfg ri n m" "t_phase t = Serving" "t' = tick cfg ri n m t"
    then show ?thesis using assms(2)
      by (auto simp: tunnel_inv_def service_of_def label_of_def tick_def lost_def Let_def)
  next
    fix cfg
    assume "e = Cancelled cfg" "t_phase t \<noteq> Exited" "t' = cancel exec cfg t"
    then show ?thesis
      by (cases "service_of t") (auto simp: service_of_def label_of_def cancel_def teardown_def split: if_splits)
  qed
qed

lemma treach_promised:
  "treach exec t0 es t \<Longrightarrow> tunnel_inv t0 \<Longrightarrow> promised_run (service_of t0) (map label_of es) = Some (service_of t)"
proof (induction rule: treach.induct)
  case start
  show ?case by simp
next
  case (step es t e t')
  then show ?case
    using tstep_promised [OF step.hyps(2) treach_inv [OF step.hyps(1)]] by (simp add: promised_run_append)
qed

text \<open>C4: every run of \<open>tunnelLoop\<close>, whatever its timers, the network, the SSH handshake and
  the firewall commands do, and whatever \<open>stopTunnel\<close>, the shutdown and the listeners write meanwhile, is a run of
  the automaton: the state it has reached abstracts to the one the automaton reaches over the labels of the
  events.\<close>

theorem tunnel_refines_service:
  assumes "flags_are False s" "treach exec (tunnel_start s net) es t"
  shows "promised_run Idle (map label_of es) = Some (service_of t)"
  using treach_promised [OF assms(2) tunnel_start_inv [OF assms(1)]]
  by (simp add: service_of_def tunnel_start_def)

theorem tunnel_refines_service_witness:
  "\<exists>t. treach (sim_exec (\<lambda>_. True)) (tunnel_start blank_status bare_state) sample_events t \<and>
     map label_of sample_events = [Connect, Lose, Wait, Stop] \<and> service_of t = Stopped"
proof -
  obtain t where t: "treach (sim_exec (\<lambda>_. True)) (tunnel_start blank_status bare_state) sample_events t"
    using sample_run by blast
  have l: "map label_of sample_events = [Connect, Lose, Wait, Stop]"
    by (simp add: sample_events_def label_of_def blank_route_def)
  have "service_of t = Stopped" using tunnel_refines_service [OF blank_flags t] unfolding l by simp
  show ?thesis by (rule exI, rule conjI [OF t conjI [OF l \<open>service_of t = Stopped\<close>]])
qed

text \<open>Once online, the automaton never returns to its idle state, so neither does the loop.\<close>

lemma promised_never_idle: "promised_run s ls = Some Idle \<Longrightarrow> s = Idle \<and> set ls \<subseteq> {Wait, Clear, Report}"
proof (induction ls arbitrary: s)
  case (Cons l ls)
  then obtain s' where s': "promised s l = Some s'" "promised_run s' ls = Some Idle"
    by (auto split: option.splits)
  with Cons.IH have "s' = Idle" "set ls \<subseteq> {Wait, Clear, Report}" by blast+
  with s' show ?case by (cases s; cases l) auto
qed simp

lemma never_idle_after_connect:
  assumes "flags_are False s" "treach exec (tunnel_start s net) es t" "Connect \<in> set (map label_of es)"
  shows "service_of t \<noteq> Idle"
proof
  assume "service_of t = Idle"
  with treach_promised [OF assms(2) tunnel_start_inv [OF assms(1)]]
  have "promised_run Idle (map label_of es) = Some Idle" by (simp add: service_of_def tunnel_start_def)
  then have "set (map label_of es) \<subseteq> {Wait, Clear, Report}" using promised_never_idle by blast
  with assms(3) show False by auto
qed

end
