(* ===== verification/Json.thy ===== *)
theory Json
  imports Complex_Main GoStrings "HOL-Library.Monad_Syntax"
begin

text \<open>
  The values of \<open>encoding/json\<close> as the daemon uses it: the tree a document stands for, and the rules by
  which \<open>Decode\<close> fills a Go struct from it and \<open>Marshal\<close> writes one. The syntax of the text is not
  modelled. A decoder returns \<open>None\<close> where Go reports a mismatch of types; the callers never use
  the partly filled value. Keys match without regard to case, the last of several equal keys counts
  (Go would merge objects there), \<open>null\<close> leaves a field at its zero value, and unknown keys are
  skipped. A Go slice that is \<open>nil\<close> and one that is empty are the same list here, written as \<open>[]\<close>.
\<close>

section \<open>Documents\<close>

datatype json =
    JNull
  | JBool bool
  | JNum int
  | JFloat rat
  | JStr string
  | JArr "json list"
  | JObj "(string \<times> json) list"

text \<open>The members of an object by their folded key; a struct is also decoded from \<open>null\<close>.\<close>

definition members :: "json \<Rightarrow> (string \<Rightarrow> json option) option" where
  "members j =
     (case j of
        JNull \<Rightarrow> Some (\<lambda>_. None)
      | JObj kvs \<Rightarrow> Some (map_of (rev (map (\<lambda>(k, v). (to_lower k, v)) kvs)))
      | _ \<Rightarrow> None)"

definition field :: "(string \<Rightarrow> json option) \<Rightarrow> string \<Rightarrow> (json \<Rightarrow> 'a option) \<Rightarrow> 'a \<Rightarrow> 'a option" where
  "field m k d zero =
     (case m k of None \<Rightarrow> Some zero | Some j \<Rightarrow> (if j = JNull then Some zero else d j))"

section \<open>Decoders of the basic types\<close>

definition int64 :: "int \<Rightarrow> bool" where
  "int64 n = (- (2 ^ 63) \<le> n \<and> n < 2 ^ 63)"

definition dec_str :: "json \<Rightarrow> string option" where
  "dec_str j = (case j of JStr s \<Rightarrow> Some s | _ \<Rightarrow> None)"

definition dec_bool :: "json \<Rightarrow> bool option" where
  "dec_bool j = (case j of JBool b \<Rightarrow> Some b | _ \<Rightarrow> None)"

definition dec_int :: "json \<Rightarrow> int option" where
  "dec_int j = (case j of JNum n \<Rightarrow> if int64 n then Some n else None | _ \<Rightarrow> None)"

definition dec_list :: "(json \<Rightarrow> 'a option) \<Rightarrow> 'a \<Rightarrow> json \<Rightarrow> 'a list option" where
  "dec_list d zero j =
     (case j of JArr xs \<Rightarrow> those (map (\<lambda>x. if x = JNull then Some zero else d x) xs) | _ \<Rightarrow> None)"

text \<open>A pointer to a struct or to a basic type.\<close>

definition dec_ptr :: "(json \<Rightarrow> 'a option) \<Rightarrow> json \<Rightarrow> 'a option option" where
  "dec_ptr d j = map_option Some (d j)"

text \<open>Decoding a body: the error is that of the syntax, or \<open>mismatch\<close> for a member of the wrong type.\<close>

definition unmarshal :: "('d \<Rightarrow> json result) \<Rightarrow> string \<Rightarrow> (json \<Rightarrow> 'a option) \<Rightarrow> 'd \<Rightarrow> 'a result" where
  "unmarshal syntax mismatch dec body =
     (case syntax body of
        Inl e \<Rightarrow> Err e
      | Inr j \<Rightarrow> (case dec j of None \<Rightarrow> Err mismatch | Some x \<Rightarrow> Ok x))"

section \<open>Encoders\<close>

definition enc_strs :: "string list \<Rightarrow> json" where
  "enc_strs xs = JArr (map JStr xs)"

text \<open>A member with \<open>omitempty\<close>.\<close>

definition member_unless :: "bool \<Rightarrow> string \<Rightarrow> json \<Rightarrow> (string \<times> json) list" where
  "member_unless gone k v = (if gone then [] else [(k, v)])"

definition member_opt :: "string \<Rightarrow> ('a \<Rightarrow> json) \<Rightarrow> 'a option \<Rightarrow> (string \<times> json) list" where
  "member_opt k enc x = (case x of None \<Rightarrow> [] | Some v \<Rightarrow> [(k, enc v)])"

section \<open>What was written is read back\<close>

lemma dec_str_simp [simp]: "dec_str (JStr s) = Some s"
  and dec_bool_simp [simp]: "dec_bool (JBool b) = Some b"
  and dec_int_simp [simp]: "int64 n \<Longrightarrow> dec_int (JNum n) = Some n"
  by (simp_all add: dec_str_def dec_bool_def dec_int_def)

lemma those_map_Some: "list_all (\<lambda>x. f x = Some (g x)) xs \<Longrightarrow> those (map f xs) = Some (map g xs)"
  by (induction xs) auto

lemma dec_list_map:
  assumes "list_all (\<lambda>x. enc x \<noteq> JNull \<and> d (enc x) = Some x) xs"
  shows "dec_list d zero (JArr (map enc xs)) = Some xs"
proof -
  have "those (map ((\<lambda>x. if x = JNull then Some zero else d x) \<circ> enc) xs) = Some (map id xs)"
    by (rule those_map_Some) (use assms in \<open>auto simp: list_all_iff\<close>)
  then show ?thesis by (simp add: dec_list_def)
qed

lemma dec_strs [simp]: "dec_list dec_str z (enc_strs xs) = Some xs"
  unfolding enc_strs_def by (rule dec_list_map) (simp add: list_all_iff)

lemma dec_ints [simp]: "list_all int64 ns \<Longrightarrow> dec_list dec_int z (JArr (map JNum ns)) = Some ns"
  by (rule dec_list_map) (simp add: list_all_iff)

lemma enc_strs_not_null [simp]: "enc_strs xs \<noteq> JNull"
  by (simp add: enc_strs_def)

lemma field_present [simp]: "m k = Some j \<Longrightarrow> j \<noteq> JNull \<Longrightarrow> field m k d z = d j"
  and field_absent [simp]: "m k = None \<Longrightarrow> field m k d z = Some z"
  by (simp_all add: field_def)

text \<open>The folded keys of an encoded object, computed once.\<close>

definition keys_folded :: "string list \<Rightarrow> bool" where
  "keys_folded ks = (list_all (\<lambda>k. to_lower k = k) ks \<and> distinct ks)"

lemma members_folded:
  assumes "keys_folded (map fst kvs)"
  shows "members (JObj kvs) = Some (map_of kvs)"
proof -
  have f: "map (\<lambda>(k, v). (to_lower k, v)) kvs = kvs"
    using assms by (intro map_idI) (auto simp: keys_folded_def list_all_iff)
  have "map_of (rev kvs) = map_of kvs"
    using assms by (subst map_of_inject_set) (auto simp: keys_folded_def rev_map [symmetric])
  with f show ?thesis by (simp add: members_def)
qed

lemma subseq_set_distinct: "subseq ls ks \<Longrightarrow> set ls \<subseteq> set ks \<and> (distinct ks \<longrightarrow> distinct ls)"
  by (induction rule: list_emb.induct) auto

lemma keys_folded_subseq: "keys_folded ks \<Longrightarrow> subseq ls ks \<Longrightarrow> keys_folded ls"
  using subseq_set_distinct [of ls ks] by (auto simp: keys_folded_def list_all_iff)

lemma members_null [simp]: "members JNull = Some (\<lambda>_. None)"
  by (simp add: members_def)

end
