(* ===== verification/Codec.thy ===== *)
theory Codec
  imports Json DaemonConfig
begin

text \<open>
  The JSON form of the daemon's files and requests: the struct tags of \<open>Config\<close> and \<open>ProfilesFile\<close>
  (\<open>cmd/sshcustomd/main.go\<close>) and of the request types (there and in \<open>internal/apiv1/contracts.go\<close>), as encoders
  and decoders of the records of \<open>DaemonConfig\<close> and \<open>Profiles\<close>.
\<close>

section \<open>config.json\<close>

definition enc_module :: "module_cfg \<Rightarrow> json" where
  "enc_module c = JObj [(''name'', JStr (mo_name c)), (''work_dir'', JStr (mo_work_dir c)),
     (''log_dir'', JStr (mo_log_dir c)), (''manual_start'', JBool (mo_manual_start c))]"

definition dec_module :: "json \<Rightarrow> module_cfg option" where
  "dec_module j = do {
     m \<leftarrow> members j;
     n \<leftarrow> field m ''name'' dec_str [];
     w \<leftarrow> field m ''work_dir'' dec_str [];
     l \<leftarrow> field m ''log_dir'' dec_str [];
     b \<leftarrow> field m ''manual_start'' dec_bool False;
     Some \<lparr>mo_name = n, mo_work_dir = w, mo_log_dir = l, mo_manual_start = b\<rparr> }"

definition enc_api :: "api_cfg \<Rightarrow> json" where
  "enc_api c = JObj [(''enabled'', JBool (api_enabled c)), (''host'', JStr (api_host c)), (''port'', JNum (api_port c))]"

definition dec_api :: "json \<Rightarrow> api_cfg option" where
  "dec_api j = do {
     m \<leftarrow> members j;
     e \<leftarrow> field m ''enabled'' dec_bool False;
     h \<leftarrow> field m ''host'' dec_str [];
     p \<leftarrow> field m ''port'' dec_int 0;
     Some \<lparr>api_enabled = e, api_host = h, api_port = p\<rparr> }"

definition enc_dns :: "dns_cfg \<Rightarrow> json" where
  "enc_dns c = JObj [(''enabled'', JBool (dns_enabled c)), (''mode'', JStr (dns_mode c)), (''hijack'', JBool (dns_hijack c)),
     (''doh'', JBool (dns_doh c)), (''servers'', enc_strs (dns_servers c)), (''timeout_seconds'', JNum (dns_timeout c)),
     (''note'', JStr (dns_note c))]"

definition dec_dns :: "json \<Rightarrow> dns_cfg option" where
  "dec_dns j = do {
     m \<leftarrow> members j;
     e \<leftarrow> field m ''enabled'' dec_bool False;
     md \<leftarrow> field m ''mode'' dec_str [];
     h \<leftarrow> field m ''hijack'' dec_bool False;
     d \<leftarrow> field m ''doh'' dec_bool False;
     s \<leftarrow> field m ''servers'' (dec_list dec_str []) [];
     t \<leftarrow> field m ''timeout_seconds'' dec_int 0;
     n \<leftarrow> field m ''note'' dec_str [];
     Some \<lparr>dns_enabled = e, dns_mode = md, dns_hijack = h, dns_doh = d, dns_servers = s, dns_timeout = t, dns_note = n\<rparr> }"

definition enc_transport :: "transport_cfg \<Rightarrow> json" where
  "enc_transport c = JObj [(''supported_modes'', enc_strs (tr_modes c)), (''payload_is_core_feature'', JBool (tr_payload_core c))]"

definition dec_transport :: "json \<Rightarrow> transport_cfg option" where
  "dec_transport j = do {
     m \<leftarrow> members j;
     s \<leftarrow> field m ''supported_modes'' (dec_list dec_str []) [];
     p \<leftarrow> field m ''payload_is_core_feature'' dec_bool False;
     Some \<lparr>tr_modes = s, tr_payload_core = p\<rparr> }"

definition enc_local :: "local_proxy_cfg \<Rightarrow> json" where
  "enc_local c = JObj [(''socks_enabled'', JBool (lp_enabled c)), (''socks_host'', JStr (lp_host c)), (''socks_port'', JNum (lp_port c))]"

definition dec_local :: "json \<Rightarrow> local_proxy_cfg option" where
  "dec_local j = do {
     m \<leftarrow> members j;
     e \<leftarrow> field m ''socks_enabled'' dec_bool False;
     h \<leftarrow> field m ''socks_host'' dec_str [];
     p \<leftarrow> field m ''socks_port'' dec_int 0;
     Some \<lparr>lp_enabled = e, lp_host = h, lp_port = p\<rparr> }"

definition enc_tproxy :: "tproxy_cfg \<Rightarrow> json" where
  "enc_tproxy c = JObj [(''enabled'', JBool (tp_enabled c)), (''tcp_port'', JNum (tp_port c)), (''chains_prefix'', JStr (tp_prefix c)),
     (''apply_after_ssh_connected'', JBool (tp_apply_after c))]"

definition dec_tproxy :: "json \<Rightarrow> tproxy_cfg option" where
  "dec_tproxy j = do {
     m \<leftarrow> members j;
     e \<leftarrow> field m ''enabled'' dec_bool False;
     p \<leftarrow> field m ''tcp_port'' dec_int 0;
     x \<leftarrow> field m ''chains_prefix'' dec_str [];
     a \<leftarrow> field m ''apply_after_ssh_connected'' dec_bool False;
     Some \<lparr>tp_enabled = e, tp_port = p, tp_prefix = x, tp_apply_after = a\<rparr> }"

definition enc_hotspot :: "hotspot_cfg \<Rightarrow> json" where
  "enc_hotspot c = JObj [(''enabled'', JBool (hs_enabled c)), (''tcp'', JBool (hs_tcp c)), (''dns'', JBool (hs_dns c)),
     (''interfaces'', enc_strs (hs_ifaces c))]"

definition dec_hotspot :: "json \<Rightarrow> hotspot_cfg option" where
  "dec_hotspot j = do {
     m \<leftarrow> members j;
     e \<leftarrow> field m ''enabled'' dec_bool False;
     t \<leftarrow> field m ''tcp'' dec_bool False;
     d \<leftarrow> field m ''dns'' dec_bool False;
     i \<leftarrow> field m ''interfaces'' (dec_list dec_str []) [];
     Some \<lparr>hs_enabled = e, hs_tcp = t, hs_dns = d, hs_ifaces = i\<rparr> }"

definition enc_perf :: "perf_cfg \<Rightarrow> json" where
  "enc_perf c = JObj [(''buffer_size'', JNum (pf_buffer c)), (''connect_timeout_seconds'', JNum (pf_connect_timeout c)),
     (''keepalive_seconds'', JNum (pf_keepalive c)), (''ssh_pool_size'', JNum (pf_pool_size c)),
     (''max_streams_per_ssh'', JNum (pf_max_streams c)), (''stream_idle_timeout_seconds'', JNum (pf_idle_timeout c)),
     (''stream_acquire_timeout_seconds'', JNum (pf_acquire_timeout c)), (''verbose_transparent_logs'', JBool (pf_verbose c)),
     (''retry_initial_delay_seconds'', JNum (pf_retry_initial c)), (''retry_max_delay_seconds'', JNum (pf_retry_max c)),
     (''read_probe_timeout_seconds'', JNum (pf_probe_timeout c))]"

definition dec_perf :: "json \<Rightarrow> perf_cfg option" where
  "dec_perf j = do {
     m \<leftarrow> members j;
     b \<leftarrow> field m ''buffer_size'' dec_int 0;
     ct \<leftarrow> field m ''connect_timeout_seconds'' dec_int 0;
     k \<leftarrow> field m ''keepalive_seconds'' dec_int 0;
     ps \<leftarrow> field m ''ssh_pool_size'' dec_int 0;
     ms \<leftarrow> field m ''max_streams_per_ssh'' dec_int 0;
     si \<leftarrow> field m ''stream_idle_timeout_seconds'' dec_int 0;
     sa \<leftarrow> field m ''stream_acquire_timeout_seconds'' dec_int 0;
     v \<leftarrow> field m ''verbose_transparent_logs'' dec_bool False;
     r1 \<leftarrow> field m ''retry_initial_delay_seconds'' dec_int 0;
     r2 \<leftarrow> field m ''retry_max_delay_seconds'' dec_int 0;
     pt \<leftarrow> field m ''read_probe_timeout_seconds'' dec_int 0;
     Some \<lparr>pf_buffer = b, pf_connect_timeout = ct, pf_keepalive = k, pf_pool_size = ps, pf_max_streams = ms,
           pf_idle_timeout = si, pf_acquire_timeout = sa, pf_verbose = v, pf_retry_initial = r1, pf_retry_max = r2,
           pf_probe_timeout = pt\<rparr> }"

definition enc_config :: "config \<Rightarrow> json" where
  "enc_config c = JObj [(''module'', enc_module (c_module c)), (''api'', enc_api (c_api c)), (''dns'', enc_dns (c_dns c)),
     (''transport'', enc_transport (c_transport c)), (''local_proxy'', enc_local (c_local c)),
     (''transparent_proxy'', enc_tproxy (c_tproxy c)), (''hotspot'', enc_hotspot (c_hotspot c)),
     (''performance'', enc_perf (c_perf c))]"

text \<open>The zero values of the nested structs, which are the decodings of \<open>null\<close>.\<close>

definition zero_config :: config where
  "zero_config = \<lparr>
     c_module = \<lparr>mo_name = [], mo_work_dir = [], mo_log_dir = [], mo_manual_start = False\<rparr>,
     c_api = \<lparr>api_enabled = False, api_host = [], api_port = 0\<rparr>,
     c_dns = \<lparr>dns_enabled = False, dns_mode = [], dns_hijack = False, dns_doh = False, dns_servers = [],
              dns_timeout = 0, dns_note = []\<rparr>,
     c_transport = \<lparr>tr_modes = [], tr_payload_core = False\<rparr>,
     c_local = \<lparr>lp_enabled = False, lp_host = [], lp_port = 0\<rparr>,
     c_tproxy = \<lparr>tp_enabled = False, tp_port = 0, tp_prefix = [], tp_apply_after = False\<rparr>,
     c_hotspot = \<lparr>hs_enabled = False, hs_tcp = False, hs_dns = False, hs_ifaces = []\<rparr>,
     c_perf = \<lparr>pf_buffer = 0, pf_connect_timeout = 0, pf_keepalive = 0, pf_pool_size = 0, pf_max_streams = 0,
               pf_idle_timeout = 0, pf_acquire_timeout = 0, pf_verbose = False, pf_retry_initial = 0,
               pf_retry_max = 0, pf_probe_timeout = 0\<rparr>\<rparr>"

definition dec_config :: "json \<Rightarrow> config option" where
  "dec_config j = do {
     m \<leftarrow> members j;
     md \<leftarrow> field m ''module'' dec_module (c_module zero_config);
     a \<leftarrow> field m ''api'' dec_api (c_api zero_config);
     d \<leftarrow> field m ''dns'' dec_dns (c_dns zero_config);
     t \<leftarrow> field m ''transport'' dec_transport (c_transport zero_config);
     l \<leftarrow> field m ''local_proxy'' dec_local (c_local zero_config);
     p \<leftarrow> field m ''transparent_proxy'' dec_tproxy (c_tproxy zero_config);
     h \<leftarrow> field m ''hotspot'' dec_hotspot (c_hotspot zero_config);
     f \<leftarrow> field m ''performance'' dec_perf (c_perf zero_config);
     Some \<lparr>c_module = md, c_api = a, c_dns = d, c_transport = t, c_local = l, c_tproxy = p, c_hotspot = h, c_perf = f\<rparr> }"

section \<open>profiles.json\<close>

definition enc_ssh :: "ssh_conf \<Rightarrow> json" where
  "enc_ssh c = JObj ([(''host'', JStr (ssh_host c)), (''port'', JNum (ssh_port c)), (''username'', JStr (ssh_user c))] @
     member_unless (ssh_password c = []) ''password'' (JStr (ssh_password c)) @
     [(''auth_type'', JStr (ssh_auth c))] @
     member_unless (ssh_fallback c = []) ''fallback_ips'' (enc_strs (ssh_fallback c)))"

definition zero_ssh :: ssh_conf where
  "zero_ssh = \<lparr>ssh_host = [], ssh_port = 0, ssh_user = [], ssh_password = [], ssh_auth = [], ssh_fallback = []\<rparr>"

definition dec_ssh :: "json \<Rightarrow> ssh_conf option" where
  "dec_ssh j = do {
     m \<leftarrow> members j;
     h \<leftarrow> field m ''host'' dec_str [];
     p \<leftarrow> field m ''port'' dec_int 0;
     u \<leftarrow> field m ''username'' dec_str [];
     pw \<leftarrow> field m ''password'' dec_str [];
     a \<leftarrow> field m ''auth_type'' dec_str [];
     f \<leftarrow> field m ''fallback_ips'' (dec_list dec_str []) [];
     Some \<lparr>ssh_host = h, ssh_port = p, ssh_user = u, ssh_password = pw, ssh_auth = a, ssh_fallback = f\<rparr> }"

definition enc_proxy :: "http_proxy_cfg \<Rightarrow> json" where
  "enc_proxy c = JObj ([(''host'', JStr (hp_host c)), (''port'', JNum (hp_port c)), (''connect_method'', JStr (hp_method c))] @
     member_unless (hp_fallback c = []) ''fallback_ips'' (enc_strs (hp_fallback c)))"

definition dec_proxy :: "json \<Rightarrow> http_proxy_cfg option" where
  "dec_proxy j = do {
     m \<leftarrow> members j;
     h \<leftarrow> field m ''host'' dec_str [];
     p \<leftarrow> field m ''port'' dec_int 0;
     c \<leftarrow> field m ''connect_method'' dec_str [];
     f \<leftarrow> field m ''fallback_ips'' (dec_list dec_str []) [];
     Some \<lparr>hp_host = h, hp_port = p, hp_method = c, hp_fallback = f\<rparr> }"

definition enc_tls :: "tls_cfg \<Rightarrow> json" where
  "enc_tls c = JObj [(''enabled'', JBool (tls_enabled c)), (''server_name'', JStr (tls_server_name c)),
     (''insecure_skip_verify'', JBool (tls_insecure c)), (''alpn'', enc_strs (tls_alpn c))]"

definition dec_tls :: "json \<Rightarrow> tls_cfg option" where
  "dec_tls j = do {
     m \<leftarrow> members j;
     e \<leftarrow> field m ''enabled'' dec_bool False;
     s \<leftarrow> field m ''server_name'' dec_str [];
     i \<leftarrow> field m ''insecure_skip_verify'' dec_bool False;
     a \<leftarrow> field m ''alpn'' (dec_list dec_str []) [];
     Some \<lparr>tls_enabled = e, tls_server_name = s, tls_insecure = i, tls_alpn = a\<rparr> }"

definition enc_payload :: "payload_cfg \<Rightarrow> json" where
  "enc_payload c = JObj [(''enabled'', JBool (pl_enabled c)), (''template'', JStr (pl_template c)),
     (''send_timing'', JStr (pl_timing c)), (''read_response'', JBool (pl_read c)),
     (''allow_http_status'', JArr (map JNum (pl_allow c)))]"

definition zero_payload :: payload_cfg where
  "zero_payload = \<lparr>pl_enabled = False, pl_template = [], pl_timing = [], pl_read = False, pl_allow = []\<rparr>"

definition dec_payload :: "json \<Rightarrow> payload_cfg option" where
  "dec_payload j = do {
     m \<leftarrow> members j;
     e \<leftarrow> field m ''enabled'' dec_bool False;
     t \<leftarrow> field m ''template'' dec_str [];
     s \<leftarrow> field m ''send_timing'' dec_str [];
     r \<leftarrow> field m ''read_response'' dec_bool False;
     a \<leftarrow> field m ''allow_http_status'' (dec_list dec_int 0) [];
     Some \<lparr>pl_enabled = e, pl_template = t, pl_timing = s, pl_read = r, pl_allow = a\<rparr> }"

definition enc_tconf :: "tconf \<Rightarrow> json" where
  "enc_tconf c = JObj ([(''mode'', JStr (t_mode c)), (''chain'', enc_strs (t_chain c))] @
     member_opt ''http_proxy'' enc_proxy (t_proxy c) @ member_opt ''tls'' enc_tls (t_tls c) @
     [(''payload'', enc_payload (t_payload c))])"

definition zero_tconf :: tconf where
  "zero_tconf = \<lparr>t_mode = [], t_chain = [], t_proxy = None, t_tls = None, t_payload = zero_payload\<rparr>"

definition dec_tconf :: "json \<Rightarrow> tconf option" where
  "dec_tconf j = do {
     m \<leftarrow> members j;
     md \<leftarrow> field m ''mode'' dec_str [];
     c \<leftarrow> field m ''chain'' (dec_list dec_str []) [];
     h \<leftarrow> field m ''http_proxy'' (dec_ptr dec_proxy) None;
     t \<leftarrow> field m ''tls'' (dec_ptr dec_tls) None;
     p \<leftarrow> field m ''payload'' dec_payload zero_payload;
     Some \<lparr>t_mode = md, t_chain = c, t_proxy = h, t_tls = t, t_payload = p\<rparr> }"

definition enc_profile :: "profile \<Rightarrow> json" where
  "enc_profile p = JObj ([(''id'', JStr (p_id p)), (''name'', JStr (p_name p))] @
     member_unless (\<not> p_selected p) ''selected'' (JBool (p_selected p)) @
     [(''ssh'', enc_ssh (p_ssh p)), (''transport'', enc_tconf (p_transport p))])"

definition zero_profile :: profile where
  "zero_profile = \<lparr>p_id = [], p_name = [], p_selected = False, p_ssh = zero_ssh, p_transport = zero_tconf\<rparr>"

definition dec_profile :: "json \<Rightarrow> profile option" where
  "dec_profile j = do {
     m \<leftarrow> members j;
     i \<leftarrow> field m ''id'' dec_str [];
     n \<leftarrow> field m ''name'' dec_str [];
     s \<leftarrow> field m ''selected'' dec_bool False;
     h \<leftarrow> field m ''ssh'' dec_ssh zero_ssh;
     t \<leftarrow> field m ''transport'' dec_tconf zero_tconf;
     Some \<lparr>p_id = i, p_name = n, p_selected = s, p_ssh = h, p_transport = t\<rparr> }"

definition enc_profiles :: "profiles_file \<Rightarrow> json" where
  "enc_profiles pf = JObj [(''selected_id'', JStr (pf_selected pf)), (''profiles'', JArr (map enc_profile (pf_profiles pf)))]"

definition dec_profiles :: "json \<Rightarrow> profiles_file option" where
  "dec_profiles j = do {
     m \<leftarrow> members j;
     s \<leftarrow> field m ''selected_id'' dec_str [];
     p \<leftarrow> field m ''profiles'' (dec_list dec_profile zero_profile) [];
     Some \<lparr>pf_selected = s, pf_profiles = p\<rparr> }"

section \<open>Requests\<close>

definition dec_dns_settings :: "json \<Rightarrow> dns_settings option" where
  "dec_dns_settings j = do {
     m \<leftarrow> members j;
     md \<leftarrow> field m ''mode'' dec_str [];
     s \<leftarrow> field m ''servers'' (dec_list dec_str []) [];
     t \<leftarrow> field m ''timeout_seconds'' dec_int 0;
     Some \<lparr>pd_mode = md, pd_servers = s, pd_timeout = t\<rparr> }"

definition dec_hotspot_settings :: "json \<Rightarrow> hotspot_settings option" where
  "dec_hotspot_settings j = do {
     m \<leftarrow> members j;
     e \<leftarrow> field m ''enabled'' (dec_ptr dec_bool) None;
     t \<leftarrow> field m ''tcp'' (dec_ptr dec_bool) None;
     d \<leftarrow> field m ''dns'' (dec_ptr dec_bool) None;
     i \<leftarrow> field m ''interfaces'' (dec_list dec_str []) [];
     Some \<lparr>ph_enabled = e, ph_tcp = t, ph_dns = d, ph_ifaces = i\<rparr> }"

definition dec_patch :: "json \<Rightarrow> config_patch option" where
  "dec_patch j = do {
     m \<leftarrow> members j;
     d \<leftarrow> field m ''dns'' (dec_ptr dec_dns_settings) None;
     h \<leftarrow> field m ''hotspot'' (dec_ptr dec_hotspot_settings) None;
     r \<leftarrow> field m ''restart'' dec_bool False;
     Some \<lparr>cp_dns = d, cp_hotspot = h, cp_restart = r\<rparr> }"

text \<open>The transport part of a save request.\<close>

definition dec_request_transport ::
  "json \<Rightarrow> (string \<times> http_proxy_cfg option \<times> tls_cfg option \<times> payload_cfg) option" where
  "dec_request_transport j = do {
     m \<leftarrow> members j;
     md \<leftarrow> field m ''mode'' dec_str [];
     h \<leftarrow> field m ''http_proxy'' (dec_ptr dec_proxy) None;
     t \<leftarrow> field m ''tls'' (dec_ptr dec_tls) None;
     p \<leftarrow> field m ''payload'' dec_payload zero_payload;
     Some (md, h, t, p) }"

definition dec_save_request :: "json \<Rightarrow> save_request option" where
  "dec_save_request j = do {
     m \<leftarrow> members j;
     i \<leftarrow> field m ''id'' dec_str [];
     n \<leftarrow> field m ''name'' dec_str [];
     s \<leftarrow> field m ''select'' dec_bool False;
     r \<leftarrow> field m ''restart'' dec_bool False;
     h \<leftarrow> field m ''ssh'' dec_ssh zero_ssh;
     (md, hp, t, p) \<leftarrow> field m ''transport'' dec_request_transport ([], None, None, zero_payload);
     Some \<lparr>rq_id = i, rq_name = n, rq_select = s, rq_restart = r, rq_ssh = h, rq_mode = md, rq_proxy = hp, rq_tls = t,
           rq_payload = p\<rparr> }"

definition dec_select_request :: "json \<Rightarrow> (string \<times> bool) option" where
  "dec_select_request j = do {
     m \<leftarrow> members j;
     i \<leftarrow> field m ''selected_id'' dec_str [];
     r \<leftarrow> field m ''restart'' dec_bool False;
     Some (i, r) }"

definition dec_string_request :: "string \<Rightarrow> json \<Rightarrow> string option" where
  "dec_string_request k j = do { m \<leftarrow> members j; field m k dec_str [] }"

definition dec_enabled_request :: "json \<Rightarrow> bool option" where
  "dec_enabled_request j = do { m \<leftarrow> members j; field m ''enabled'' dec_bool False }"


section \<open>What was written is read back\<close>

text \<open>The keys of each struct are lower case and distinct.\<close>

lemma module_keys: "keys_folded [''name'', ''work_dir'', ''log_dir'', ''manual_start'']"
  by code_simp

lemma api_keys: "keys_folded [''enabled'', ''host'', ''port'']"
  by code_simp

lemma dns_keys: "keys_folded [''enabled'', ''mode'', ''hijack'', ''doh'', ''servers'', ''timeout_seconds'', ''note'']"
  by code_simp

lemma transport_keys: "keys_folded [''supported_modes'', ''payload_is_core_feature'']"
  by code_simp

lemma local_keys: "keys_folded [''socks_enabled'', ''socks_host'', ''socks_port'']"
  by code_simp

lemma tproxy_keys: "keys_folded [''enabled'', ''tcp_port'', ''chains_prefix'', ''apply_after_ssh_connected'']"
  by code_simp

lemma hotspot_keys: "keys_folded [''enabled'', ''tcp'', ''dns'', ''interfaces'']"
  by code_simp

lemma perf_keys: "keys_folded [''buffer_size'', ''connect_timeout_seconds'', ''keepalive_seconds'', ''ssh_pool_size'', ''max_streams_per_ssh'', ''stream_idle_timeout_seconds'', ''stream_acquire_timeout_seconds'', ''verbose_transparent_logs'', ''retry_initial_delay_seconds'', ''retry_max_delay_seconds'', ''read_probe_timeout_seconds'']"
  by code_simp

lemma config_keys: "keys_folded [''module'', ''api'', ''dns'', ''transport'', ''local_proxy'', ''transparent_proxy'', ''hotspot'', ''performance'']"
  by code_simp

lemma tls_keys: "keys_folded [''enabled'', ''server_name'', ''insecure_skip_verify'', ''alpn'']"
  by code_simp

lemma payload_cfg_keys: "keys_folded [''enabled'', ''template'', ''send_timing'', ''read_response'', ''allow_http_status'']"
  by code_simp

lemma profiles_keys: "keys_folded [''selected_id'', ''profiles'']"
  by code_simp

lemma ssh_keys: "keys_folded [''host'', ''port'', ''username'', ''password'', ''auth_type'', ''fallback_ips'']"
  by code_simp

lemma proxy_keys: "keys_folded [''host'', ''port'', ''connect_method'', ''fallback_ips'']"
  by code_simp

lemma tconf_keys: "keys_folded [''mode'', ''chain'', ''http_proxy'', ''tls'', ''payload'']"
  by code_simp

lemma profile_keys: "keys_folded [''id'', ''name'', ''selected'', ''ssh'', ''transport'']"
  by code_simp

text \<open>Go's \<open>int\<close> has 64 bits on the devices the daemon is built for.\<close>

definition perf_range :: "perf_cfg \<Rightarrow> bool" where
  "perf_range c = list_all int64 [pf_buffer c, pf_connect_timeout c, pf_keepalive c, pf_pool_size c, pf_max_streams c,
     pf_idle_timeout c, pf_acquire_timeout c, pf_retry_initial c, pf_retry_max c, pf_probe_timeout c]"

definition config_range :: "config \<Rightarrow> bool" where
  "config_range c = (int64 (api_port (c_api c)) \<and> int64 (dns_timeout (c_dns c)) \<and> int64 (lp_port (c_local c)) \<and>
     int64 (tp_port (c_tproxy c)) \<and> perf_range (c_perf c))"

definition tconf_range :: "tconf \<Rightarrow> bool" where
  "tconf_range t = ((case t_proxy t of None \<Rightarrow> True | Some h \<Rightarrow> int64 (hp_port h)) \<and> list_all int64 (pl_allow (t_payload t)))"

definition profile_range :: "profile \<Rightarrow> bool" where
  "profile_range p = (int64 (ssh_port (p_ssh p)) \<and> tconf_range (p_transport p))"

lemma dec_enc_module [simp]: "dec_module (enc_module c) = Some c"
  by (simp add: dec_module_def enc_module_def members_folded module_keys)

lemma dec_enc_api [simp]: "int64 (api_port c) \<Longrightarrow> dec_api (enc_api c) = Some c"
  by (simp add: dec_api_def enc_api_def members_folded api_keys)

lemma dec_enc_dns [simp]: "int64 (dns_timeout c) \<Longrightarrow> dec_dns (enc_dns c) = Some c"
  by (simp add: dec_dns_def enc_dns_def members_folded dns_keys)

lemma dec_enc_transport [simp]: "dec_transport (enc_transport c) = Some c"
  by (simp add: dec_transport_def enc_transport_def members_folded transport_keys)

lemma dec_enc_local [simp]: "int64 (lp_port c) \<Longrightarrow> dec_local (enc_local c) = Some c"
  by (simp add: dec_local_def enc_local_def members_folded local_keys)

lemma dec_enc_tproxy [simp]: "int64 (tp_port c) \<Longrightarrow> dec_tproxy (enc_tproxy c) = Some c"
  by (simp add: dec_tproxy_def enc_tproxy_def members_folded tproxy_keys)

lemma dec_enc_hotspot [simp]: "dec_hotspot (enc_hotspot c) = Some c"
  by (simp add: dec_hotspot_def enc_hotspot_def members_folded hotspot_keys)

lemma dec_enc_perf [simp]: "perf_range c \<Longrightarrow> dec_perf (enc_perf c) = Some c"
  by (simp add: dec_perf_def enc_perf_def members_folded perf_keys perf_range_def)

lemma dec_enc_tls [simp]: "dec_tls (enc_tls c) = Some c"
  by (simp add: dec_tls_def enc_tls_def members_folded tls_keys)

lemma dec_enc_payload [simp]: "list_all int64 (pl_allow c) \<Longrightarrow> dec_payload (enc_payload c) = Some c"
  by (simp add: dec_payload_def enc_payload_def members_folded payload_cfg_keys)

lemma enc_not_null [simp]:
  "enc_module a \<noteq> JNull" "enc_api b \<noteq> JNull" "enc_dns d \<noteq> JNull" "enc_transport e \<noteq> JNull" "enc_local f \<noteq> JNull"
  "enc_tproxy g \<noteq> JNull" "enc_hotspot h \<noteq> JNull" "enc_perf i \<noteq> JNull" "enc_tls k \<noteq> JNull" "enc_payload l \<noteq> JNull"
  "enc_ssh n \<noteq> JNull" "enc_proxy p \<noteq> JNull" "enc_tconf q \<noteq> JNull" "enc_profile r \<noteq> JNull"
  by (simp_all add: enc_module_def enc_api_def enc_dns_def enc_transport_def enc_local_def enc_tproxy_def enc_hotspot_def
      enc_perf_def enc_tls_def enc_payload_def enc_ssh_def enc_proxy_def enc_tconf_def enc_profile_def)

lemma dec_enc_config [simp]: "config_range c \<Longrightarrow> dec_config (enc_config c) = Some c"
  by (simp add: dec_config_def enc_config_def members_folded config_keys config_range_def)

lemma dec_enc_ssh [simp]:
  assumes "int64 (ssh_port c)"
  shows "dec_ssh (enc_ssh c) = Some c"
proof -
  have "members (enc_ssh c) = Some (map_of ([(''host'', JStr (ssh_host c)), (''port'', JNum (ssh_port c)),
     (''username'', JStr (ssh_user c))] @ member_unless (ssh_password c = []) ''password'' (JStr (ssh_password c)) @
     [(''auth_type'', JStr (ssh_auth c))] @
     member_unless (ssh_fallback c = []) ''fallback_ips'' (enc_strs (ssh_fallback c))))"
    unfolding enc_ssh_def by (rule members_folded, rule keys_folded_subseq [OF ssh_keys]) (simp add: member_unless_def)
  then show ?thesis using assms by (simp add: dec_ssh_def member_unless_def)
qed

lemma dec_enc_proxy [simp]:
  assumes "int64 (hp_port c)"
  shows "dec_proxy (enc_proxy c) = Some c"
proof -
  have "members (enc_proxy c) = Some (map_of ([(''host'', JStr (hp_host c)), (''port'', JNum (hp_port c)),
     (''connect_method'', JStr (hp_method c))] @
     member_unless (hp_fallback c = []) ''fallback_ips'' (enc_strs (hp_fallback c))))"
    unfolding enc_proxy_def by (rule members_folded, rule keys_folded_subseq [OF proxy_keys]) (simp add: member_unless_def)
  then show ?thesis using assms by (simp add: dec_proxy_def member_unless_def)
qed

lemma dec_enc_tconf [simp]:
  assumes "tconf_range c"
  shows "dec_tconf (enc_tconf c) = Some c"
proof -
  have "members (enc_tconf c) = Some (map_of ([(''mode'', JStr (t_mode c)), (''chain'', enc_strs (t_chain c))] @
     member_opt ''http_proxy'' enc_proxy (t_proxy c) @ member_opt ''tls'' enc_tls (t_tls c) @
     [(''payload'', enc_payload (t_payload c))]))"
    unfolding enc_tconf_def
    by (rule members_folded, rule keys_folded_subseq [OF tconf_keys]) (simp add: member_opt_def split: option.split)
  then show ?thesis using assms
    by (cases "t_proxy c"; cases "t_tls c") (simp_all add: dec_tconf_def member_opt_def dec_ptr_def tconf_range_def)
qed

lemma dec_enc_profile [simp]:
  assumes "profile_range p"
  shows "dec_profile (enc_profile p) = Some p"
proof -
  have "members (enc_profile p) = Some (map_of ([(''id'', JStr (p_id p)), (''name'', JStr (p_name p))] @
     member_unless (\<not> p_selected p) ''selected'' (JBool (p_selected p)) @
     [(''ssh'', enc_ssh (p_ssh p)), (''transport'', enc_tconf (p_transport p))]))"
    unfolding enc_profile_def
    by (rule members_folded, rule keys_folded_subseq [OF profile_keys]) (simp add: member_unless_def)
  then show ?thesis using assms by (simp add: dec_profile_def member_unless_def profile_range_def)
qed

lemma dec_enc_profiles [simp]:
  assumes "list_all profile_range (pf_profiles pf)"
  shows "dec_profiles (enc_profiles pf) = Some pf"
proof -
  have "dec_list dec_profile zero_profile (JArr (map enc_profile (pf_profiles pf))) = Some (pf_profiles pf)"
    by (rule dec_list_map) (use assms in \<open>simp add: list_all_iff\<close>)
  then show ?thesis by (simp add: dec_profiles_def enc_profiles_def members_folded profiles_keys)
qed

end
