(* ===== verification/Metrics.thy ===== *)
theory Metrics
  imports Complex_Main GoNet
begin

text \<open>
  The sampler of \<open>internal/metrics/metrics.go\<close>. The files under \<open>/proc\<close> are given by their text, \<open>None\<close> if
  one cannot be read; \<open>os.Getpagesize\<close> and \<open>runtime.NumGoroutine\<close> are numbers of the same record. Counters are 64-bit
  words, which wrap. A \<open>float64\<close> is modelled by the rational number it approximates, and the
  conversion \<open>int(...)\<close> of \<open>round1\<close> by the floor of a number that is not negative; neither rounding nor the overflow
  of a conversion is modelled.
\<close>

section \<open>Readers\<close>

record proc_files =
  pc_stat :: "string option"
  pc_self_stat :: "string option"
  pc_statm :: "string option"
  pc_meminfo :: "string option"
  pc_page_size :: nat
  pc_goroutines :: int

type_synonym ticks = "64 word"

definition newline :: char where
  "newline = CHR 0x0A"

text \<open>\<open>readSystemCPUTicks\<close>: unparsable GoStrings.fields are skipped.\<close>

definition read_system_cpu_ticks :: "string option \<Rightarrow> ticks \<times> bool" where
  "read_system_cpu_ticks file =
     (case file of
        None \<Rightarrow> (0, False)
      | Some text \<Rightarrow>
          let line = hd (split_on newline text) in
          if \<not> has_prefix line ''cpu '' then (0, False)
          else let ticks = sum_list (map of_nat (List.map_filter parse_uint64 (tl (GoStrings.fields line))))
               in (ticks, 0 < ticks))"

text \<open>\<open>readProcessCPUTicks\<close>: user and system time, counted from the last closing parenthesis.\<close>

definition read_process_cpu_ticks :: "string option \<Rightarrow> ticks \<times> bool" where
  "read_process_cpu_ticks file =
     (case file of
        None \<Rightarrow> (0, False)
      | Some text \<Rightarrow>
          (case split_last (CHR '')'') text of
             None \<Rightarrow> (0, False)
           | Some (front, rest) \<Rightarrow>
               if length rest \<le> 1 then (0, False)
               else let fs = GoStrings.fields (drop 1 rest) in
                 if length fs < 13 then (0, False)
                 else (case (parse_uint64 (fs ! 11), parse_uint64 (fs ! 12)) of
                         (Some u, Some s) \<Rightarrow> (of_nat u + of_nat s, True)
                       | _ \<Rightarrow> (0, False))))"

definition read_rss_bytes :: "nat \<Rightarrow> string option \<Rightarrow> ticks" where
  "read_rss_bytes page file =
     (case file of
        None \<Rightarrow> 0
      | Some text \<Rightarrow>
          let fs = GoStrings.fields text in
          if length fs < 2 then 0
          else (case parse_uint64 (fs ! 1) of None \<Rightarrow> 0 | Some n \<Rightarrow> of_nat n * of_nat page))"

definition trim_colon :: "string \<Rightarrow> string" where
  "trim_colon s = (if s \<noteq> [] \<and> last s = CHR '':'' then butlast s else s)"

text \<open>One line of \<open>/proc/meminfo\<close>.\<close>

definition mem_line :: "string \<Rightarrow> ticks \<times> ticks \<Rightarrow> ticks \<times> ticks" where
  "mem_line line acc =
     (let fs = GoStrings.fields line in
      if length fs < 2 then acc
      else case parse_uint64 (fs ! 1) of
          None \<Rightarrow> acc
        | Some v \<Rightarrow>
            if trim_colon (fs ! 0) = ''MemTotal'' then (of_nat v * 1024, snd acc)
            else if trim_colon (fs ! 0) = ''MemAvailable'' then (fst acc, of_nat v * 1024)
            else acc)"

definition read_mem_info_bytes :: "string option \<Rightarrow> ticks \<times> ticks" where
  "read_mem_info_bytes file =
     (case file of None \<Rightarrow> (0, 0) | Some text \<Rightarrow> fold mem_line (split_on newline text) (0, 0))"

section \<open>Sampling\<close>

record sampler =
  sa_sys :: ticks
  sa_proc :: ticks

record snapshot =
  sn_cpu :: rat
  sn_rss :: ticks
  sn_rss_mb :: rat
  sn_mem_total :: ticks
  sn_mem_avail :: ticks
  sn_mem_pct :: rat
  sn_goroutines :: int

definition ratio :: "ticks \<Rightarrow> ticks \<Rightarrow> rat" where
  "ratio a b = of_nat (unat a) / of_nat (unat b)"

definition round1 :: "rat \<Rightarrow> rat" where
  "round1 v = of_int \<lfloor>((if v < 0 then 0 else v) + 1 / 20) * 10\<rfloor> / 10"

definition cpu_percent :: "ticks \<times> bool \<Rightarrow> ticks \<times> bool \<Rightarrow> sampler \<Rightarrow> rat" where
  "cpu_percent sys proc s =
     (if snd sys \<and> snd proc \<and> 0 < sa_sys s \<and> sa_sys s < fst sys
      then round1 (ratio (fst proc - sa_proc s) (fst sys - sa_sys s) * 100) else 0)"

definition mem_percent :: "ticks \<Rightarrow> ticks \<Rightarrow> rat" where
  "mem_percent all avail = (if 0 < all \<and> avail \<le> all then round1 (ratio (all - avail) all * 100) else 0)"

definition sample :: "proc_files \<Rightarrow> sampler \<Rightarrow> snapshot \<times> sampler" where
  "sample f s =
     (let sys = read_system_cpu_ticks (pc_stat f);
          proc = read_process_cpu_ticks (pc_self_stat f);
          rss = read_rss_bytes (pc_page_size f) (pc_statm f);
          mem = read_mem_info_bytes (pc_meminfo f)
      in (\<lparr>sn_cpu = cpu_percent sys proc s, sn_rss = rss, sn_rss_mb = round1 (of_nat (unat rss) / 1024 / 1024),
           sn_mem_total = fst mem, sn_mem_avail = snd mem, sn_mem_pct = mem_percent (fst mem) (snd mem),
           sn_goroutines = pc_goroutines f\<rparr>,
          \<lparr>sa_sys = (if snd sys then fst sys else sa_sys s), sa_proc = (if snd proc then fst proc else sa_proc s)\<rparr>))"

definition new_sampler :: sampler where
  "new_sampler = \<lparr>sa_sys = 0, sa_proc = 0\<rparr>"

section \<open>Bounds\<close>

lemma round1_nonneg: "0 \<le> round1 v"
proof -
  have "0 \<le> ((if v < 0 then 0 else v) + 1 / 20) * 10" by simp
  then show ?thesis by (simp add: round1_def)
qed

lemma round1_close: "0 \<le> v \<Longrightarrow> \<bar>round1 v - v\<bar> \<le> 1 / 20"
proof -
  assume "0 \<le> v"
  define x where "x = (v + 1 / 20) * 10"
  have "of_int \<lfloor>x\<rfloor> \<le> x" "x < of_int \<lfloor>x\<rfloor> + 1" by linarith+
  moreover have "round1 v = of_int \<lfloor>x\<rfloor> / 10" using \<open>0 \<le> v\<close> by (simp add: round1_def x_def)
  ultimately show ?thesis unfolding x_def by (simp add: abs_if field_simps)
qed

lemma round1_le: "0 \<le> v \<Longrightarrow> v \<le> 100 \<Longrightarrow> round1 v \<le> 100"
proof -
  assume v: "0 \<le> v" "v \<le> 100"
  then have "(v + 1 / 20) * 10 < of_int 1001" by simp
  then have "\<lfloor>(v + 1 / 20) * 10\<rfloor> < 1001" by (simp only: floor_less_iff)
  then have "\<lfloor>(v + 1 / 20) * 10\<rfloor> \<le> 1000" by linarith
  then have "(of_int \<lfloor>(v + 1 / 20) * 10\<rfloor> :: rat) \<le> 1000"
    by (metis of_int_le_iff of_int_numeral)
  then show ?thesis using v by (simp add: round1_def)
qed

lemma nat_ratio: "m \<le> n \<Longrightarrow> of_nat m / of_nat n \<le> (1 :: rat)" "0 \<le> of_nat m / (of_nat n :: rat)"
  by (cases "n = 0"; simp add: divide_le_eq_1)+

lemma ratio_le_1: "a \<le> b \<Longrightarrow> ratio a b \<le> 1"
  unfolding ratio_def by (rule nat_ratio) (simp add: word_le_nat_alt)

lemma ratio_nonneg: "0 \<le> ratio a b"
  unfolding ratio_def by (rule nat_ratio)

lemma mem_percent_range: "0 \<le> mem_percent t a \<and> mem_percent t a \<le> 100"
proof (cases "0 < t \<and> a \<le> t")
  case True
  then have "t - a \<le> t" by (simp add: word_sub_le)
  then have "ratio (t - a) t * 100 \<le> 100" using ratio_le_1 [of "t - a" t] by simp
  then show ?thesis using True round1_nonneg round1_le ratio_nonneg [of "t - a" t] by (auto simp: mem_percent_def)
qed (auto simp: mem_percent_def)

text \<open>Whatever the files under \<open>/proc\<close> hold, the percentages a sample reports are never
  negative, the share of used memory is at most 100 and is 0 when the kernel's numbers make no
  sense, and the first sample of a sampler reports no CPU load.\<close>

theorem metrics_in_range:
  "0 \<le> sn_cpu (fst (sample f s)) \<and>
   0 \<le> sn_mem_pct (fst (sample f s)) \<and> sn_mem_pct (fst (sample f s)) \<le> 100 \<and>
   (if sn_mem_total (fst (sample f s)) < sn_mem_avail (fst (sample f s)) then sn_mem_pct (fst (sample f s)) = 0 else True) \<and>
   sn_cpu (fst (sample f new_sampler)) = 0"
  using mem_percent_range round1_nonneg
  by (auto simp: sample_def Let_def cpu_percent_def new_sampler_def mem_percent_def)

section \<open>The process name cannot confuse the reader\<close>

lemma fields_func_word:
  "list_all (\<lambda>c. \<not> P c) w \<Longrightarrow> w \<noteq> [] \<Longrightarrow> P sep \<Longrightarrow> fields_func P (w @ sep # s) = w # fields_func P s"
proof (cases w)
  case (Cons x xs)
  assume "list_all (\<lambda>c. \<not> P c) w" "P sep"
  then have "takeWhile (\<lambda>c. \<not> P c) (xs @ sep # s) = xs" "dropWhile (\<lambda>c. \<not> P c) (xs @ sep # s) = sep # s"
    using Cons by (auto simp: list_all_iff takeWhile_append dropWhile_append)
  with Cons \<open>list_all (\<lambda>c. \<not> P c) w\<close> \<open>P sep\<close> show ?thesis by simp
qed simp

lemma fields_func_last_word: "list_all (\<lambda>c. \<not> P c) w \<Longrightarrow> w \<noteq> [] \<Longrightarrow> fields_func P w = [w]"
  by (cases w) (auto simp: list_all_iff takeWhile_eq_all_conv [THEN iffD2] dropWhile_eq_Nil_conv [THEN iffD2])

lemma fields_join:
  "list_all (\<lambda>w. w \<noteq> [] \<and> list_all (\<lambda>c. \<not> is_space c) w) ws \<Longrightarrow> GoStrings.fields (str_join '' '' ws) = ws"
proof (induction ws rule: str_join.induct [of _ "''x''"])
  case (3 sep w v ws)
  then show ?case by (simp add: GoStrings.fields_def fields_func_word is_space_def)
qed (simp_all add: GoStrings.fields_def fields_func_last_word)

lemma fields_join_line:
  "list_all (\<lambda>w. w \<noteq> [] \<and> list_all (\<lambda>c. \<not> is_space c) w) ws \<Longrightarrow> GoStrings.fields (str_join '' '' ws @ [newline]) = ws"
proof (induction ws rule: str_join.induct [of _ "''x''"])
  case (3 sep w v ws)
  then show ?case by (simp add: GoStrings.fields_def fields_func_word is_space_def)
qed (simp_all add: GoStrings.fields_def fields_func_word is_space_def newline_def)

text \<open>The line of \<open>/proc/self/stat\<close> as the kernel prints it: process, name, state, signed numbers (a daemon's terminal group
  is -1), and a newline.\<close>

definition stat_line :: "nat \<Rightarrow> string \<Rightarrow> char \<Rightarrow> int list \<Rightarrow> string" where
  "stat_line pid comm state ns =
     nat_dec pid @ '' ('' @ comm @ '') '' @ str_join '' '' ([state] # map itoa ns) @ [newline]"

lemma nat_dec_word: "nat_dec n \<noteq> [] \<and> list_all (\<lambda>c. \<not> is_space c) (nat_dec n)"
  using nat_dec_chars [of _ n] by (auto simp: list_all_iff dest: digit_not_space)

lemma nat_dec_no_paren: "CHR '')'' \<notin> set (nat_dec n)"
  using nat_dec_chars [of "CHR '')''" n] by (auto simp: is_digit_def)

lemma itoa_word: "itoa n \<noteq> [] \<and> list_all (\<lambda>c. \<not> is_space c) (itoa n)"
  using nat_dec_word [of "nat n"] nat_dec_word [of "nat (- n)"] by (auto simp: itoa_def is_space_def)

lemma itoa_no_paren: "CHR '')'' \<notin> set (itoa n)"
  using nat_dec_no_paren by (auto simp: itoa_def)

lemma set_str_join: "set (str_join sep ws) \<subseteq> set sep \<union> (\<Union>w\<in>set ws. set w)"
  by (induction sep ws rule: str_join.induct) auto

text \<open>C29: from the line the kernel prints, the reader recovers user plus system
  time whatever the name of the process is, parentheses and spaces in it included, and whatever the signs of the
  other numbers are; the sum wraps like the 64-bit addition it is.\<close>

theorem process_name_cannot_confuse:
  assumes "\<not> is_space state" "state \<noteq> CHR '')''" "12 \<le> length ns" "ns ! 10 \<in> {0..<2 ^ 64}" "ns ! 11 \<in> {0..<2 ^ 64}"
  shows "read_process_cpu_ticks (Some (stat_line pid comm state ns)) = (of_int (ns ! 10) + of_int (ns ! 11), True)"
proof -
  let ?ws = "[state] # map itoa ns"
  let ?rest = "str_join '' '' ?ws @ [newline]"
  have sp: "CHR '')'' \<notin> set ?rest"
    using set_str_join [of "'' ''" ?ws] assms(2) itoa_no_paren by (auto simp: newline_def)
  have "stat_line pid comm state ns = (nat_dec pid @ '' ('' @ comm) @ CHR '')'' # ('' '' @ ?rest)"
    by (simp add: stat_line_def)
  then have l: "split_last (CHR '')'') (stat_line pid comm state ns) =
      Some (nat_dec pid @ '' ('' @ comm, '' '' @ ?rest)"
    by (simp only:) (rule split_last_append, use sp in simp)
  have f: "GoStrings.fields ?rest = ?ws"
    by (rule fields_join_line) (use assms(1) itoa_word in \<open>auto simp: list_all_iff\<close>)
  have n: "?ws ! 11 = itoa (ns ! 10)" "?ws ! 12 = itoa (ns ! 11)" "\<not> length ?ws < 13"
    using assms(3) by (auto simp: nth_Cons' nth_map)
  have p: "parse_uint64 (itoa k) = Some (nat k)" if "k \<in> {0..<2 ^ 64}" for k
  proof -
    have "nat k < 2 ^ 64" using that by (simp add: nat_less_iff)
    then show ?thesis using that parse_uint64_nat_dec [of "nat k"] by (simp add: itoa_def)
  qed
  show ?thesis
    using l f n p [OF assms(4)] p [OF assms(5)] assms(4,5)
    by (simp add: read_process_cpu_ticks_def del: str_join.simps nth_Cons_numeral)
qed

text \<open>The line of a daemon without a terminal.\<close>

theorem process_name_cannot_confuse_witness:
  "read_process_cpu_ticks (Some (stat_line 7 ''a) R 9 (b'' (CHR ''S'') [1, 7, 7, 0, - 1, 0, 0, 0, 0, 0, 30, 12, 0, 0, 20, 0])) = (42, True)"
  using process_name_cannot_confuse [of "CHR ''S''" "[1, 7, 7, 0, - 1, 0, 0, 0, 0, 0, 30, 12, 0, 0, 20, 0]" 7 "''a) R 9 (b''"]
  by (simp add: is_space_def)

text \<open>A sample whose process counter could not be read while the system's could makes the next one charge
  the whole life of the process to one interval.\<close>

lemma missed_sample_inflates_load:
  assumes "read_system_cpu_ticks (pc_stat f) = (s1, True)" "read_process_cpu_ticks (pc_self_stat f) = (0, False)"
    and "read_system_cpu_ticks (pc_stat g) = (s2, True)" "read_process_cpu_ticks (pc_self_stat g) = (p, True)"
    and "0 < s1" "s1 < s2"
  shows "sn_cpu (fst (sample g (snd (sample f new_sampler)))) = round1 (ratio p (s2 - s1) * 100)"
  using assms by (simp add: sample_def cpu_percent_def new_sampler_def Let_def)

end
