(* ===== verification/Status.thy ===== *)
theory Status
  imports Codec Metrics Tunnel
begin

text \<open>
  What the daemon reports of itself (\<open>cmd/sshcustomd/main.go\<close>): the fields of \<open>State\<close>, the state \<open>run\<close> starts
  with, the updates by a metrics sample and by a saved configuration, the snapshot the API sends, and the
  summaries and diagnostics built from it. The other theories carry only the fields their component
  writes. Times are nanoseconds, \<open>None\<close> is the zero time; \<open>fmt\<close> stands for \<open>Format(time.RFC3339)\<close>.
\<close>

section \<open>State\<close>

record state =
  st_started_at :: "int option"
  st_tunnel_started_at :: "int option"
  st_state :: string
  st_running :: bool
  st_connected :: bool
  st_ssh_authenticated :: bool
  st_transport_ready :: bool
  st_phase :: string
  st_version :: string
  st_goos :: string
  st_goarch :: string
  st_work_dir :: string
  st_config_path :: string
  st_profiles_path :: string
  st_selected_profile :: string
  st_selected_mode :: string
  st_transport_chain :: string
  st_payload_enabled :: bool
  st_last_error :: string
  st_last_event :: string
  st_attempt :: int
  st_network_online :: bool
  st_default_route :: string
  st_interface :: string
  st_gateway :: string
  st_source_ip :: string
  st_hotspot_enabled :: bool
  st_socks_enabled :: bool
  st_socks_addr :: string
  st_socks_running :: bool
  st_transparent_enabled :: bool
  st_transparent_addr :: string
  st_transparent_running :: bool
  st_transparent_applied :: bool
  st_hotspot_running :: bool
  st_cpu_percent :: rat
  st_memory_rss_bytes :: ticks
  st_memory_rss_mb :: rat
  st_system_mem_total_bytes :: ticks
  st_system_mem_available_bytes :: ticks
  st_system_mem_used_percent :: rat
  st_goroutines :: int
  st_remote_banner :: string
  st_http_statuses :: "int list"
  st_api_addr :: string
  st_resolved_dial :: string
  st_resolver_method :: string
  st_resolved_ips :: "string list"
  st_dns_mode :: string
  st_dns_servers :: "string list"
  st_pool_size :: int
  st_pool_healthy :: int
  st_pool_reconnecting :: int
  st_pool_streams :: int
  st_pool_max_streams :: int
  st_pool_last_error :: string
  st_note :: string

definition initial_state ::
  "string \<Rightarrow> string \<Rightarrow> string \<Rightarrow> string \<Rightarrow> string \<Rightarrow> string \<Rightarrow> int \<Rightarrow> bool \<Rightarrow> profile option \<Rightarrow> route_info \<Rightarrow> config \<Rightarrow> state" where
  "initial_state version goos goarch work_dir cfg_path prof_path now idle sp ri cfg = \<lparr>
     st_started_at = Some now, st_tunnel_started_at = None, st_state = (if idle then ''IDLE'' else ''STARTING''),
     st_running = (\<not> idle), st_connected = False, st_ssh_authenticated = False, st_transport_ready = False, st_phase = [],
     st_version = version, st_goos = goos, st_goarch = goarch, st_work_dir = work_dir, st_config_path = cfg_path,
     st_profiles_path = prof_path,
     st_selected_profile = (case sp of None \<Rightarrow> [] | Some p \<Rightarrow> p_name p),
     st_selected_mode = (case sp of None \<Rightarrow> [] | Some p \<Rightarrow> t_mode (p_transport p)),
     st_transport_chain = str_join '' -> '' (case sp of None \<Rightarrow> [] | Some p \<Rightarrow> t_chain (p_transport p)),
     st_payload_enabled = (case sp of None \<Rightarrow> False | Some p \<Rightarrow> pl_enabled (t_payload (p_transport p))),
     st_last_error = [], st_last_event = [], st_attempt = 0, st_network_online = ri_online ri, st_default_route = ri_raw ri,
     st_interface = ri_iface ri, st_gateway = ri_gw ri, st_source_ip = ri_src ri,
     st_hotspot_enabled = hs_enabled (c_hotspot cfg), st_socks_enabled = lp_enabled (c_local cfg), st_socks_addr = socks_addr cfg,
     st_socks_running = False, st_transparent_enabled = tp_enabled (c_tproxy cfg), st_transparent_addr = transparent_addr cfg,
     st_transparent_running = False, st_transparent_applied = False, st_hotspot_running = False, st_cpu_percent = 0,
     st_memory_rss_bytes = 0, st_memory_rss_mb = 0, st_system_mem_total_bytes = 0, st_system_mem_available_bytes = 0,
     st_system_mem_used_percent = 0, st_goroutines = 0, st_remote_banner = [], st_http_statuses = [], st_api_addr = [],
     st_resolved_dial = [], st_resolver_method = [], st_resolved_ips = [], st_dns_mode = dns_mode (c_dns cfg),
     st_dns_servers = dns_servers (c_dns cfg), st_pool_size = 0, st_pool_healthy = 0, st_pool_reconnecting = 0,
     st_pool_streams = 0, st_pool_max_streams = 0, st_pool_last_error = [], st_note = []\<rparr>"

definition apply_sample :: "snapshot \<Rightarrow> state \<Rightarrow> state" where
  "apply_sample snap st = st\<lparr>st_cpu_percent := sn_cpu snap, st_memory_rss_bytes := sn_rss snap,
     st_memory_rss_mb := sn_rss_mb snap, st_system_mem_total_bytes := sn_mem_total snap,
     st_system_mem_available_bytes := sn_mem_avail snap, st_system_mem_used_percent := sn_mem_pct snap,
     st_goroutines := sn_goroutines snap\<rparr>"

text \<open>The state after the runtime configuration was saved.\<close>

definition config_saved :: "config \<Rightarrow> state \<Rightarrow> state" where
  "config_saved next st = st\<lparr>st_hotspot_enabled := hs_enabled (c_hotspot next), st_socks_enabled := lp_enabled (c_local next),
     st_socks_addr := socks_addr next, st_transparent_enabled := tp_enabled (c_tproxy next),
     st_transparent_addr := transparent_addr next, st_dns_mode := dns_mode (c_dns next),
     st_dns_servers := dns_servers (c_dns next), st_last_event := ''configuration updated; restart may be required''\<rparr>"

section \<open>Snapshot\<close>

definition uptime :: "int \<Rightarrow> int option \<Rightarrow> int" where
  "uptime now t = (case t of None \<Rightarrow> 0 | Some t0 \<Rightarrow> (now - t0) div seconds 1)"

definition snapshot_of :: "(int option \<Rightarrow> string) \<Rightarrow> int \<Rightarrow> state \<Rightarrow> (string \<times> json) list" where
  "snapshot_of fmt now s =
     [(''started_at'', JStr (fmt (st_started_at s))), (''uptime_seconds'', JNum (uptime now (st_started_at s))),
      (''tunnel_uptime_seconds'', JNum (if st_running s then uptime now (st_tunnel_started_at s) else 0)),
      (''state'', JStr (st_state s)), (''running'', JBool (st_running s)),
      (''connected'', JBool (st_connected s)), (''ssh_authenticated'', JBool (st_ssh_authenticated s)),
      (''transport_ready'', JBool (st_transport_ready s)), (''phase'', JStr (st_phase s)),
      (''version'', JStr (st_version s)), (''goos'', JStr (st_goos s)), (''goarch'', JStr (st_goarch s)),
      (''work_dir'', JStr (st_work_dir s)), (''config_path'', JStr (st_config_path s)),
      (''profiles_path'', JStr (st_profiles_path s)), (''selected_profile'', JStr (st_selected_profile s)),
      (''selected_mode'', JStr (st_selected_mode s)), (''transport_chain'', JStr (st_transport_chain s)),
      (''payload_enabled'', JBool (st_payload_enabled s)), (''last_error'', JStr (st_last_error s)),
      (''last_event'', JStr (st_last_event s)), (''attempt'', JNum (st_attempt s)),
      (''network_online'', JBool (st_network_online s)), (''default_route'', JStr (st_default_route s)),
      (''interface'', JStr (st_interface s)), (''gateway'', JStr (st_gateway s)),
      (''source_ip'', JStr (st_source_ip s)), (''hotspot_enabled'', JBool (st_hotspot_enabled s)),
      (''api_addr'', JStr (st_api_addr s)), (''resolved_dial'', JStr (st_resolved_dial s)),
      (''resolver_method'', JStr (st_resolver_method s)), (''resolved_ips'', enc_strs (st_resolved_ips s)),
      (''dns_mode'', JStr (st_dns_mode s)), (''dns_servers'', enc_strs (st_dns_servers s)),
      (''pool_size'', JNum (st_pool_size s)), (''pool_healthy'', JNum (st_pool_healthy s)),
      (''pool_reconnecting'', JNum (st_pool_reconnecting s)), (''pool_streams'', JNum (st_pool_streams s)),
      (''pool_max_streams'', JNum (st_pool_max_streams s)), (''pool_last_error'', JStr (st_pool_last_error s)),
      (''socks_enabled'', JBool (st_socks_enabled s)), (''socks_addr'', JStr (st_socks_addr s)),
      (''socks_running'', JBool (st_socks_running s)),
      (''transparent_enabled'', JBool (st_transparent_enabled s)),
      (''transparent_addr'', JStr (st_transparent_addr s)),
      (''transparent_running'', JBool (st_transparent_running s)),
      (''transparent_applied'', JBool (st_transparent_applied s)),
      (''hotspot_running'', JBool (st_hotspot_running s)), (''cpu_percent'', JFloat (st_cpu_percent s)),
      (''memory_rss_bytes'', JNum (int (unat (st_memory_rss_bytes s)))),
      (''memory_rss_mb'', JFloat (st_memory_rss_mb s)),
      (''system_mem_used_percent'', JFloat (st_system_mem_used_percent s)),
      (''remote_banner'', JStr (st_remote_banner s)), (''http_statuses'', JArr (map JNum (st_http_statuses s))),
      (''note'', JStr (st_note s))]"

section \<open>Summaries\<close>

definition config_summary :: "config \<Rightarrow> json" where
  "config_summary cfg = JObj [
     (''api'', JObj [(''host'', JStr (api_host (c_api cfg))), (''port'', JNum (api_port (c_api cfg)))]),
     (''dns'', JObj [(''mode'', JStr (dns_mode (c_dns cfg))), (''enabled'', JBool (dns_enabled (c_dns cfg))),
        (''servers'', enc_strs (dns_servers (c_dns cfg))), (''timeout_seconds'', JNum (dns_timeout (c_dns cfg))),
        (''hijack'', JBool (dns_hijack (c_dns cfg)))]),
     (''hotspot'', JObj [(''enabled'', JBool (hs_enabled (c_hotspot cfg))), (''tcp'', JBool (hs_tcp (c_hotspot cfg))),
        (''dns'', JBool (hs_dns (c_hotspot cfg))), (''interfaces'', enc_strs (hs_ifaces (c_hotspot cfg)))]),
     (''local_proxy'', JObj [(''socks_enabled'', JBool (lp_enabled (c_local cfg))), (''socks_host'', JStr (lp_host (c_local cfg))),
        (''socks_port'', JNum (lp_port (c_local cfg)))]),
     (''transparent_proxy'', JObj [(''enabled'', JBool (tp_enabled (c_tproxy cfg))), (''tcp_port'', JNum (tp_port (c_tproxy cfg))),
        (''chains_prefix'', JStr (tp_prefix (c_tproxy cfg))), (''ipv4_only'', JBool True)])]"

definition capability_json :: "string \<times> bool \<Rightarrow> string \<Rightarrow> json" where
  "capability_json c description =
     JObj [(''name'', JStr (fst c)), (''enabled'', JBool (snd c)), (''description'', JStr description)]"

definition capabilities_json :: "config \<Rightarrow> json" where
  "capabilities_json cfg = JArr (map2 capability_json (api_capabilities cfg)
     [''runtime starts from Magisk/KernelSU action'', ''iptables IPv4 TCP redirect'', ''TCP sharing for tethered clients'',
      ''local SOCKS5 listener'', ''drops UDP 443/80 so QUIC apps fall back to TCP through the tunnel'',
      ''disables IPv6 while active to prevent leaks (IPv4-only redirect)'',
      ''disables Android captive-portal detection so apps trust the tunneled network'',
      ''intentionally disabled while the tunnel is active''])"

text \<open>\<open>/api/v1/status\<close> and each event of the stream; \<open>filepath.Join\<close> of clean paths.\<close>

definition status_json :: "(int option \<Rightarrow> string) \<Rightarrow> int \<Rightarrow> string \<Rightarrow> config \<Rightarrow> state \<Rightarrow> json" where
  "status_json fmt now run_dir cfg st = JObj [
     (''runtime'', JObj (snapshot_of fmt now st)), (''config'', config_summary cfg), (''capabilities'', capabilities_json cfg),
     (''paths'', JObj [(''work_dir'', JStr (st_work_dir st)), (''config_path'', JStr (st_config_path st)),
        (''profiles_path'', JStr (st_profiles_path st)), (''run_dir'', JStr run_dir),
        (''webroot'', JStr (st_work_dir st @ ''/webroot''))])]"

section \<open>Diagnostics\<close>

text \<open>A key the snapshot does not have reads as \<open>nil\<close>.\<close>

definition pick :: "(string \<times> json) list \<Rightarrow> string \<Rightarrow> json" where
  "pick snap k = (case map_of snap k of None \<Rightarrow> JNull | Some j \<Rightarrow> j)"

text \<open>\<open>%v\<close> of the numbers of the capacity hint.\<close>

definition show_num :: "json \<Rightarrow> string" where
  "show_num j = (case j of JNum n \<Rightarrow> itoa n | _ \<Rightarrow> ''<nil>'')"

text \<open>\<open>logFileInfo\<close> of a file with its size and formatted time, if it can be looked at.\<close>

definition log_file_info :: "string \<Rightarrow> (nat \<times> string) option \<Rightarrow> json" where
  "log_file_info path info =
     (case info of
        None \<Rightarrow> JObj [(''path'', JStr path), (''exists'', JBool False)]
      | Some (bytes, modified) \<Rightarrow>
          JObj [(''path'', JStr path), (''exists'', JBool True), (''size'', JNum (int bytes)), (''modified'', JStr modified)])"

definition diagnostics_snapshot ::
  "(int option \<Rightarrow> string) \<Rightarrow> (string \<Rightarrow> (nat \<times> string) option) \<Rightarrow> int \<Rightarrow> state \<Rightarrow> config \<Rightarrow> string \<Rightarrow> (string \<times> json) list" where
  "diagnostics_snapshot fmt stat now st cfg run_dir =
     (let snap = snapshot_of fmt now st; log = (\<lambda>name. log_file_info (run_dir @ ''/'' @ name) (stat name)) in
      [(''runtime'', JObj snap),
       (''config'', config_summary cfg),
       (''pool'', JObj [(''size'', pick snap ''pool_size''), (''healthy'', pick snap ''pool_healthy''),
          (''reconnecting'', pick snap ''pool_reconnecting''), (''streams'', pick snap ''pool_streams''),
          (''max_streams'', pick snap ''pool_max_streams''), (''last_error'', pick snap ''pool_last_error''),
          (''capacity_hint'', JStr (show_num (pick snap ''pool_healthy'') @ ''/'' @ show_num (pick snap ''pool_size'') @
             '' healthy, '' @ show_num (pick snap ''pool_streams'') @ '' active streams''))]),
       (''route'', JObj [(''online'', pick snap ''network_online''), (''interface'', pick snap ''interface''),
          (''gateway'', pick snap ''gateway''), (''source_ip'', pick snap ''source_ip''),
          (''default_route'', pick snap ''default_route'')]),
       (''performance'', JObj [(''cpu_percent'', pick snap ''cpu_percent''), (''memory_rss_bytes'', pick snap ''memory_rss_bytes''),
          (''memory_rss_mb'', pick snap ''memory_rss_mb''), (''system_mem_used_percent'', pick snap ''system_mem_used_percent''),
          (''goroutines'', pick snap ''goroutines''), (''copy_buffer_size'', JNum (pf_buffer (c_perf cfg))),
          (''connect_timeout_seconds'', JNum (seconds_default (pf_connect_timeout (c_perf cfg)) 20)),
          (''keepalive_seconds'', JNum (seconds_default (pf_keepalive (c_perf cfg)) 30)),
          (''stream_idle_seconds'', JNum (seconds_default (pf_idle_timeout (c_perf cfg)) 600)),
          (''stream_acquire_seconds'', JNum (seconds_default (pf_acquire_timeout (c_perf cfg)) 15)),
          (''max_streams_per_ssh_config'', JNum (pf_max_streams (c_perf cfg)))]),
       (''logs'', JObj [(''core'', log ''core.log''), (''control'', log ''control.log''), (''action'', log ''action.log''),
          (''watchdog'', log ''watchdog.log''), (''net_clean'', log ''net_clean.log'')])])"

section \<open>What the reports say\<close>

definition jget :: "json \<Rightarrow> string \<Rightarrow> json" where
  "jget j k = (case j of JObj kvs \<Rightarrow> pick kvs k | _ \<Rightarrow> JNull)"

lemma jget_obj [simp]: "jget (JObj kvs) k = pick kvs k"
  by (simp add: jget_def)

lemma pick_simps [simp]:
  "pick [] k = JNull"
  "pick ((k', v) # kvs) k = (if k' = k then v else pick kvs k)"
  by (simp_all add: pick_def)

lemma pick_append: "k \<notin> fst ` set xs \<Longrightarrow> pick (xs @ ys) k = pick ys k"
  by (induction xs) auto

lemma snapshot_pick:
  "pick (snapshot_of fmt now s) ''goroutines'' = JNull"
  "pick (snapshot_of fmt now s) ''connected'' = JBool (st_connected s)"
  "pick (snapshot_of fmt now s) ''pool_healthy'' = JNum (st_pool_healthy s)"
  by (simp_all add: snapshot_of_def)

lemma diagnostics_performance:
  "jget (JObj (diagnostics_snapshot fmt stat now s cfg dir)) ''performance'' =
     JObj [(''cpu_percent'', pick (snapshot_of fmt now s) ''cpu_percent''),
       (''memory_rss_bytes'', pick (snapshot_of fmt now s) ''memory_rss_bytes''),
       (''memory_rss_mb'', pick (snapshot_of fmt now s) ''memory_rss_mb''),
       (''system_mem_used_percent'', pick (snapshot_of fmt now s) ''system_mem_used_percent''),
       (''goroutines'', JNull), (''copy_buffer_size'', JNum (pf_buffer (c_perf cfg))),
       (''connect_timeout_seconds'', JNum (seconds_default (pf_connect_timeout (c_perf cfg)) 20)),
       (''keepalive_seconds'', JNum (seconds_default (pf_keepalive (c_perf cfg)) 30)),
       (''stream_idle_seconds'', JNum (seconds_default (pf_idle_timeout (c_perf cfg)) 600)),
       (''stream_acquire_seconds'', JNum (seconds_default (pf_acquire_timeout (c_perf cfg)) 15)),
       (''max_streams_per_ssh_config'', JNum (pf_max_streams (c_perf cfg)))]"
  by (simp add: diagnostics_snapshot_def Let_def snapshot_pick)

text \<open>Whatever the sampler measured, the diagnostics show no number of goroutines, since
  the snapshot has no such key, and the idle time of streams they show is the one in force exactly
  when the configured time lies between 30 seconds and an hour.\<close>

theorem diagnostics_misreports:
  "jget (jget (JObj (diagnostics_snapshot fmt stat now (apply_sample snap s) cfg dir)) ''performance'') ''goroutines'' = JNull \<and>
   (jget (jget (JObj (diagnostics_snapshot fmt stat now (apply_sample snap s) cfg dir)) ''performance'') ''stream_idle_seconds'' =
      JNum (stream_idle_seconds cfg) \<longleftrightarrow> 30 \<le> pf_idle_timeout (c_perf cfg) \<and> pf_idle_timeout (c_perf cfg) \<le> 3600)"
  unfolding diagnostics_performance by (auto simp: seconds_default_def stream_idle_seconds_def Let_def)

end
