(* ===== verification/Startup.thy ===== *)
theory Startup
  imports Status Lifecycle
begin

text \<open>
  The edges of the daemon (\<open>cmd/sshcustomd/main.go\<close>, \<open>cmd/sshcustomd/tcpkeepalive_linux.go\<close>, \<open>internal/webui/webui.go\<close>): the
  command line, the reading of the two files and what \<open>run\<close> sets up before it serves, the view of the
  network route with its cache of five seconds, the socket options of a carrier, and the
  dashboard's pages. The flag package, the log and the process limits \<open>main\<close> sets are not modelled.
\<close>

section \<open>Reading the files\<close>

text \<open>\<open>readJSON\<close>: opening, then decoding; the zero value stands for what an absent member leaves.\<close>

definition read_json :: "('d \<Rightarrow> json result) \<Rightarrow> string \<Rightarrow> (json \<Rightarrow> 'a option) \<Rightarrow> 'd result \<Rightarrow> 'a result" where
  "read_json syntax mismatch dec file =
     (case file of Inl e \<Rightarrow> Err e | Inr text \<Rightarrow> unmarshal syntax mismatch dec text)"

text \<open>What a process ends with: its exit code, and the lines of its two outputs.\<close>

record exit_state =
  ex_code :: nat
  ex_out :: "string list"
  ex_err :: "string list"

definition done_with :: "string list \<Rightarrow> exit_state" where
  "done_with out = \<lparr>ex_code = 0, ex_out = out, ex_err = []\<rparr>"

definition fatal :: "string \<Rightarrow> exit_state" where
  "fatal e = \<lparr>ex_code = 1, ex_out = [], ex_err = [''error: '' @ e]\<rparr>"

definition validate :: "config result \<Rightarrow> profiles_file result \<Rightarrow> exit_state" where
  "validate cfg pf =
     (case cfg of
        Inl e \<Rightarrow> fatal e
      | Inr _ \<Rightarrow>
          (case pf of
             Inl e \<Rightarrow> fatal e
           | Inr pf \<Rightarrow> (case validate_profiles pf of Some e \<Rightarrow> fatal e | None \<Rightarrow> done_with [''config OK''])))"

text \<open>\<open>sshcustomd probe\<close>; \<open>test\<close> stands for \<open>attemptTransport\<close> with a deadline of 35 seconds, \<open>show\<close> for the printed result.\<close>

definition probe_cli ::
  "(config \<Rightarrow> profile \<Rightarrow> 'r result) \<Rightarrow> ('r \<Rightarrow> string) \<Rightarrow> config result \<Rightarrow> profiles_file result \<Rightarrow> exit_state" where
  "probe_cli test show cfg pf =
     (case cfg of
        Inl e \<Rightarrow> fatal e
      | Inr cfg \<Rightarrow>
          (case pf of
             Inl e \<Rightarrow> fatal e
           | Inr pf \<Rightarrow>
               (case selected_profile pf of
                  None \<Rightarrow> fatal ''no selected profile''
                | Some sp \<Rightarrow>
                    (case test (normalize_config cfg) sp of Inl e \<Rightarrow> fatal e | Inr r \<Rightarrow> done_with [show r]))))"

datatype command = Exit exit_state | Run "string list" | Validate "string list" | Probe "string list"

definition main_command :: "string \<Rightarrow> string list \<Rightarrow> command" where
  "main_command version args =
     (case args of
        program # name # rest \<Rightarrow>
          if name = ''version'' then Exit (done_with [version])
          else if name = ''run'' then Run rest
          else if name = ''validate'' then Validate rest
          else if name = ''probe'' then Probe rest
          else Exit \<lparr>ex_code = 2, ex_out = [], ex_err = [''unknown command: '' @ name]\<rparr>
      | _ \<Rightarrow> Exit \<lparr>ex_code = 2, ex_out = [''sshcustomd '' @ version,
               ''usage: sshcustomd run -c config.json -p profiles.json -w /data/adb/sshcustom''], ex_err = []\<rparr>)"

text \<open>\<open>GOMAXPROCS\<close>.\<close>

definition max_procs :: "int \<Rightarrow> int" where
  "max_procs ncpu = (let n = (if 8 < ncpu then 8 else ncpu) in if n < 1 then 1 else n)"

section \<open>The start of run\<close>

record boot_env =
  be_version :: string
  be_goos :: string
  be_goarch :: string
  be_work_dir :: string
  be_config_path :: string
  be_profiles_path :: string
  be_now :: int
  be_route :: route_info

record booted =
  bt_config :: config
  bt_profiles :: profiles_file
  bt_state :: state

definition boot :: "boot_env \<Rightarrow> bool \<Rightarrow> config result \<Rightarrow> profiles_file result \<Rightarrow> booted result" where
  "boot env idle cfg pf =
     (case cfg of
        Inl e \<Rightarrow> Err e
      | Inr cfg \<Rightarrow>
          let cfg = normalize_config cfg in
          (case pf of
             Inl e \<Rightarrow> Err e
           | Inr pf \<Rightarrow>
               if selected_profile pf = None \<and> \<not> idle then Err ''no selected profile''
               else Ok \<lparr>bt_config = cfg, bt_profiles = pf,
                        bt_state = initial_state (be_version env) (be_goos env) (be_goarch env) (be_work_dir env)
                          (be_config_path env) (be_profiles_path env) (be_now env) idle (selected_profile pf) (be_route env) cfg\<rparr>))"

text \<open>The tunnel lifecycle as \<open>run\<close> leaves it to its events: started at once unless idle.\<close>

definition boot_lifecycle :: "bool \<Rightarrow> profiles_file option \<Rightarrow> profiles_file \<Rightarrow> ui \<Rightarrow> lifecycle" where
  "boot_lifecycle idle loaded pf u =
     (let s = idle_lifecycle pf u in if idle then s\<lparr>lc_prop := ''disconnected''\<rparr> else start_tunnel loaded s)"

text \<open>The address of the API, and the state when it cannot be bound.\<close>

definition api_addr :: "config \<Rightarrow> string" where
  "api_addr cfg = join_host_port (api_host (c_api cfg)) (itoa (api_port (c_api cfg)))"

definition api_listen_failed :: "config \<Rightarrow> string \<Rightarrow> state \<Rightarrow> state" where
  "api_listen_failed cfg e st = st\<lparr>st_last_error := ''API listen failed on '' @ api_addr cfg @ '': '' @ e,
     st_last_event := ''API unavailable; likely port conflict''\<rparr>"

section \<open>The route\<close>

text \<open>What \<open>routeInfo\<close> sees: the local address of a UDP socket, or no network, and the interfaces with their
  addresses, unless they cannot be listed.\<close>

record net_view =
  nv_local :: "string option"
  nv_ifaces :: "(string \<times> string list) list option"

definition find_iface :: "string \<Rightarrow> (string \<times> string list) list \<Rightarrow> string" where
  "find_iface src ifaces =
     (case List.find (\<lambda>(name, addrs). \<exists>a\<in>set addrs. has_prefix a (src @ ''/'') \<or> has_prefix a src) ifaces of
        None \<Rightarrow> [] | Some (name, _) \<Rightarrow> name)"

definition look_up_route :: "net_view \<Rightarrow> route_info" where
  "look_up_route v =
     (case nv_local v of
        None \<Rightarrow> \<lparr>ri_online = False, ri_raw = [], ri_iface = [], ri_gw = [], ri_src = []\<rparr>
      | Some laddr \<Rightarrow>
          let src = (case split_host_port laddr of Inl _ \<Rightarrow> [] | Inr (h, p) \<Rightarrow> h);
              iface = (if src = [] then [] else case nv_ifaces v of None \<Rightarrow> [] | Some is \<Rightarrow> find_iface src is)
          in \<lparr>ri_online = True, ri_raw = laddr, ri_iface = iface, ri_gw = [], ri_src = src\<rparr>)"

record route_cache =
  rc_info :: route_info
  rc_expires :: "int option"

text \<open>\<open>now\<close> is the time of the test, \<open>done_at\<close> the time after the lookup. The zero time has always passed.\<close>

definition route_info_at :: "net_view \<Rightarrow> int \<Rightarrow> int \<Rightarrow> route_cache \<Rightarrow> route_info \<times> route_cache" where
  "route_info_at v now done_at c =
     (if (case rc_expires c of None \<Rightarrow> False | Some t \<Rightarrow> now < t) then (rc_info c, c)
      else (look_up_route v, \<lparr>rc_info = look_up_route v, rc_expires = Some (done_at + seconds 5)\<rparr>))"

definition route_signature :: "route_info \<Rightarrow> string" where
  "route_signature ri =
     (if \<not> ri_online ri then ''offline''
      else if trim_space (ri_iface ri) \<noteq> [] then trim_space (ri_iface ri) else ''online'')"

section \<open>Socket options\<close>

text \<open>The options \<open>setTCPTimeouts\<close> sets, when the socket has a descriptor: user timeout in milliseconds,
  idle time, interval and count of keepalive probes.\<close>

definition set_tcp_timeouts :: "bool \<Rightarrow> int \<Rightarrow> int \<Rightarrow> int \<Rightarrow> int \<Rightarrow> (int \<times> int) list" where
  "set_tcp_timeouts has_fd user idle intvl cnt =
     (if has_fd then [(18, user * 1000), (4, idle), (5, intvl), (6, cnt)] else [])"

record tuning =
  tu_no_delay :: bool
  tu_keepalive :: bool
  tu_period :: int
  tu_options :: "(int \<times> int) list"

definition tune_tcp_conn :: "bool \<Rightarrow> bool \<Rightarrow> config \<Rightarrow> bool \<Rightarrow> tuning option" where
  "tune_tcp_conn is_tcp has_fd cfg server_side =
     (if \<not> is_tcp then None
      else Some \<lparr>tu_no_delay = True, tu_keepalive = True,
                 tu_period = seconds (seconds_default (pf_keepalive (c_perf cfg)) 60),
                 tu_options = (if server_side then set_tcp_timeouts has_fd 30 30 10 3 else [])\<rparr>)"

section \<open>The dashboard\<close>

text \<open>A page: its type, its cache header, its bytes. The file on disk wins unless it is unreadable or empty.\<close>

definition disk_or :: "byte list result \<Rightarrow> byte list \<Rightarrow> byte list" where
  "disk_or file embedded = (case file of Inl _ \<Rightarrow> embedded | Inr b \<Rightarrow> if b = [] then embedded else b)"

definition web_page ::
  "(string \<Rightarrow> byte list result) \<Rightarrow> byte list \<Rightarrow> byte list \<Rightarrow> string \<Rightarrow> string \<Rightarrow> string \<times> string \<times> byte list" where
  "web_page read index favicon work_dir path =
     (if path = ''/favicon.svg'' \<or> path = ''/favicon.ico'' then
        (''image/svg+xml'', ''public, max-age=86400'', disk_or (read (work_dir @ ''/webroot/favicon.svg'')) favicon)
      else (''text/html; charset=utf-8'', [], disk_or (read (work_dir @ ''/webroot/index.html'')) index))"

text \<open>The dashboard is never blank, whatever is on disk.\<close>

lemma page_never_blank: "index \<noteq> [] \<Longrightarrow> favicon \<noteq> [] \<Longrightarrow> snd (snd (web_page read index favicon dir path)) \<noteq> []"
  by (auto simp: web_page_def disk_or_def split: sum.split)

section \<open>What validate promises\<close>

lemma normalize_config_idem: "normalize_config (normalize_config c) = normalize_config c"
  by (simp add: normalize_config_def Let_def)

text \<open>If \<open>sshcustomd validate\<close> accepts the two files, \<open>run\<close> starts with them, in normal
  mode too: its configuration is filled in, its state names the selected profile, and the tunnel it
  starts runs that profile, which has an SSH host, a port and a transport chain.\<close>

theorem validated_files_boot:
  assumes "ex_code (validate cfg pf) = 0"
  shows "\<exists>b sp. boot env idle cfg pf = Ok b \<and> selected_profile (bt_profiles b) = Some sp \<and>
     ssh_host (p_ssh sp) \<noteq> [] \<and> 0 < ssh_port (p_ssh sp) \<and> t_chain (p_transport sp) \<noteq> [] \<and>
     normalize_config (bt_config b) = bt_config b \<and> st_selected_profile (bt_state b) = p_name sp \<and>
     u_profile (lc_ui (boot_lifecycle False (Some (bt_profiles b)) (bt_profiles b) u)) = p_name sp"
proof -
  from assms obtain c where c: "cfg = Ok c" by (cases cfg) (auto simp: validate_def fatal_def)
  from assms c obtain p where p: "pf = Ok p" by (cases pf) (auto simp: validate_def fatal_def)
  from assms c p have v: "validate_profiles p = None"
    by (cases "validate_profiles p") (auto simp: validate_def fatal_def)
  then obtain sp where sp: "selected_profile p = Some sp" "ssh_host (p_ssh sp) \<noteq> []" "0 < ssh_port (p_ssh sp)"
      "t_chain (p_transport sp) \<noteq> []"
    by (auto simp: validate_profiles_def not_le split: option.splits if_splits)
  have u: "u_profile (lc_ui (boot_lifecycle False (Some p) p u)) = p_name sp"
    using sp(1) by (simp add: boot_lifecycle_def start_tunnel_def start_commit_def start_accesses idle_lifecycle_def starting_ui_def)
  show ?thesis
    using c p sp u by (simp add: boot_def Let_def initial_state_def normalize_config_idem)
qed


definition sample_files_profile :: profile where
  "sample_files_profile = zero_profile\<lparr>p_name := ''home'', p_ssh := zero_ssh\<lparr>ssh_host := ''h'', ssh_port := 22\<rparr>,
     p_transport := zero_tconf\<lparr>t_chain := [''ssh'']\<rparr>\<rparr>"

definition sample_boot_env :: boot_env where
  "sample_boot_env = \<lparr>be_version = ''2'', be_goos = ''android'', be_goarch = ''arm64'', be_work_dir = ''/w'', be_config_path = ''c'',
     be_profiles_path = ''p'', be_now = 0, be_route = look_up_route \<lparr>nv_local = None, nv_ifaces = None\<rparr>\<rparr>"

theorem validated_files_boot_witness:
  "\<exists>b sp. boot sample_boot_env False (Ok zero_config) (Ok \<lparr>pf_selected = [], pf_profiles = [sample_files_profile]\<rparr>) = Ok b \<and>
     selected_profile (bt_profiles b) = Some sp \<and> ssh_host (p_ssh sp) \<noteq> []"
proof -
  have "ex_code (validate (Ok zero_config) (Ok \<lparr>pf_selected = [], pf_profiles = [sample_files_profile]\<rparr>)) = 0"
    by (simp add: validate_def validate_profiles_def selected_profile_def sample_files_profile_def zero_profile_def
        done_with_def)
  from validated_files_boot [OF this, of sample_boot_env False blank_ui] show ?thesis by blast
qed

text \<open>\<open>validate\<close> does not look at the resolver: custom mode without a server passes, though a patch that
  asks for it is refused.\<close>

lemma validate_ignores_resolver: "ex_code (validate (Ok c) pf) = ex_code (validate (Ok c') pf)"
  by (simp add: validate_def)

section \<open>Answers about the route\<close>

type_synonym route_call = "net_view \<times> int \<times> int"

definition route_step :: "route_cache \<Rightarrow> route_call \<Rightarrow> route_cache" where
  "route_step c call = (case call of (v, now, done_at) \<Rightarrow> snd (route_info_at v now done_at c))"

definition cold_route :: route_cache where
  "cold_route = \<lparr>rc_info = \<lparr>ri_online = False, ri_raw = [], ri_iface = [], ri_gw = [], ri_src = []\<rparr>, rc_expires = None\<rparr>"

definition route_from :: "route_call list \<Rightarrow> route_cache \<Rightarrow> bool" where
  "route_from calls c =
     (case rc_expires c of
        None \<Rightarrow> True
      | Some t \<Rightarrow> \<exists>v now d. (v, now, d) \<in> set calls \<and> rc_info c = look_up_route v \<and> t = d + seconds 5)"

lemma route_from_run: "route_from calls (run route_step cold_route calls)"
proof (induction calls rule: rev_induct)
  case Nil
  show ?case by (simp add: route_from_def cold_route_def)
next
  case (snoc call calls)
  obtain v now d where call: "call = (v, now, d)" by (cases call)
  from snoc show ?case
    by (auto simp: run_append route_step_def call route_info_at_def route_from_def split: option.splits)
qed

text \<open>What \<open>routeInfo\<close> answers is the route as it is now, or the answer of a lookup that
  ended less than five seconds ago.\<close>

theorem route_is_recent:
  "fst (route_info_at v now d (run route_step cold_route calls)) = look_up_route v \<or>
   (\<exists>v' now' d'. (v', now', d') \<in> set calls \<and> now < d' + seconds 5 \<and>
      fst (route_info_at v now d (run route_step cold_route calls)) = look_up_route v')"
  using route_from_run [of calls] by (auto simp: route_info_at_def route_from_def split: option.splits)

text \<open>The prefix test of the address takes another interface whose address starts with the same digits; the
  gateway is never known.\<close>

lemma prefix_match_takes_wrong_interface:
  "ri_iface (look_up_route \<lparr>nv_local = Some ''10.0.0.1:4000'',
      nv_ifaces = Some [(''wlan0'', [''10.0.0.12/24'']), (''rmnet0'', [''10.0.0.1/24''])]\<rparr>) = ''wlan0''"
  by (simp add: look_up_route_def split_host_port_def find_iface_def has_prefix_def)

lemma gateway_never_known: "ri_gw (look_up_route v) = []"
  by (simp add: look_up_route_def Let_def split: option.split)

end
