(* ===== verification/PublicIP.thy ===== *)
theory PublicIP
  imports Socks Codec Tunnel
begin

text \<open>
  The public address lookup behind \<open>/api/v1/network/public-ip\<close> (\<open>lookupPublicIPs\<close> and what it calls in
  \<open>cmd/sshcustomd/main.go\<close>, \<open>PublicIPResponse\<close> in \<open>internal/apiv1/contracts.go\<close>): the reply of \<open>ip-api.com\<close>, fetched through
  the daemon's own SOCKS listener, and the cache of 60 seconds. \<open>parse\<close> stands for \<open>http.ReadResponse\<close>
  and \<open>syntax\<close> for the text syntax of \<open>encoding/json\<close>, with the message of its error. Times are
  nanoseconds; the latency is in milliseconds.
\<close>

section \<open>Responses\<close>

record ip_details =
  ip_path :: string
  ip_ok :: bool
  ip_addr :: string
  ip_country :: string
  ip_region :: string
  ip_city :: string
  ip_isp :: string
  ip_org :: string
  ip_asn :: string
  ip_as_name :: string
  ip_timezone :: string
  ip_latency :: int
  ip_error :: string
  ip_cached :: bool

record ip_response =
  ir_checked :: string
  ir_provider :: string
  ir_device :: "ip_details option"
  ir_tunnel :: "ip_details option"

definition blank_details :: "string \<Rightarrow> ip_details" where
  "blank_details path = \<lparr>ip_path = path, ip_ok = False, ip_addr = [], ip_country = [], ip_region = [], ip_city = [],
     ip_isp = [], ip_org = [], ip_asn = [], ip_as_name = [], ip_timezone = [], ip_latency = 0, ip_error = [], ip_cached = False\<rparr>"

section \<open>The provider's reply\<close>

record ip_api =
  ia_status :: string
  ia_message :: string
  ia_query :: string
  ia_country :: string
  ia_region :: string
  ia_city :: string
  ia_isp :: string
  ia_org :: string
  ia_as :: string
  ia_as_name :: string
  ia_timezone :: string

definition dec_ip_api :: "json \<Rightarrow> ip_api option" where
  "dec_ip_api j = do {
     m \<leftarrow> members j;
     s \<leftarrow> field m ''status'' dec_str [];
     e \<leftarrow> field m ''message'' dec_str [];
     q \<leftarrow> field m ''query'' dec_str [];
     c \<leftarrow> field m ''country'' dec_str [];
     r \<leftarrow> field m ''regionname'' dec_str [];
     t \<leftarrow> field m ''city'' dec_str [];
     i \<leftarrow> field m ''isp'' dec_str [];
     g \<leftarrow> field m ''org'' dec_str [];
     a \<leftarrow> field m ''as'' dec_str [];
     n \<leftarrow> field m ''asname'' dec_str [];
     z \<leftarrow> field m ''timezone'' dec_str [];
     Some \<lparr>ia_status = s, ia_message = e, ia_query = q, ia_country = c, ia_region = r, ia_city = t, ia_isp = i,
           ia_org = g, ia_as = a, ia_as_name = n, ia_timezone = z\<rparr> }"

definition public_ip_asn :: "string \<Rightarrow> string" where
  "public_ip_asn raw =
     (let raw = trim_space raw in
      if raw = [] then []
      else case GoStrings.fields raw of [] \<Rightarrow> [] | f # _ \<Rightarrow> f)"

definition parse_public_ip_details :: "string \<Rightarrow> ip_api result \<Rightarrow> int \<Rightarrow> ip_details" where
  "parse_public_ip_details path body latency =
     (let out = (blank_details path)\<lparr>ip_latency := latency\<rparr> in
      case body of
        Inl e \<Rightarrow> out\<lparr>ip_error := e\<rparr>
      | Inr a \<Rightarrow>
          if ia_status a \<noteq> [] \<and> ia_status a \<noteq> ''success'' then
            out\<lparr>ip_error := (if ia_message a = [] then ''public IP lookup failed'' else ia_message a)\<rparr>
          else
            out\<lparr>ip_ok := True, ip_addr := ia_query a, ip_country := ia_country a, ip_region := ia_region a,
              ip_city := ia_city a, ip_isp := ia_isp a, ip_org := ia_org a, ip_asn := public_ip_asn (ia_as a),
              ip_as_name := ia_as_name a, ip_timezone := ia_timezone a\<rparr>)"

section \<open>One lookup through the tunnel\<close>

definition public_ip_provider :: string where
  "public_ip_provider = ''ip-api.com''"

definition public_ip_path :: string where
  "public_ip_path = ''/json/?fields=status,message,query,country,regionName,city,isp,org,as,asname,timezone''"

text \<open>What a lookup meets: the connection a dial of an address gives, or its error, and the duration.\<close>

record lookup_env =
  le_parse :: "byte list \<Rightarrow> (int \<times> string \<times> byte list) result"
  le_syntax :: "byte list \<Rightarrow> json result"
  le_mismatch :: string
  le_version :: string
  le_conn :: "string \<Rightarrow> conn result"
  le_latency :: int
  le_stamp :: string

definition fetch_via_local_socks :: "lookup_env \<Rightarrow> config \<Rightarrow> byte list result \<times> conn option" where
  "fetch_via_local_socks env cfg =
     (case le_conn env (socks_addr cfg) of
        Inl e \<Rightarrow> (Err e, None)
      | Inr c \<Rightarrow>
          (let (r, c') = fetch_http_via_socks (le_parse env) (le_version env) public_ip_provider 80 public_ip_path c
           in (r, Some c')))"

definition lookup_public_ip_tunnel :: "lookup_env \<Rightarrow> config \<Rightarrow> ip_details \<times> conn option" where
  "lookup_public_ip_tunnel env cfg =
     (if \<not> lp_enabled (c_local cfg) then ((blank_details ''tunnel'')\<lparr>ip_error := ''SOCKS5 is disabled''\<rparr>, None)
      else case fetch_via_local_socks env cfg of
          (Inl e, c) \<Rightarrow> ((blank_details ''tunnel'')\<lparr>ip_error := e, ip_latency := le_latency env\<rparr>, c)
        | (Inr body, c) \<Rightarrow>
            (parse_public_ip_details ''tunnel'' (unmarshal (le_syntax env) (le_mismatch env) dec_ip_api body) (le_latency env), c))"

section \<open>The cache\<close>

text \<open>The cached response shares the details it points to, so marking them as cached changes the cache too.\<close>

record ip_cache =
  ic_resp :: "ip_response option"
  ic_expires :: int

definition mark_cached :: "ip_response \<Rightarrow> ip_response" where
  "mark_cached r =
     r\<lparr>ir_device := map_option (\<lambda>d. d\<lparr>ip_cached := True\<rparr>) (ir_device r),
       ir_tunnel := map_option (\<lambda>d. d\<lparr>ip_cached := True\<rparr>) (ir_tunnel r)\<rparr>"

definition empty_ip_cache :: ip_cache where
  "empty_ip_cache = \<lparr>ic_resp = None, ic_expires = 0\<rparr>"

text \<open>\<open>now\<close> is the time of the test, \<open>done\<close> the time after the lookup.\<close>

definition lookup_public_ips ::
  "lookup_env \<Rightarrow> config \<Rightarrow> bool \<Rightarrow> int \<Rightarrow> int \<Rightarrow> ip_cache \<Rightarrow> ip_response \<times> ip_cache" where
  "lookup_public_ips env cfg refresh now done_at c =
     (case (if refresh then None else if now < ic_expires c then ic_resp c else None) of
        Some r \<Rightarrow> (mark_cached r, c\<lparr>ic_resp := Some (mark_cached r)\<rparr>)
      | None \<Rightarrow>
          (let r = \<lparr>ir_checked = le_stamp env, ir_provider = public_ip_provider, ir_device = None,
                    ir_tunnel = Some (fst (lookup_public_ip_tunnel env cfg))\<rparr>
           in (r, c\<lparr>ic_resp := Some r, ic_expires := done_at + seconds 60\<rparr>)))"


section \<open>What an answer stands for\<close>

definition fresh_response :: "lookup_env \<Rightarrow> config \<Rightarrow> ip_response" where
  "fresh_response env cfg = \<lparr>ir_checked = le_stamp env, ir_provider = public_ip_provider, ir_device = None,
     ir_tunnel = Some (fst (lookup_public_ip_tunnel env cfg))\<rparr>"

type_synonym ip_call = "lookup_env \<times> config \<times> bool \<times> int \<times> int"

definition ip_step :: "ip_cache \<Rightarrow> ip_call \<Rightarrow> ip_cache" where
  "ip_step c call = (case call of (env, cfg, refresh, now, done_at) \<Rightarrow> snd (lookup_public_ips env cfg refresh now done_at c))"

definition same_answer :: "ip_response \<Rightarrow> ip_response \<Rightarrow> bool" where
  "same_answer r r' = (r = r' \<or> r = mark_cached r')"

lemma mark_cached_idem [simp]: "mark_cached (mark_cached r) = mark_cached r"
  by (simp add: mark_cached_def option.map_comp comp_def)

lemma lookup_cases:
  "lookup_public_ips env cfg refresh now d c =
     (if \<not> refresh \<and> now < ic_expires c \<and> ic_resp c \<noteq> None
      then (mark_cached (the (ic_resp c)), c\<lparr>ic_resp := Some (mark_cached (the (ic_resp c)))\<rparr>)
      else (fresh_response env cfg, \<lparr>ic_resp = Some (fresh_response env cfg), ic_expires = d + seconds 60\<rparr>))"
  by (auto simp: lookup_public_ips_def fresh_response_def Let_def split: option.splits)

definition cache_from :: "ip_call list \<Rightarrow> ip_cache \<Rightarrow> bool" where
  "cache_from calls c =
     (case ic_resp c of
        None \<Rightarrow> True
      | Some r \<Rightarrow> \<exists>env cfg refresh now d. (env, cfg, refresh, now, d) \<in> set calls \<and>
          same_answer r (fresh_response env cfg) \<and> ic_expires c = d + seconds 60)"

lemma cache_from_run: "cache_from calls (run ip_step empty_ip_cache calls)"
proof (induction calls rule: rev_induct)
  case Nil
  show ?case by (simp add: cache_from_def empty_ip_cache_def)
next
  case (snoc call calls)
  obtain env cfg refresh now d where call: "call = (env, cfg, refresh, now, d)" by (cases call)
  let ?c = "run ip_step empty_ip_cache calls"
  have s: "run ip_step empty_ip_cache (calls @ [call]) = snd (lookup_public_ips env cfg refresh now d ?c)"
    by (simp add: run_append ip_step_def call)
  show ?case
  proof (cases "\<not> refresh \<and> now < ic_expires ?c \<and> ic_resp ?c \<noteq> None")
    case True
    then obtain r where r: "ic_resp ?c = Some r" by auto
    from snoc.IH obtain env' cfg' rf nw d' where h: "(env', cfg', rf, nw, d') \<in> set calls"
        "same_answer r (fresh_response env' cfg')" "ic_expires ?c = d' + seconds 60"
      by (auto simp: cache_from_def r)
    then have "same_answer (mark_cached r) (fresh_response env' cfg')" by (auto simp: same_answer_def)
    with True h r show ?thesis unfolding s lookup_cases cache_from_def by auto
  next
    case False
    then show ?thesis unfolding s lookup_cases cache_from_def by (auto simp: call same_answer_def)
  qed
qed

text \<open>An answer is either looked up for this call, or marked as cached, not asked to be
  refreshed, and the answer of an earlier lookup that ended less than 60 seconds ago.\<close>

theorem public_ip_is_recent:
  "fst (lookup_public_ips env cfg refresh now d (run ip_step empty_ip_cache calls)) = fresh_response env cfg \<or>
   (\<not> refresh \<and> (\<exists>env' cfg' refresh' now' d'. (env', cfg', refresh', now', d') \<in> set calls \<and> now < d' + seconds 60 \<and>
      fst (lookup_public_ips env cfg refresh now d (run ip_step empty_ip_cache calls)) =
        mark_cached (fresh_response env' cfg')))"
proof -
  let ?c = "run ip_step empty_ip_cache calls"
  have "\<exists>env' cfg' refresh' now' d'. (env', cfg', refresh', now', d') \<in> set calls \<and> now < d' + seconds 60 \<and>
      mark_cached r = mark_cached (fresh_response env' cfg')"
    if c: "ic_resp ?c = Some r" "now < ic_expires ?c" for r
  proof -
    obtain env' cfg' rf nw d' where h: "(env', cfg', rf, nw, d') \<in> set calls"
        "same_answer r (fresh_response env' cfg')" "ic_expires ?c = d' + seconds 60"
      using cache_from_run [of calls] c(1) by (auto simp: cache_from_def)
    then have "mark_cached r = mark_cached (fresh_response env' cfg')" by (auto simp: same_answer_def)
    with h c(2) show ?thesis by metis
  qed
  then show ?thesis unfolding lookup_cases by auto
qed

text \<open>When a looked-up answer is positive.\<close>

lemma fresh_ok_iff:
  "ip_ok (fst (lookup_public_ip_tunnel env cfg)) \<longleftrightarrow>
     lp_enabled (c_local cfg) \<and>
     (\<exists>body a. fst (fetch_via_local_socks env cfg) = Ok body \<and> unmarshal (le_syntax env) (le_mismatch env) dec_ip_api body = Ok a \<and>
        (ia_status a = [] \<or> ia_status a = ''success''))"
  by (auto simp: lookup_public_ip_tunnel_def parse_public_ip_details_def blank_details_def Let_def
      split: prod.splits sum.splits if_splits)

text \<open>The cache knows nothing of the configuration or of the tunnel: a failure is repeated for 60 seconds
  after its cause is gone, and an address is shown after the SOCKS listener was disabled.\<close>

lemma cached_answer_ignores_config:
  "now < d + seconds 60 \<Longrightarrow>
   fst (lookup_public_ips env' cfg' False now d' (snd (lookup_public_ips env cfg True d0 d c))) =
     mark_cached (fresh_response env cfg)"
  by (simp add: lookup_cases)

text \<open>A reply without any member counts as a success with an empty address.\<close>

lemma empty_reply_is_ok: "ip_ok (parse_public_ip_details p (case dec_ip_api (JObj []) of None \<Rightarrow> Err e | Some a \<Rightarrow> Ok a) l)"
  by (simp add: dec_ip_api_def members_def field_def parse_public_ip_details_def)

end
