(* ===== verification/ApiServer.thy ===== *)
theory ApiServer
  imports Startup PublicIP DnsForward
begin

text \<open>
  The HTTP API of \<open>run\<close> (\<open>cmd/sshcustomd/main.go\<close>, \<open>internal/apiv1/contracts.go\<close>): each handler as a function from a request and
  the server's state to a response and the new state. The state is what handlers share: the
  configuration and profiles in memory, the two files as the documents they hold (\<open>FileStore\<close> shows
  that a save is atomic), the files of the run directory, the fields of \<open>State\<close>, the cache of the public
  address, and the goroutines started for the tunnel. What the system answers (times, errors of file
  operations, the SSH client) is the record \<open>api_env\<close>. The path of a request is clean, so the
  multiplexer's redirects do not occur; handlers are interleaved only where they run in one step.
\<close>

section \<open>Requests, responses, state\<close>

record request =
  hr_method :: string
  hr_path :: string
  hr_query :: "string \<Rightarrow> string"
  hr_body :: "json result"

datatype reply = NoBody | Text string | Bytes "byte list" | Doc json | EventStream json

record response =
  re_code :: nat
  re_type :: string
  re_body :: reply

datatype task = StartTask | StopTask | RestartTask

record server =
  sv_config :: config
  sv_config_file :: json
  sv_pf :: profiles_file
  sv_profiles_file :: "json result"
  sv_state :: state
  sv_files :: "string \<Rightarrow> byte list option"
  sv_ip :: ip_cache
  sv_tasks :: "task list"

text \<open>\<open>ev_marker\<close> is the failure of writing the autostart marker: its error, and the bytes written if it was opened.\<close>

record api_env =
  ev_now :: int
  ev_done :: int
  ev_fmt :: "int option \<Rightarrow> string"
  ev_version :: string
  ev_run_dir :: string
  ev_mismatch :: string
  ev_save :: "string option"
  ev_open :: "string \<Rightarrow> string option"
  ev_truncate :: "string option"
  ev_marker :: "(string \<times> nat option) option"
  ev_remove :: "string option"
  ev_stat :: "string \<Rightarrow> (nat \<times> string) option"
  ev_client :: "nat option"
  ev_dial :: "nat \<Rightarrow> string \<Rightarrow> conn result"
  ev_lookup :: lookup_env
  ev_disk :: "string \<Rightarrow> byte list result"
  ev_index :: "byte list"
  ev_favicon :: "byte list"

type_synonym handler = "request \<Rightarrow> server \<Rightarrow> response \<times> server"

section \<open>Envelopes\<close>

definition write_json :: "nat \<Rightarrow> json \<Rightarrow> response" where
  "write_json code v = \<lparr>re_code = code, re_type = ''application/json'', re_body = Doc v\<rparr>"

definition envelope :: "bool \<Rightarrow> json option \<Rightarrow> string \<Rightarrow> json" where
  "envelope ok data e = JObj ([(''api_version'', JStr ''v1''), (''ok'', JBool ok)] @
     (case data of None \<Rightarrow> [] | Some d \<Rightarrow> [(''data'', d)]) @ member_unless (e = []) ''error'' (JStr e))"

definition write_v1_ok :: "json \<Rightarrow> response" where
  "write_v1_ok data = write_json 200 (envelope True (Some data) [])"

definition write_v1_error :: "nat \<Rightarrow> string \<Rightarrow> response" where
  "write_v1_error code e = write_json code (envelope False None e)"

definition post_required :: response where
  "post_required = write_v1_error 405 ''POST required''"

text \<open>A request body decoded into the type the handler wants.\<close>

definition decoded :: "api_env \<Rightarrow> (json \<Rightarrow> 'a option) \<Rightarrow> request \<Rightarrow> 'a result" where
  "decoded env dec r = unmarshal id (ev_mismatch env) dec (hr_body r)"

section \<open>Configuration\<close>

text \<open>\<open>saveRuntimeConfig\<close> in its three parts: the file is written outside \<open>configMu\<close>, then the configuration in memory is
  replaced under it, then the state is updated. Here they run without interruption; \<open>ConfigRaces\<close> interleaves
  the parts of several requests.\<close>

definition write_config_file :: "config \<Rightarrow> server \<Rightarrow> server" where
  "write_config_file next s = s\<lparr>sv_config_file := enc_config next\<rparr>"

definition store_config :: "config \<Rightarrow> server \<Rightarrow> server" where
  "store_config next s = s\<lparr>sv_config := next\<rparr>"

definition publish_config :: "config \<Rightarrow> server \<Rightarrow> server" where
  "publish_config next s = s\<lparr>sv_state := config_saved next (sv_state s)\<rparr>"

lemmas config_parts = write_config_file_def store_config_def publish_config_def

definition save_runtime_config :: "api_env \<Rightarrow> config \<Rightarrow> server \<Rightarrow> string option \<times> server" where
  "save_runtime_config env next s =
     (let next = normalize_config next in
      case ev_save env of
        Some e \<Rightarrow> (Some e, s)
      | None \<Rightarrow> (None, publish_config next (store_config next (write_config_file next s))))"

definition update_json :: "config \<Rightarrow> bool \<Rightarrow> bool \<Rightarrow> string list \<Rightarrow> json" where
  "update_json next restart pending changed = JObj [(''config'', enc_config next), (''restart'', JBool restart),
     (''restart_pending'', JBool pending), (''changed'', if changed = [] then JNull else enc_strs changed)]"

definition spawn :: "task \<Rightarrow> server \<Rightarrow> server" where
  "spawn t s = s\<lparr>sv_tasks := sv_tasks s @ [t]\<rparr>"

definition config_handler :: "api_env \<Rightarrow> handler" where
  "config_handler env r s =
     (if hr_method r = ''GET'' then (write_v1_ok (enc_config (sv_config s)), s)
      else if hr_method r = ''POST'' \<or> hr_method r = ''PATCH'' then
        (case decoded env dec_patch r of
           Inl e \<Rightarrow> (write_v1_error 400 e, s)
         | Inr req \<Rightarrow>
             (case apply_config_patch (sv_config s) req of
                Inl e \<Rightarrow> (write_v1_error 400 e, s)
              | Inr (next, changed, required) \<Rightarrow>
                  (case save_runtime_config env next s of
                     (Some e, s') \<Rightarrow> (write_v1_error 500 e, s')
                   | (None, s') \<Rightarrow>
                       (write_v1_ok (update_json next (cp_restart req) (cp_restart req \<and> required) changed),
                        if cp_restart req \<and> required then spawn RestartTask s' else s'))))
      else (write_v1_error 405 ''GET, POST, or PATCH required'', s))"

section \<open>Profiles\<close>

definition load_profiles :: "api_env \<Rightarrow> server \<Rightarrow> profiles_file result" where
  "load_profiles env s = unmarshal id (ev_mismatch env) dec_profiles (sv_profiles_file s)"

text \<open>Reading the file, changing it and writing it back, under \<open>profileMu\<close>.\<close>

definition edit_profiles :: "api_env \<Rightarrow> (profiles_file \<Rightarrow> string option \<times> profiles_file) \<Rightarrow> server \<Rightarrow> string option \<times> server" where
  "edit_profiles env change s =
     (case load_profiles env s of
        Inl e \<Rightarrow> (Some e, s)
      | Inr latest \<Rightarrow>
          (case change latest of
             (Some e, _) \<Rightarrow> (Some e, s)
           | (None, next) \<Rightarrow>
               (case ev_save env of
                  Some e \<Rightarrow> (Some e, s)
                | None \<Rightarrow> (None, s\<lparr>sv_profiles_file := Ok (enc_profiles next), sv_pf := next\<rparr>))))"

definition profiles_handler :: "api_env \<Rightarrow> handler" where
  "profiles_handler env r s =
     (case load_profiles env s of
        Inl e \<Rightarrow> (write_v1_error 500 e, s)
      | Inr latest \<Rightarrow> (write_v1_ok (enc_profiles latest), s\<lparr>sv_pf := latest\<rparr>))"

definition current_handler :: "api_env \<Rightarrow> handler" where
  "current_handler env r s =
     (case load_profiles env s of
        Inl e \<Rightarrow> (write_v1_error 500 e, s)
      | Inr latest \<Rightarrow>
          (case selected_profile latest of
             None \<Rightarrow> (write_v1_error 404 ''no selected profile'', s)
           | Some sp \<Rightarrow> (write_v1_ok (enc_profile sp), s)))"

text \<open>The end of a handler that edits profiles.\<close>

definition after_edit :: "string option \<times> server \<Rightarrow> json \<Rightarrow> bool \<Rightarrow> response \<times> server" where
  "after_edit es data restart =
     (case es of
        (Some e, s) \<Rightarrow> (write_v1_error 400 e, s)
      | (None, s) \<Rightarrow> (write_v1_ok data, if restart then spawn RestartTask s else s))"

definition select_handler :: "api_env \<Rightarrow> handler" where
  "select_handler env r s =
     (if hr_method r \<noteq> ''POST'' then (post_required, s)
      else case decoded env dec_select_request r of
          Inl e \<Rightarrow> (write_v1_error 400 e, s)
        | Inr (i, restart) \<Rightarrow>
            after_edit (edit_profiles env (\<lambda>pf. select_profile_by_id pf i) s)
              (JObj [(''selected_id'', JStr i), (''restart'', JBool restart)]) restart)"

definition delete_handler :: "api_env \<Rightarrow> handler" where
  "delete_handler env r s =
     (if hr_method r \<noteq> ''POST'' then (post_required, s)
      else case decoded env (dec_string_request ''id'') r of
          Inl e \<Rightarrow> (write_v1_error 400 e, s)
        | Inr i \<Rightarrow>
            if i = [] then (write_v1_error 400 ''id is required'', s)
            else after_edit (edit_profiles env (\<lambda>pf. delete_profile pf i) s) (JObj [(''deleted'', JStr i)]) False)"

definition save_handler :: "api_env \<Rightarrow> handler" where
  "save_handler env r s =
     (if hr_method r \<noteq> ''POST'' then (post_required, s)
      else case decoded env dec_save_request r of
          Inl e \<Rightarrow> (write_v1_error 400 e, s)
        | Inr req \<Rightarrow>
            after_edit (edit_profiles env (\<lambda>pf. upsert_profile (ev_now env) pf req) s)
              (JObj [(''selected_id'', JStr (rq_id req)), (''restart'', JBool (rq_restart req))]) (rq_restart req))"

section \<open>Control, status, latency, public address\<close>

definition control_handler :: "api_env \<Rightarrow> handler" where
  "control_handler env r s =
     (if hr_method r \<noteq> ''POST'' then (post_required, s)
      else case decoded env (dec_string_request ''action'') r of
          Inl e \<Rightarrow> (write_v1_error 400 e, s)
        | Inr action \<Rightarrow>
            let a = trim_space (to_lower action); ok = (\<lambda>w. write_v1_ok (JObj [(''action'', JStr w)])) in
            if a = ''start'' then (ok a, spawn StartTask s)
            else if a = ''stop'' then (ok a, spawn StopTask s)
            else if a = ''restart'' then (ok a, spawn RestartTask s)
            else (write_v1_error 400 (''unsupported action: '' @ action), s))"

definition latency_handler :: "api_env \<Rightarrow> handler" where
  "latency_handler env r s =
     (let target = trim_space (hr_query r ''target'');
          target = (if target = [] then ''www.google.com:443'' else target)
      in case ev_client env of
           None \<Rightarrow> (write_v1_error 503 ''tunnel not connected'', s)
         | Some cl \<Rightarrow>
             (case measure_latency (Some cl) (ev_dial env) (ev_now env, ev_done env) target of
                Inl e \<Rightarrow> (write_v1_error 502 e, s)
              | Inr ms \<Rightarrow> (write_v1_ok (JObj [(''target'', JStr target), (''latency_ms'', JNum ms)]), s)))"

definition enc_ip_details :: "ip_details \<Rightarrow> json" where
  "enc_ip_details d = JObj ([(''path'', JStr (ip_path d)), (''ok'', JBool (ip_ok d))] @
     concat (map (\<lambda>(k, v). member_unless (v = []) k (JStr v))
       [(''ip'', ip_addr d), (''country'', ip_country d), (''region'', ip_region d), (''city'', ip_city d), (''isp'', ip_isp d),
        (''org'', ip_org d), (''asn'', ip_asn d), (''as_name'', ip_as_name d), (''timezone'', ip_timezone d)]) @
     member_unless (ip_latency d = 0) ''latency_ms'' (JNum (ip_latency d)) @
     member_unless (ip_error d = []) ''error'' (JStr (ip_error d)) @ [(''cached'', JBool (ip_cached d))])"

definition enc_ip_response :: "ip_response \<Rightarrow> json" where
  "enc_ip_response r = JObj ([(''checked_at'', JStr (ir_checked r)), (''provider'', JStr (ir_provider r))] @
     member_opt ''device'' enc_ip_details (ir_device r) @ member_opt ''tunnel'' enc_ip_details (ir_tunnel r))"

definition public_ip_handler :: "api_env \<Rightarrow> handler" where
  "public_ip_handler env r s =
     (let (resp, c) = lookup_public_ips (ev_lookup env) (sv_config s) (hr_query r ''refresh'' = ''1'') (ev_now env) (ev_done env) (sv_ip s)
      in (write_v1_ok (enc_ip_response resp), s\<lparr>sv_ip := c\<rparr>))"

definition status_of_server :: "api_env \<Rightarrow> server \<Rightarrow> json" where
  "status_of_server env s = status_json (ev_fmt env) (ev_now env) (ev_run_dir env) (sv_config s) (sv_state s)"

definition diagnostics_handler :: "api_env \<Rightarrow> handler" where
  "diagnostics_handler env r s =
     (write_v1_ok (JObj (diagnostics_snapshot (ev_fmt env) (ev_stat env) (ev_now env) (sv_state s) (sv_config s) (ev_run_dir env))), s)"

section \<open>Logs and the autostart marker\<close>

definition http_error :: "nat \<Rightarrow> string \<Rightarrow> response" where
  "http_error code e = \<lparr>re_code = code, re_type = ''text/plain; charset=utf-8'', re_body = Text (e @ [CHR 0x0A])\<rparr>"

text \<open>\<open>serveLog\<close>: the size it was told, and the content it then finds, which another request may have
  truncated. \<open>io.ReadFull\<close> of nothing is \<open>EOF\<close>, which the code accepts.\<close>

definition max_log_read :: nat where
  "max_log_read = 65536"

definition serve_log :: "nat result \<Rightarrow> string option \<Rightarrow> byte list \<Rightarrow> response" where
  "serve_log stat open_error content =
     (case stat of
        Inl e \<Rightarrow> http_error 404 e
      | Inr bytes \<Rightarrow>
          (case open_error of
             Some e \<Rightarrow> http_error 500 e
           | None \<Rightarrow>
               let ok = (\<lambda>b. \<lparr>re_code = 200, re_type = ''text/plain; charset=utf-8'', re_body = Bytes b\<rparr>) in
               if max_log_read < bytes then
                 (let rest = drop (bytes - max_log_read) content in
                  if max_log_read \<le> length rest then ok (take max_log_read rest)
                  else if rest = [] then ok (replicate max_log_read 0)
                  else http_error 500 ''unexpected EOF'')
               else ok content))"

definition log_handler :: "api_env \<Rightarrow> string \<Rightarrow> handler" where
  "log_handler env name r s =
     (case sv_files s name of
        None \<Rightarrow> (serve_log (Err (''stat '' @ ev_run_dir env @ ''/'' @ name @ '': no such file or directory'')) None [], s)
      | Some b \<Rightarrow> (serve_log (Ok (length b)) (ev_open env name) b, s))"

definition clear_log :: "api_env \<Rightarrow> string \<Rightarrow> handler" where
  "clear_log env name r s =
     (if hr_method r \<noteq> ''POST'' then (post_required, s)
      else case ev_truncate env of
          Some e \<Rightarrow> (write_v1_error 500 e, s)
        | None \<Rightarrow> (write_v1_ok (JObj [(''cleared'', JStr name)]), s\<lparr>sv_files := (sv_files s)(name \<mapsto> [])\<rparr>))"

definition marker_name :: string where
  "marker_name = ''autostart''"

definition enabled_json :: "bool \<Rightarrow> json" where
  "enabled_json b = JObj [(''enabled'', JBool b)]"

definition autostart_handler :: "api_env \<Rightarrow> handler" where
  "autostart_handler env r s =
     (if hr_method r = ''GET'' then (write_v1_ok (enabled_json (sv_files s marker_name \<noteq> None)), s)
      else if hr_method r = ''POST'' \<or> hr_method r = ''PUT'' then
        (case decoded env dec_enabled_request r of
           Inl e \<Rightarrow> (write_v1_error 400 e, s)
         | Inr True \<Rightarrow>
             (case ev_marker env of
                None \<Rightarrow> (write_v1_ok (enabled_json True), s\<lparr>sv_files := (sv_files s)(marker_name \<mapsto> [0x31, 0x0A])\<rparr>)
              | Some (e, None) \<Rightarrow> (write_v1_error 500 e, s)
              | Some (e, Some n) \<Rightarrow> (write_v1_error 500 e, s\<lparr>sv_files := (sv_files s)(marker_name \<mapsto> take n [0x31, 0x0A])\<rparr>))
         | Inr False \<Rightarrow>
             (case (sv_files s marker_name, ev_remove env) of
                (None, _) \<Rightarrow> (write_v1_ok (enabled_json False), s)
              | (Some _, Some e) \<Rightarrow> (write_v1_error 500 e, s)
              | (Some _, None) \<Rightarrow> (write_v1_ok (enabled_json False), s\<lparr>sv_files := (sv_files s)(marker_name := None)\<rparr>)))
      else (write_v1_error 405 ''GET, POST, or PUT required'', s))"

section \<open>Routing\<close>

definition no_content :: response where
  "no_content = \<lparr>re_code = 204, re_type = [], re_body = NoBody\<rparr>"

definition health_handler :: "api_env \<Rightarrow> handler" where
  "health_handler env r s = (write_v1_ok (JObj [(''status'', JStr ''ok''), (''version'', JStr (ev_version env))]), s)"

definition status_handler :: "api_env \<Rightarrow> handler" where
  "status_handler env r s = (write_v1_ok (status_of_server env s), s)"

text \<open>The stream opens with the status; what follows it is the subject of \<open>EventBus\<close>.\<close>

definition events_handler :: "api_env \<Rightarrow> handler" where
  "events_handler env r s = (\<lparr>re_code = 200, re_type = ''text/event-stream'', re_body = EventStream (status_of_server env s)\<rparr>, s)"

definition captive_handler :: handler where
  "captive_handler r s = (no_content, s)"

definition dashboard_handler :: "api_env \<Rightarrow> handler" where
  "dashboard_handler env r s =
     (let (ty, cache, b) = web_page (ev_disk env) (ev_index env) (ev_favicon env) (st_work_dir (sv_state s)) (hr_path r)
      in (\<lparr>re_code = 200, re_type = ty, re_body = Bytes b\<rparr>, s))"

definition routes :: "api_env \<Rightarrow> (string \<times> handler) list" where
  "routes env =
     [(''/api/v1/health'', health_handler env), (''/api/v1/latency'', latency_handler env),
      (''/api/v1/status'', status_handler env), (''/api/v1/network/public-ip'', public_ip_handler env),
      (''/api/v1/diagnostics'', diagnostics_handler env), (''/api/v1/config'', config_handler env),
      (''/api/v1/profiles'', profiles_handler env), (''/api/v1/profile/current'', current_handler env),
      (''/api/v1/profile/select'', select_handler env), (''/api/v1/profile/delete'', delete_handler env),
      (''/api/v1/profile/save'', save_handler env), (''/api/v1/control'', control_handler env),
      (''/api/v1/logs/core'', log_handler env ''core.log''), (''/api/v1/logs/control'', log_handler env ''control.log''),
      (''/api/v1/logs/action'', log_handler env ''action.log''), (''/api/v1/logs/core/clear'', clear_log env ''core.log''),
      (''/api/v1/logs/control/clear'', clear_log env ''control.log''), (''/api/v1/logs/action/clear'', clear_log env ''action.log''),
      (''/api/v1/events'', events_handler env), (''/api/v1/autostart'', autostart_handler env),
      (''/generate_204'', captive_handler), (''/captive/generate_204'', captive_handler)]"

text \<open>The pattern \<open>/\<close> takes every other path.\<close>

definition handler_for :: "api_env \<Rightarrow> string \<Rightarrow> handler" where
  "handler_for env p = (case map_of (routes env) p of Some h \<Rightarrow> h | None \<Rightarrow> dashboard_handler env)"

text \<open>\<open>withCORS\<close>: a preflight request is answered before any handler.\<close>

definition serve :: "api_env \<Rightarrow> handler" where
  "serve env r s = (if hr_method r = ''OPTIONS'' then (no_content, s) else handler_for env (hr_path r) r s)"


section \<open>Every handler\<close>

lemma handler_for_cases:
  assumes "list_all (\<lambda>(p, h). P h) (routes env)" "P (dashboard_handler env)"
  shows "P (handler_for env p)"
  using assms by (auto simp: handler_for_def list_all_iff split: option.split dest: map_of_SomeD)

lemmas responses = write_v1_ok_def write_v1_error_def write_json_def post_required_def no_content_def http_error_def

lemmas simple_handlers = health_handler_def status_handler_def events_handler_def captive_handler_def dashboard_handler_def
  latency_handler_def diagnostics_handler_def public_ip_handler_def current_handler_def profiles_handler_def

lemma responses_simps [simp]:
  "re_code (write_v1_ok d) = 200" "re_code (write_v1_error c e) = c" "re_code post_required = 405"
  "re_code no_content = 204" "re_code (http_error c e) = c"
  "re_body (write_v1_ok d) = Doc (envelope True (Some d) [])" "re_body (write_v1_error c e) = Doc (envelope False None e)"
  "re_body no_content = NoBody" "re_body (http_error c e) = Text (e @ [CHR 0x0A])"
  by (simp_all add: responses)

text \<open>A failed request leaves everything as it was, but for the marker a failed write can leave behind.\<close>

definition only_marker :: "server \<Rightarrow> server \<Rightarrow> bool" where
  "only_marker s s' = (\<exists>m. s' = s\<lparr>sv_files := (sv_files s)(marker_name := m)\<rparr>)"

lemma only_marker_refl [simp]: "only_marker s s"
  unfolding only_marker_def by (rule exI [of _ "sv_files s marker_name"]) simp

lemma only_marker_update [simp]: "only_marker s (s\<lparr>sv_files := (sv_files s)(marker_name := m)\<rparr>)"
  unfolding only_marker_def by blast

definition fails_clean :: "handler \<Rightarrow> bool" where
  "fails_clean h = (\<forall>r s. 400 \<le> re_code (fst (h r s)) \<longrightarrow> only_marker s (snd (h r s)))"

lemma total_handlers_ok:
  "re_code (fst (health_handler env r s)) = 200" "re_code (fst (status_handler env r s)) = 200"
  "re_code (fst (events_handler env r s)) = 200" "re_code (fst (captive_handler r s)) = 204"
  "re_code (fst (dashboard_handler env r s)) = 200" "re_code (fst (diagnostics_handler env r s)) = 200"
  "re_code (fst (public_ip_handler env r s)) = 200"
  by (simp_all add: health_handler_def status_handler_def events_handler_def captive_handler_def dashboard_handler_def
      diagnostics_handler_def public_ip_handler_def Let_def split: prod.split)

lemma reading_handlers_frame:
  "snd (latency_handler env r s) = s" "snd (current_handler env r s) = s" "snd (log_handler env name r s) = s"
  "snd (health_handler env r s) = s" "snd (status_handler env r s) = s" "snd (events_handler env r s) = s"
  "snd (captive_handler r s) = s" "snd (dashboard_handler env r s) = s" "snd (diagnostics_handler env r s) = s"
  by (simp_all add: health_handler_def status_handler_def events_handler_def captive_handler_def dashboard_handler_def
      diagnostics_handler_def latency_handler_def current_handler_def log_handler_def Let_def
      split: prod.split option.split sum.split)

lemma profiles_handler_error: "400 \<le> re_code (fst (profiles_handler env r s)) \<Longrightarrow> snd (profiles_handler env r s) = s"
  by (simp add: profiles_handler_def split: sum.splits)

lemma clear_log_error: "400 \<le> re_code (fst (clear_log env name r s)) \<Longrightarrow> snd (clear_log env name r s) = s"
  by (simp add: clear_log_def split: option.splits if_splits)

lemma control_handler_error: "400 \<le> re_code (fst (control_handler env r s)) \<Longrightarrow> snd (control_handler env r s) = s"
  by (cases "decoded env (dec_string_request ''action'') r") (auto simp: control_handler_def Let_def split: if_splits)

lemma simple_fails_clean:
  "fails_clean (health_handler env)" "fails_clean (status_handler env)" "fails_clean (events_handler env)"
  "fails_clean captive_handler" "fails_clean (dashboard_handler env)" "fails_clean (latency_handler env)"
  "fails_clean (diagnostics_handler env)" "fails_clean (public_ip_handler env)" "fails_clean (current_handler env)"
  "fails_clean (profiles_handler env)" "fails_clean (log_handler env name)" "fails_clean (clear_log env name)"
  "fails_clean (control_handler env)"
  by (simp_all add: fails_clean_def total_handlers_ok reading_handlers_frame profiles_handler_error clear_log_error
      control_handler_error)

lemma edit_profiles_error: "fst (edit_profiles env f s) = Some e \<Longrightarrow> snd (edit_profiles env f s) = s"
  by (auto simp: edit_profiles_def split: sum.splits prod.splits option.splits)

lemma after_edit_error:
  "400 \<le> re_code (fst (after_edit (edit_profiles env f s) d b)) \<Longrightarrow> snd (after_edit (edit_profiles env f s) d b) = s"
  using edit_profiles_error [of env f s]
  by (cases "edit_profiles env f s"; cases "fst (edit_profiles env f s)") (auto simp: after_edit_def)

lemma editing_fails_clean:
  "fails_clean (select_handler env)" "fails_clean (delete_handler env)" "fails_clean (save_handler env)"
  by (auto simp: fails_clean_def select_handler_def delete_handler_def save_handler_def after_edit_error
      split: prod.splits sum.splits)

lemma save_runtime_config_error:
  "save_runtime_config env next s = (Some e, s') \<Longrightarrow> s' = s"
  by (auto simp: save_runtime_config_def Let_def split: option.splits)

lemma config_fails_clean: "fails_clean (config_handler env)"
  by (auto simp: fails_clean_def config_handler_def dest: save_runtime_config_error
      split: prod.splits sum.splits option.splits)

lemma autostart_fails_clean: "fails_clean (autostart_handler env)"
  by (simp add: fails_clean_def autostart_handler_def split: prod.split sum.split option.split bool.split)

lemma routes_fail_clean: "list_all (\<lambda>(p, h). fails_clean h) (routes env)"
  by (simp add: routes_def simple_fails_clean editing_fails_clean config_fails_clean autostart_fails_clean)

end
