(* ===== verification/ApiContract.thy ===== *)
theory ApiContract
  imports ApiServer
begin

text \<open>
  What the HTTP API promises as a whole: the form of its responses, which requests are safe, that memory and files
  agree from the start of the daemon on, after any history of requests and failures served one after the
  other, and what the log endpoints serve.
\<close>

section \<open>Numbers that were decoded fit\<close>

lemma field_int: "field m k dec_int 0 = Some n \<Longrightarrow> int64 n"
  by (auto simp: field_def dec_int_def int64_def split: option.splits json.splits if_splits)

lemma those_all: "those xs = Some ys \<Longrightarrow> list_all (\<lambda>x. \<forall>y. x = Some y \<longrightarrow> P y) xs \<Longrightarrow> list_all P ys"
  by (induction xs arbitrary: ys) (auto split: option.splits)

lemma dec_list_all:
  assumes "dec_list d z j = Some ys" "P z" "\<And>x y. d x = Some y \<Longrightarrow> P y"
  shows "list_all P ys"
proof -
  obtain xs where "those (map (\<lambda>x. if x = JNull then Some z else d x) xs) = Some ys"
    using assms(1) by (auto simp: dec_list_def split: json.splits)
  then show ?thesis by (rule those_all) (use assms(2,3) in \<open>auto simp: list_all_iff\<close>)
qed

lemma dec_int_range: "dec_int j = Some n \<Longrightarrow> int64 n"
  by (auto simp: dec_int_def split: json.splits if_splits)

lemma int64_0: "int64 0"
  by (simp add: int64_def)

lemma field_ints: "field m k (dec_list dec_int 0) [] = Some ns \<Longrightarrow> list_all int64 ns"
  using dec_list_all [of dec_int 0, where P = int64] dec_int_range int64_0
  by (auto simp: field_def split: option.splits if_splits)

lemma field_ptr:
  "field m k (dec_ptr d) None = Some x \<Longrightarrow> (\<And>j y. d j = Some y \<Longrightarrow> P y) \<Longrightarrow> (case x of None \<Rightarrow> True | Some y \<Rightarrow> P y)"
  by (auto simp: field_def dec_ptr_def split: option.splits if_splits)

lemma field_struct: "field m k d z = Some x \<Longrightarrow> P z \<Longrightarrow> (\<And>j y. d j = Some y \<Longrightarrow> P y) \<Longrightarrow> P x"
  by (auto simp: field_def split: option.splits if_splits)

lemma dec_ssh_range: "dec_ssh j = Some c \<Longrightarrow> int64 (ssh_port c)"
  by (auto simp: dec_ssh_def bind_eq_Some_conv dest: field_int)

lemma dec_proxy_range: "dec_proxy j = Some c \<Longrightarrow> int64 (hp_port c)"
  by (auto simp: dec_proxy_def bind_eq_Some_conv dest: field_int)

lemma dec_payload_range: "dec_payload j = Some c \<Longrightarrow> list_all int64 (pl_allow c)"
  by (auto simp: dec_payload_def bind_eq_Some_conv dest: field_ints)

lemma dec_tconf_range: "dec_tconf j = Some t \<Longrightarrow> tconf_range t"
  by (auto simp: dec_tconf_def bind_eq_Some_conv tconf_range_def zero_payload_def
      dest: field_ptr [where P = "\<lambda>h. int64 (hp_port h)", OF _ dec_proxy_range]
        field_struct [where P = "\<lambda>p. list_all int64 (pl_allow p)", OF _ _ dec_payload_range])

lemma dec_profile_range: "dec_profile j = Some p \<Longrightarrow> profile_range p"
  by (auto simp: dec_profile_def bind_eq_Some_conv profile_range_def zero_ssh_def zero_tconf_def zero_payload_def
      tconf_range_def int64_0
      dest: field_struct [where P = "\<lambda>s. int64 (ssh_port s)", OF _ _ dec_ssh_range]
        field_struct [where P = tconf_range, OF _ _ dec_tconf_range])

lemma zero_profile_range: "profile_range zero_profile"
  by (simp add: profile_range_def zero_profile_def zero_ssh_def zero_tconf_def zero_payload_def tconf_range_def int64_0)

lemma dec_profiles_range: "dec_profiles j = Some pf \<Longrightarrow> list_all profile_range (pf_profiles pf)"
  using dec_list_all [of dec_profile zero_profile, where P = profile_range] dec_profile_range zero_profile_range
  by (auto simp: dec_profiles_def bind_eq_Some_conv field_def split: option.splits if_splits)

definition request_range :: "save_request \<Rightarrow> bool" where
  "request_range r = (int64 (ssh_port (rq_ssh r)) \<and> list_all int64 (pl_allow (rq_payload r)) \<and>
     (case rq_proxy r of None \<Rightarrow> True | Some h \<Rightarrow> int64 (hp_port h)))"

lemma dec_request_transport_range:
  "dec_request_transport j = Some (md, h, t, p) \<Longrightarrow>
     list_all int64 (pl_allow p) \<and> (case h of None \<Rightarrow> True | Some h \<Rightarrow> int64 (hp_port h))"
  by (auto simp: dec_request_transport_def bind_eq_Some_conv zero_payload_def
      dest: field_ptr [where P = "\<lambda>h. int64 (hp_port h)", OF _ dec_proxy_range]
        field_struct [where P = "\<lambda>p. list_all int64 (pl_allow p)", OF _ _ dec_payload_range])

lemma dec_save_request_range:
  assumes "dec_save_request j = Some r"
  shows "request_range r"
proof -
  from assms obtain m h md hp t p where
    f: "field m ''ssh'' dec_ssh zero_ssh = Some h"
      "field m ''transport'' dec_request_transport ([], None, None, zero_payload) = Some (md, hp, t, p)"
    and r: "rq_ssh r = h" "rq_proxy r = hp" "rq_payload r = p"
    by (auto simp: dec_save_request_def bind_eq_Some_conv split: prod.splits)
  have "int64 (ssh_port h)"
    using field_struct [OF f(1), of "\<lambda>s. int64 (ssh_port s)"] dec_ssh_range by (simp add: zero_ssh_def int64_0)
  moreover have "hp = None \<and> p = zero_payload \<or> (\<exists>j'. dec_request_transport j' = Some (md, hp, t, p))"
    using f(2) by (auto simp: field_def split: option.splits if_splits)
  then have "list_all int64 (pl_allow p) \<and> (case hp of None \<Rightarrow> True | Some h \<Rightarrow> int64 (hp_port h))"
    using dec_request_transport_range by (elim disjE exE) (simp add: zero_payload_def, blast)
  ultimately show ?thesis using r by (simp add: request_range_def)
qed

section \<open>Edits keep numbers in range\<close>

lemma build_transport_range:
  assumes "int64 (ssh_port ssh)" "list_all int64 (pl_allow pl)" "case hp of None \<Rightarrow> True | Some h \<Rightarrow> int64 (hp_port h)"
  shows "tconf_range (build_transport mode pl hp tc ssh)"
proof -
  have "int64 (hp_port (build_proxy mode hp ssh))"
    using assms(1,3) by (auto simp: build_proxy_def Let_def int64_def split: option.splits)
  moreover have "list_all int64 (pl_allow (build_payload mode pl))"
    using assms(2) by (simp add: build_payload_def int64_def)
  ultimately show ?thesis by (simp add: build_transport_def Let_def tconf_range_def)
qed

lemma request_profile_range: "request_range r \<Longrightarrow> profile_range (request_profile now pf r)"
  by (simp add: request_profile_def Let_def profile_range_def request_ssh_def request_range_def build_transport_range)

lemma select_range:
  "list_all profile_range (pf_profiles pf) \<Longrightarrow> list_all profile_range (pf_profiles (snd (select_profile_by_id pf i)))"
  by (auto simp: select_profile_by_id_def Let_def list_all_iff profile_range_def)

lemma delete_range:
  "list_all profile_range (pf_profiles pf) \<Longrightarrow> list_all profile_range (pf_profiles (snd (delete_profile pf i)))"
  by (auto simp: delete_profile_def list_all_iff)

lemma list_all_update: "list_all P xs \<Longrightarrow> P x \<Longrightarrow> list_all P (xs[k := x])"
  by (auto simp: list_all_iff dest: set_update_subset_insert [THEN subsetD])

lemma upsert_range:
  assumes "request_range r" "list_all profile_range (pf_profiles pf)"
  shows "list_all profile_range (pf_profiles (snd (upsert_profile now pf r)))"
proof -
  have "list_all profile_range (case request_index now pf r of
      Some k \<Rightarrow> (pf_profiles pf)[k := request_profile now pf r] | None \<Rightarrow> pf_profiles pf @ [request_profile now pf r])"
    using assms request_profile_range by (auto simp: list_all_update split: option.split)
  then show ?thesis using assms(2)
    by (auto simp: upsert_profile_def Let_def intro: select_range)
qed

lemma dec_patch_range:
  assumes "dec_patch j = Some r"
  shows "case cp_dns r of None \<Rightarrow> True | Some d \<Rightarrow> int64 (pd_timeout d)"
proof -
  have "int64 (pd_timeout d)" if "dec_dns_settings j' = Some d" for j' d
    using that by (auto simp: dec_dns_settings_def bind_eq_Some_conv dest: field_int)
  then show ?thesis using assms
    by (auto simp: dec_patch_def bind_eq_Some_conv dest: field_ptr [where P = "\<lambda>d. int64 (pd_timeout d)"])
qed

lemma normalize_range: "config_range c \<Longrightarrow> config_range (normalize_config c)"
  by (simp add: normalize_config_def Let_def config_range_def int64_def)

lemma if_ok: "(if a then Inl e else Inr (x, y)) = Inr (n, b) \<Longrightarrow> n = x"
  by (simp split: if_splits)

lemma patch_range:
  assumes "config_range c" "case cp_dns r of None \<Rightarrow> True | Some d \<Rightarrow> int64 (pd_timeout d)"
    "apply_config_patch c r = Ok (next, ch, req)"
  shows "config_range next"
proof -
  have d: "config_range n" if "patch_dns c d = Ok (n, b)" "int64 (pd_timeout d)" for d n b
    unfolding if_ok [OF that(1) [unfolded patch_dns_def Let_def]]
    by (rule normalize_range) (use that(2) assms(1) in \<open>simp add: config_range_def\<close>)
  have h: "config_range (fst (patch_hotspot n h))" if "config_range n" for n h
    using that unfolding patch_hotspot_def Let_def fst_conv by (intro normalize_range) (simp add: config_range_def)
  obtain n b where n: "(case cp_dns r of None \<Rightarrow> Ok (c, False) | Some d \<Rightarrow> patch_dns c d) = Ok (n, b)"
    using assms(3) by (auto simp: apply_config_patch_def split: sum.splits)
  then have "config_range n" using assms(1,2) d by (auto split: option.splits)
  moreover have "next = fst (case cp_hotspot r of None \<Rightarrow> (n, False) | Some h \<Rightarrow> patch_hotspot n h)"
    using assms(3) n by (auto simp: apply_config_patch_def split_beta split: option.splits)
  ultimately show ?thesis using h by (auto split: option.splits)
qed


section \<open>Failure\<close>

text \<open>C21: whatever the request and whatever file operation fails, a response with
  an error code means that the configuration, the profiles, both files, the published state, the
  logs and the tunnel's goroutines are as before; only the autostart marker can be left by a write
  that failed half-way.\<close>

theorem failed_request_changes_nothing:
  assumes "400 \<le> re_code (fst (serve env r s))"
  shows "\<exists>m. snd (serve env r s) = s\<lparr>sv_files := (sv_files s)(marker_name := m)\<rparr>"
proof -
  have "fails_clean (handler_for env (hr_path r))"
    by (rule handler_for_cases [OF routes_fail_clean]) (rule simple_fails_clean)
  with assms have "only_marker s (snd (serve env r s))"
    by (auto simp: serve_def fails_clean_def split: if_splits)
  then show ?thesis by (simp add: only_marker_def)
qed

section \<open>The form of responses\<close>

definition well_typed :: "response \<Rightarrow> bool" where
  "well_typed rs =
     (case re_body rs of
        Doc j \<Rightarrow> re_type rs = ''application/json'' \<and> jget j ''api_version'' = JStr ''v1'' \<and>
          jget j ''ok'' = JBool (re_code rs = 200) \<and>
          (if re_code rs = 200 then jget j ''data'' \<noteq> JNull \<and> jget j ''error'' = JNull
           else jget j ''data'' = JNull \<and> re_code rs \<in> set [400, 404, 405, 500, 502, 503])
      | Text e \<Rightarrow> re_code rs \<in> set [404, 500]
      | NoBody \<Rightarrow> re_code rs = 204
      | _ \<Rightarrow> re_code rs = 200)"

lemma well_typed_ok: "d \<noteq> JNull \<Longrightarrow> well_typed (write_v1_ok d)"
  by (simp add: well_typed_def write_v1_ok_def write_json_def envelope_def member_unless_def)

lemma well_typed_error: "c \<in> set [400, 404, 405, 500, 502, 503] \<Longrightarrow> well_typed (write_v1_error c e)"
  by (auto simp: well_typed_def write_v1_error_def write_json_def envelope_def member_unless_def)

lemma well_typed_rest [simp]: "well_typed post_required" "well_typed no_content"
  "well_typed (http_error 404 e)" "well_typed (http_error 500 e)"
  by (simp_all add: post_required_def well_typed_error) (simp_all add: well_typed_def no_content_def http_error_def)

lemma after_edit_typed: "well_typed (fst (after_edit es (JObj kvs) b))"
  by (cases es; cases "fst es") (auto simp: after_edit_def well_typed_ok well_typed_error)

lemma handlers_typed:
  "well_typed (fst (health_handler env r s))" "well_typed (fst (status_handler env r s))"
  "well_typed (fst (events_handler env r s))" "well_typed (fst (captive_handler r s))"
  "well_typed (fst (dashboard_handler env r s))" "well_typed (fst (diagnostics_handler env r s))"
  "well_typed (fst (public_ip_handler env r s))"
  by (simp_all add: health_handler_def status_handler_def captive_handler_def diagnostics_handler_def
      public_ip_handler_def well_typed_ok status_of_server_def status_json_def enc_ip_response_def split: prod.split)
    (simp_all add: events_handler_def dashboard_handler_def well_typed_def Let_def split: prod.split)

lemma handlers_typed2:
  "well_typed (fst (select_handler env r s))" "well_typed (fst (delete_handler env r s))"
  "well_typed (fst (save_handler env r s))" "well_typed (fst (clear_log env name r s))"
  "well_typed (fst (autostart_handler env r s))" "well_typed (fst (current_handler env r s))"
  "well_typed (fst (profiles_handler env r s))"
  by (simp_all add: select_handler_def delete_handler_def save_handler_def clear_log_def autostart_handler_def
      current_handler_def profiles_handler_def after_edit_typed well_typed_ok well_typed_error enabled_json_def enc_profiles_def
      split: sum.split option.split prod.split bool.split)

lemma control_typed: "well_typed (fst (control_handler env r s))"
  by (cases "decoded env (dec_string_request ''action'') r")
    (auto simp: control_handler_def Let_def well_typed_ok well_typed_error)

lemma latency_typed: "well_typed (fst (latency_handler env r s))"
  by (simp add: latency_handler_def Let_def well_typed_ok well_typed_error split: option.split sum.split)

lemma config_typed: "well_typed (fst (config_handler env r s))"
  by (simp add: config_handler_def well_typed_ok well_typed_error enc_config_def update_json_def
      split: option.split sum.split prod.split)

lemma serve_log_typed: "well_typed (serve_log st oe b)"
proof -
  have t: "well_typed \<lparr>re_code = 200, re_type = ty, re_body = Bytes x\<rparr>" for ty x by (simp add: well_typed_def)
  show ?thesis by (simp add: serve_log_def Let_def t split: sum.split option.split)
qed

lemma log_typed: "well_typed (fst (log_handler env name r s))"
  by (simp add: log_handler_def serve_log_typed split: option.split)

lemmas typed = handlers_typed handlers_typed2 control_typed latency_typed config_typed log_typed

lemma routes_typed: "list_all (\<lambda>(p, h). \<forall>r s. well_typed (fst (h r s))) (routes env)"
  by (simp add: routes_def typed)

text \<open>C22: whatever is asked (of a clean path: the multiplexer redirects others before any
  handler runs) and whatever fails, a response of the server is one of these: an
  envelope of version \<open>v1\<close>, of type JSON, that says \<open>ok\<close> exactly when the code is 200, has data then and no
  error, and has no data with the error codes; a plain error with code 404 or 500; an empty 204; or
  content with code 200.\<close>

theorem responses_well_typed: "well_typed (fst (serve env r s))"
proof -
  have "\<forall>q t. well_typed (fst (handler_for env (hr_path r) q t))"
    by (rule handler_for_cases [OF routes_typed]) (simp add: typed)
  then show ?thesis unfolding serve_def by (simp split: if_split)
qed

section \<open>Safe methods\<close>

text \<open>All that a request which only reads can change: the profiles read again, and the cached address.\<close>

definition only_caches :: "server \<Rightarrow> server \<Rightarrow> bool" where
  "only_caches s s' = (\<exists>pf c. s' = s\<lparr>sv_pf := pf, sv_ip := c\<rparr>)"

lemma only_caches_refl [simp]: "only_caches s s"
  unfolding only_caches_def by (rule exI [of _ "sv_pf s"], rule exI [of _ "sv_ip s"]) simp

lemma only_caches_pf: "only_caches s (s\<lparr>sv_pf := pf\<rparr>)"
  unfolding only_caches_def by (rule exI [of _ pf], rule exI [of _ "sv_ip s"]) simp

lemma only_caches_ip: "only_caches s (s\<lparr>sv_ip := c\<rparr>)"
  unfolding only_caches_def by (rule exI [of _ "sv_pf s"], rule exI [of _ c]) simp

definition writing :: "string \<Rightarrow> bool" where
  "writing m = (m \<in> set [''POST'', ''PUT'', ''PATCH''])"

definition safe :: "handler \<Rightarrow> bool" where
  "safe h = (\<forall>r s. \<not> writing (hr_method r) \<longrightarrow> only_caches s (snd (h r s)))"

lemma handlers_safe:
  "safe (health_handler env)" "safe (status_handler env)" "safe (events_handler env)" "safe captive_handler"
  "safe (dashboard_handler env)" "safe (latency_handler env)" "safe (diagnostics_handler env)" "safe (current_handler env)"
  "safe (log_handler env name)"
  by (simp_all add: safe_def reading_handlers_frame)

lemma posting_safe:
  "safe (select_handler env)" "safe (delete_handler env)" "safe (save_handler env)" "safe (control_handler env)"
  "safe (clear_log env name)" "safe (config_handler env)" "safe (autostart_handler env)"
  by (simp_all add: safe_def writing_def select_handler_def delete_handler_def save_handler_def control_handler_def
      clear_log_def config_handler_def autostart_handler_def)

lemma cached_safe: "safe (profiles_handler env)" "safe (public_ip_handler env)"
  by (simp_all add: safe_def profiles_handler_def public_ip_handler_def only_caches_pf only_caches_ip
      split: sum.split prod.split)

lemma routes_safe: "list_all (\<lambda>(p, h). safe h) (routes env)"
  by (simp add: routes_def handlers_safe posting_safe cached_safe)

text \<open>C23: only a request with method POST, PUT or PATCH can change the configuration, a
  file, a log, the autostart marker or the published state, or start or stop the tunnel.\<close>

theorem reading_requests_are_safe:
  assumes "hr_method r \<notin> set [''POST'', ''PUT'', ''PATCH'']"
  shows "\<exists>pf c. snd (serve env r s) = s\<lparr>sv_pf := pf, sv_ip := c\<rparr>"
proof -
  have "safe (handler_for env (hr_path r))"
    by (rule handler_for_cases [OF routes_safe]) (rule handlers_safe)
  with assms have "only_caches s (snd (serve env r s))"
    by (auto simp: serve_def safe_def writing_def)
  then show ?thesis by (simp add: only_caches_def)
qed

section \<open>Memory and files agree\<close>

definition mirrors :: "config \<Rightarrow> state \<Rightarrow> bool" where
  "mirrors c st =
     (st_hotspot_enabled st = hs_enabled (c_hotspot c) \<and> st_socks_enabled st = lp_enabled (c_local c) \<and>
      st_socks_addr st = socks_addr c \<and> st_transparent_enabled st = tp_enabled (c_tproxy c) \<and>
      st_transparent_addr st = transparent_addr c \<and> st_dns_mode st = dns_mode (c_dns c) \<and>
      st_dns_servers st = dns_servers (c_dns c))"

text \<open>The file of the configuration need not be what the daemon would write: \<open>run\<close> fills in defaults in memory only.\<close>

definition server_inv :: "server \<Rightarrow> bool" where
  "server_inv s =
     (normalize_config (sv_config s) = sv_config s \<and> config_range (sv_config s) \<and>
      map_option normalize_config (dec_config (sv_config_file s)) = Some (sv_config s) \<and>
      mirrors (sv_config s) (sv_state s) \<and>
      map_sum id dec_profiles (sv_profiles_file s) = Ok (Some (sv_pf s)) \<and> list_all profile_range (pf_profiles (sv_pf s)))"

lemma server_inv_frame [simp]:
  "server_inv (s\<lparr>sv_files := f\<rparr>) = server_inv s" "server_inv (s\<lparr>sv_ip := c\<rparr>) = server_inv s"
  "server_inv (spawn t s) = server_inv s"
  by (simp_all add: server_inv_def spawn_def)

definition keeps :: "handler \<Rightarrow> bool" where
  "keeps h = (\<forall>r s. server_inv s \<longrightarrow> server_inv (snd (h r s)))"

lemma load_in_sync: "server_inv s \<Longrightarrow> load_profiles env s = Ok (sv_pf s)"
  by (cases "sv_profiles_file s") (simp_all add: server_inv_def load_profiles_def unmarshal_def)

lemma edit_keeps:
  assumes "server_inv s" "list_all profile_range (pf_profiles (sv_pf s)) \<Longrightarrow> list_all profile_range (pf_profiles (snd (f (sv_pf s))))"
  shows "server_inv (snd (edit_profiles env f s))"
  using assms unfolding edit_profiles_def load_in_sync [OF assms(1)]
  by (cases "f (sv_pf s)") (auto simp: server_inv_def split: option.split)

lemma after_edit_keeps: "server_inv (snd es) \<Longrightarrow> server_inv (snd (after_edit es d b))"
  by (cases es; cases "fst es") (auto simp: after_edit_def)

lemma decoded_ok: "decoded env dec r = Ok x \<Longrightarrow> \<exists>j. dec j = Some x"
  by (auto simp: decoded_def unmarshal_def split: sum.splits option.splits)

lemma editing_keeps: "keeps (select_handler env)" "keeps (delete_handler env)" "keeps (save_handler env)"
proof -
  show "keeps (select_handler env)" "keeps (delete_handler env)"
    by (auto simp: keeps_def select_handler_def delete_handler_def select_range delete_range
        intro!: after_edit_keeps edit_keeps split: sum.split prod.split)
  have "server_inv (snd (edit_profiles env (\<lambda>pf. upsert_profile (ev_now env) pf x) s))"
    if "server_inv s" "decoded env dec_save_request r = Ok x" for s r x
    using that decoded_ok [OF that(2)] dec_save_request_range
    by (auto intro!: edit_keeps upsert_range)
  then show "keeps (save_handler env)"
    by (auto simp: keeps_def save_handler_def intro!: after_edit_keeps split: sum.split)
qed

lemma save_config_keeps:
  assumes "server_inv s" "config_range next" "save_runtime_config env next s = (e, s')"
  shows "server_inv s'"
proof (cases "ev_save env")
  case None
  have "dec_config (enc_config (normalize_config next)) = Some (normalize_config next)"
    using assms(2) by (intro dec_enc_config normalize_range)
  with None assms show ?thesis
    by (auto simp: save_runtime_config_def Let_def config_parts server_inv_def mirrors_def config_saved_def
        normalize_config_idem normalize_range)
next
  case (Some a)
  with assms show ?thesis by (simp add: save_runtime_config_def Let_def)
qed

lemma config_keeps: "keeps (config_handler env)"
proof -
  have "server_inv s'"
    if h: "server_inv s" "decoded env dec_patch r = Ok q" "apply_config_patch (sv_config s) q = Ok (nx, ch, b)"
      "save_runtime_config env nx s = (e, s')" for s s' r q nx ch b e
  proof -
    have i: "config_range (sv_config s)" using h(1) by (simp add: server_inv_def)
    obtain j where "dec_patch j = Some q" using decoded_ok [OF h(2)] by auto
    from patch_range [OF i dec_patch_range [OF this] h(3)] show ?thesis using save_config_keeps h(1,4) by blast
  qed
  then show ?thesis
    by (auto simp: keeps_def config_handler_def split: sum.split prod.split option.split)
qed

lemma others_keep:
  "keeps (health_handler env)" "keeps (status_handler env)" "keeps (events_handler env)" "keeps captive_handler"
  "keeps (dashboard_handler env)" "keeps (latency_handler env)" "keeps (diagnostics_handler env)" "keeps (current_handler env)"
  "keeps (log_handler env name)" "keeps (public_ip_handler env)" "keeps (profiles_handler env)" "keeps (clear_log env name)"
  "keeps (autostart_handler env)"
  by (simp_all add: keeps_def reading_handlers_frame public_ip_handler_def profiles_handler_def load_in_sync clear_log_def
      autostart_handler_def split: prod.split option.split sum.split bool.split)

lemma control_keeps: "keeps (control_handler env)"
  by (auto simp: keeps_def control_handler_def Let_def split: sum.split)

lemma routes_keep: "list_all (\<lambda>(p, h). keeps h) (routes env)"
  by (simp add: routes_def others_keep editing_keeps config_keeps control_keeps)

lemma serve_keeps: "server_inv s \<Longrightarrow> server_inv (snd (serve env r s))"
proof -
  have "keeps (handler_for env (hr_path r))"
    by (rule handler_for_cases [OF routes_keep]) (rule others_keep)
  then show "server_inv s \<Longrightarrow> server_inv (snd (serve env r s))" by (simp add: serve_def keeps_def)
qed

definition api_step :: "server \<Rightarrow> api_env \<times> request \<Rightarrow> server" where
  "api_step s e = snd (serve (fst e) (snd e) s)"

interpretation api: step_invariant api_step server_inv "\<lambda>_ _. True"
  by unfold_locales (simp add: api_step_def serve_keeps)

subsection \<open>From the start of the daemon on\<close>

lemma dec_perf_range: "dec_perf j = Some c \<Longrightarrow> perf_range c"
  by (auto simp: dec_perf_def bind_eq_Some_conv perf_range_def zero_config_def int64_0 dest!: field_int)

lemma dec_config_range:
  assumes "dec_config j = Some c"
  shows "config_range c"
proof -
  have z: "config_range zero_config" by (simp add: config_range_def perf_range_def zero_config_def int64_0)
  have a: "int64 (api_port x)" if "dec_api j = Some x" for j x
    using that by (auto simp: dec_api_def bind_eq_Some_conv dest: field_int)
  have d: "int64 (dns_timeout x)" if "dec_dns j = Some x" for j x
    using that by (auto simp: dec_dns_def bind_eq_Some_conv dest: field_int)
  have l: "int64 (lp_port x)" if "dec_local j = Some x" for j x
    using that by (auto simp: dec_local_def bind_eq_Some_conv dest: field_int)
  have t: "int64 (tp_port x)" if "dec_tproxy j = Some x" for j x
    using that by (auto simp: dec_tproxy_def bind_eq_Some_conv dest: field_int)
  show ?thesis using assms z
    by (auto simp: dec_config_def bind_eq_Some_conv config_range_def
        dest!: field_struct [where P = "\<lambda>x. int64 (api_port x)", OF _ _ a] field_struct [where P = "\<lambda>x. int64 (dns_timeout x)", OF _ _ d]
          field_struct [where P = "\<lambda>x. int64 (lp_port x)", OF _ _ l] field_struct [where P = "\<lambda>x. int64 (tp_port x)", OF _ _ t]
          field_struct [where P = perf_range, OF _ _ dec_perf_range])
qed

text \<open>What the handlers share when \<open>run\<close> begins to serve: what it booted with, the two files it has read, and the files of the
  run directory.\<close>

definition booted_server :: "booted \<Rightarrow> json \<Rightarrow> json \<Rightarrow> (string \<Rightarrow> byte list option) \<Rightarrow> server" where
  "booted_server b config_file profiles_file files =
     \<lparr>sv_config = bt_config b, sv_config_file = config_file, sv_pf = bt_profiles b, sv_profiles_file = Ok profiles_file,
      sv_state = bt_state b, sv_files = files, sv_ip = empty_ip_cache, sv_tasks = []\<rparr>"

definition boot_files :: "boot_env \<Rightarrow> bool \<Rightarrow> string \<Rightarrow> json \<Rightarrow> json \<Rightarrow> booted result" where
  "boot_files env idle mismatch config_file profiles_file =
     boot env idle (unmarshal id mismatch dec_config (Ok config_file)) (unmarshal id mismatch dec_profiles (Ok profiles_file))"

lemma initial_mirrors: "mirrors c (initial_state v os ar wd cp pp now idle sp ri c)"
  by (simp add: mirrors_def initial_state_def)

lemma boot_inv:
  assumes "boot_files env idle mm cf pfile = Ok b"
  shows "server_inv (booted_server b cf pfile files)"
proof -
  from assms obtain c p where d: "dec_config cf = Some c" "dec_profiles pfile = Some p"
    and b: "bt_config b = normalize_config c" "bt_profiles b = p" "mirrors (bt_config b) (bt_state b)"
    using initial_mirrors by (auto simp: boot_files_def boot_def unmarshal_def Let_def split: option.splits if_splits)
  show ?thesis using d b dec_config_range [OF d(1)] dec_profiles_range [OF d(2)]
    by (simp add: server_inv_def booted_server_def normalize_config_idem normalize_range)
qed

text \<open>C20: a daemon that has started on any two files it can read serves any history of requests, one after
  the other, with any failures of file operations. At every moment the configuration in memory is
  the one its file decodes to, with the defaults filled in, and the one the published state shows;
  and the profiles in memory are those their file decodes to. (Overlapping requests can break this:
  \<open>overlapping_patches_lose_one\<close>.)\<close>

theorem memory_and_files_agree:
  assumes "boot_files benv idle mm config_file profiles_file = Ok b"
  shows "let s = run api_step (booted_server b config_file profiles_file files) es in
     map_option normalize_config (dec_config (sv_config_file s)) = Some (sv_config s) \<and> mirrors (sv_config s) (sv_state s) \<and>
     map_sum id dec_profiles (sv_profiles_file s) = Ok (Some (sv_pf s))"
  using api.run_inv [OF boot_inv [OF assms], of files es] by (simp add: Let_def server_inv_def)


section \<open>A server to try it on\<close>

definition api_sample_env :: api_env where
  "api_sample_env = \<lparr>ev_now = 0, ev_done = 0, ev_fmt = (\<lambda>_. []), ev_version = ''2'', ev_run_dir = ''/w/run'', ev_mismatch = ''mismatch'',
     ev_save = None, ev_open = (\<lambda>_. None), ev_truncate = None, ev_marker = None, ev_remove = None, ev_stat = (\<lambda>_. None),
     ev_client = None, ev_dial = (\<lambda>_ _. Err ''down''),
     ev_lookup = \<lparr>le_parse = (\<lambda>_. Err ''down''), le_syntax = (\<lambda>_. Err ''down''), le_mismatch = ''mismatch'', le_version = ''2'',
       le_conn = (\<lambda>_. Err ''down''), le_latency = 0, le_stamp = []\<rparr>,
     ev_disk = (\<lambda>_. Err ''missing''), ev_index = [0x3C], ev_favicon = [0x3C]\<rparr>"

text \<open>A configuration file with a single member, and no profile yet.\<close>

definition sample_config_file :: json where
  "sample_config_file = JObj [(''hotspot'', JObj [(''enabled'', JBool False)])]"

definition sample_profiles_file :: json where
  "sample_profiles_file = JObj []"

definition sample_booted :: booted where
  "sample_booted = (let c = normalize_config zero_config in
     \<lparr>bt_config = c, bt_profiles = \<lparr>pf_selected = [], pf_profiles = []\<rparr>,
      bt_state = initial_state ''2'' ''android'' ''arm64'' ''/w'' ''c'' ''p'' 0 True None (be_route sample_boot_env) c\<rparr>)"

definition sample_server :: server where
  "sample_server = booted_server sample_booted sample_config_file sample_profiles_file (\<lambda>_. None)"

definition asking :: "string \<Rightarrow> string \<Rightarrow> json \<Rightarrow> request" where
  "asking m p body = \<lparr>hr_method = m, hr_path = p, hr_query = (\<lambda>_. []), hr_body = Ok body\<rparr>"

lemma sample_boots: "boot_files sample_boot_env True ''mismatch'' sample_config_file sample_profiles_file = Ok sample_booted"
proof -
  have k: "keys_folded [''hotspot'']" "keys_folded [''enabled'']" "keys_folded []" by code_simp+
  have "dec_hotspot (JObj [(''enabled'', JBool False)]) = Some (c_hotspot zero_config)"
    by (simp add: dec_hotspot_def members_folded k) (simp add: zero_config_def)
  then have "dec_config sample_config_file = Some zero_config"
    by (simp add: dec_config_def sample_config_file_def members_folded k)
  moreover have "dec_profiles sample_profiles_file = Some \<lparr>pf_selected = [], pf_profiles = []\<rparr>"
    by (simp add: dec_profiles_def sample_profiles_file_def members_folded k)
  ultimately show ?thesis
    by (simp add: boot_files_def boot_def unmarshal_def sample_booted_def Let_def selected_profile_def sample_boot_env_def)
qed

lemma sample_server_inv: "server_inv sample_server"
  unfolding sample_server_def by (rule boot_inv [OF sample_boots])

theorem memory_and_files_agree_witness:
  "let s = run api_step sample_server
      [(api_sample_env, asking ''PATCH'' ''/api/v1/config'' (JObj [(''hotspot'', JObj [(''enabled'', JBool True)])]))] in
     map_option normalize_config (dec_config (sv_config_file s)) = Some (sv_config s) \<and> mirrors (sv_config s) (sv_state s)"
  using memory_and_files_agree [OF sample_boots, of "\<lambda>_. None"
      "[(api_sample_env, asking ''PATCH'' ''/api/v1/config'' (JObj [(''hotspot'', JObj [(''enabled'', JBool True)])]))]"]
  by (simp only: sample_server_def Let_def simp_thms)

theorem failed_request_changes_nothing_witness:
  "\<exists>m. snd (serve api_sample_env (asking ''GET'' ''/api/v1/control'' JNull) sample_server) =
     sample_server\<lparr>sv_files := (sv_files sample_server)(marker_name := m)\<rparr>"
proof -
  have "400 \<le> re_code (fst (serve api_sample_env (asking ''GET'' ''/api/v1/control'' JNull) sample_server))"
    by (simp add: serve_def asking_def handler_for_def routes_def control_handler_def)
  then show ?thesis by (rule failed_request_changes_nothing)
qed

theorem reading_requests_are_safe_witness:
  "\<exists>pf c. snd (serve api_sample_env (asking ''GET'' ''/api/v1/logs/core/clear'' JNull) sample_server) =
     sample_server\<lparr>sv_pf := pf, sv_ip := c\<rparr>"
  by (rule reading_requests_are_safe) (simp add: asking_def)

section \<open>Logs\<close>

text \<open>C28: a log that does not change meanwhile is served as its last 64 KiB, and
  completely if it is not longer.\<close>

theorem log_endpoint_serves_tail:
  "serve_log (Ok (length b)) None b =
     \<lparr>re_code = 200, re_type = ''text/plain; charset=utf-8'', re_body = Bytes (drop (length b - 65536) b)\<rparr> \<and>
   length (drop (length b - 65536) b) \<le> 65536"
  by (auto simp: serve_log_def max_log_read_def Let_def)

text \<open>A log cleared between the look at its size and the read is served as 64 KiB of zero bytes.\<close>

lemma cleared_log_served_as_zeros:
  "65536 < n \<Longrightarrow> re_body (serve_log (Ok n) None []) = Bytes (replicate 65536 0)"
  by (simp add: serve_log_def max_log_read_def)

section \<open>Old paths\<close>

text \<open>The paths of earlier versions are not refused: the pattern \<open>/\<close> answers them with the dashboard.\<close>

lemma old_paths_answer_200:
  "re_code (fst (serve env (asking ''GET'' ''/api/status'' JNull) s)) = 200"
  by (simp add: serve_def asking_def handler_for_def routes_def total_handlers_ok)

end
