(* ===== verification/ConfigRaces.thy ===== *)
theory ConfigRaces
  imports ApiContract
begin

text \<open>
  Overlapping requests that patch the configuration. The handler of \<open>/api/v1/config\<close> reads the configuration under
  \<open>configMu\<close>, writes the file outside it, stores the configuration under it again, and then updates the state: no lock
  is held from the first part to the last. A request is the point it has reached, \<open>patch_step\<close> runs its next part;
  a request that runs alone is \<open>config_handler\<close> (\<open>patch_alone\<close>). The file is written in one part here; the
  single file operations are interleaved in \<open>FileStore\<close>.
\<close>

section \<open>The parts of the handler\<close>

datatype patch_call =
    Reading config_patch
  | Writing config_patch config "string list" bool
  | Storing config_patch config "string list" bool
  | Publishing config_patch config "string list" bool
  | Answering config_patch config "string list" bool
  | Answered response

fun patch_step :: "api_env \<Rightarrow> patch_call \<Rightarrow> server \<Rightarrow> patch_call \<times> server" where
  "patch_step env (Reading req) s =
     (case apply_config_patch (sv_config s) req of
        Inl e \<Rightarrow> (Answered (write_v1_error 400 e), s)
      | Inr (next, changed, required) \<Rightarrow> (Writing req next changed required, s))"
| "patch_step env (Writing req next changed required) s =
     (case ev_save env of
        Some e \<Rightarrow> (Answered (write_v1_error 500 e), s)
      | None \<Rightarrow> (Storing req next changed required, write_config_file (normalize_config next) s))"
| "patch_step env (Storing req next changed required) s =
     (Publishing req next changed required, store_config (normalize_config next) s)"
| "patch_step env (Publishing req next changed required) s =
     (Answering req next changed required, publish_config (normalize_config next) s)"
| "patch_step env (Answering req next changed required) s =
     (Answered (write_v1_ok (update_json next (cp_restart req) (cp_restart req \<and> required) changed)),
      if cp_restart req \<and> required then spawn RestartTask s else s)"
| "patch_step env (Answered rs) s = (Answered rs, s)"

lemma patch_alone:
  assumes "hr_method r = ''PATCH''" "decoded env dec_patch r = Ok req"
  shows "((\<lambda>(c, s). patch_step env c s) ^^ 5) (Reading req, s) =
     (Answered (fst (config_handler env r s)), snd (config_handler env r s))"
  using assms by (simp add: numeral_eq_Suc config_handler_def save_runtime_config_def Let_def
      split: sum.split prod.split option.split)

section \<open>Two requests\<close>











section \<open>Instances\<close>




end
