(* ===== verification/FileStore.thy ===== *)
theory FileStore
  imports ByteIO
begin

text \<open>
  The files the daemon writes itself, \<open>config.json\<close> and \<open>profiles.json\<close>: \<open>saveConfig\<close> and \<open>saveProfiles\<close>
  (\<open>cmd/sshcustomd/main.go\<close>) write a temporary file beside the target and rename it. Names refer to
  inodes, so that an open descriptor follows its file through a rename, as on Linux. A call of
  \<open>saveConfig\<close> is the list of its file operations; an outcome says where it stops.
\<close>

section \<open>A directory\<close>

record disk =
  di_names :: "string \<Rightarrow> nat option"
  di_data :: "nat \<Rightarrow> byte list"
  di_next :: nat
  di_fds :: "nat \<Rightarrow> nat option"

definition content :: "disk \<Rightarrow> string \<Rightarrow> byte list option" where
  "content d p = map_option (di_data d) (di_names d p)"

text \<open>Descriptors are named by the call that holds them. A write starts at the beginning of the file.\<close>

datatype file_op = OpenTrunc nat string | WriteFd nat "byte list" | Rename string string

fun file_step :: "disk \<Rightarrow> file_op \<Rightarrow> disk" where
  "file_step d (OpenTrunc k p) =
     (case di_names d p of
        Some i \<Rightarrow> d\<lparr>di_data := (di_data d)(i := []), di_fds := (di_fds d)(k \<mapsto> i)\<rparr>
      | None \<Rightarrow> d\<lparr>di_names := (di_names d)(p \<mapsto> di_next d), di_data := (di_data d)(di_next d := []),
                 di_next := Suc (di_next d), di_fds := (di_fds d)(k \<mapsto> di_next d)\<rparr>)"
| "file_step d (WriteFd k b) =
     (case di_fds d k of
        Some i \<Rightarrow> d\<lparr>di_data := (di_data d)(i := b @ drop (length b) (di_data d i))\<rparr>
      | None \<Rightarrow> d)"
| "file_step d (Rename p q) =
     (case di_names d p of
        Some i \<Rightarrow> d\<lparr>di_names := (di_names d)(p := None, q := Some i)\<rparr>
      | None \<Rightarrow> d)"

section \<open>Saving\<close>

definition tmp_name :: "string \<Rightarrow> string" where
  "tmp_name p = p @ ''.tmp''"

text \<open>Where a save stops: nothing opened, some bytes written, no rename, or done.\<close>

datatype save_outcome = OpenFails string | WriteFails nat string | RenameFails string | Saved

definition save_ops :: "save_outcome \<Rightarrow> nat \<Rightarrow> string \<Rightarrow> byte list \<Rightarrow> file_op list" where
  "save_ops r k p b =
     (case r of
        OpenFails e \<Rightarrow> []
      | WriteFails n e \<Rightarrow> [OpenTrunc k (tmp_name p), WriteFd k (take n b)]
      | RenameFails e \<Rightarrow> [OpenTrunc k (tmp_name p), WriteFd k b]
      | Saved \<Rightarrow> [OpenTrunc k (tmp_name p), WriteFd k b, Rename (tmp_name p) p])"

definition save_error :: "save_outcome \<Rightarrow> string option" where
  "save_error r =
     (case r of OpenFails e \<Rightarrow> Some e | WriteFails n e \<Rightarrow> Some e | RenameFails e \<Rightarrow> Some e | Saved \<Rightarrow> None)"

definition save_file :: "save_outcome \<Rightarrow> nat \<Rightarrow> string \<Rightarrow> byte list \<Rightarrow> disk \<Rightarrow> string option \<times> disk" where
  "save_file r k p b d = (save_error r, run file_step d (save_ops r k p b))"

section \<open>A single save is atomic\<close>

text \<open>No two names for one inode, and fresh inodes are unnamed.\<close>

definition disk_wf :: "disk \<Rightarrow> bool" where
  "disk_wf d = ((\<forall>p q i. di_names d p = Some i \<and> di_names d q = Some i \<longrightarrow> p = q) \<and>
     (\<forall>p i. di_names d p = Some i \<longrightarrow> i < di_next d))"

lemma tmp_name_neq [simp]: "tmp_name p \<noteq> p" "p \<noteq> tmp_name p"
  by (simp_all add: tmp_name_def)

lemma disk_wf_step: "disk_wf d \<Longrightarrow> disk_wf (file_step d op)"
  by (cases op) (auto simp: disk_wf_def split: option.splits if_splits intro: less_SucI)

lemma content_other:
  assumes "disk_wf d" "q \<noteq> tmp_name p" "op = OpenTrunc k (tmp_name p)"
  shows "content (file_step d op) q = content d q"
proof (cases "di_names d (tmp_name p)")
  case None
  have "i \<noteq> di_next d" if "di_names d q = Some i" for i
    using assms(1) that unfolding disk_wf_def by (metis less_irrefl)
  with None assms(2,3) show ?thesis by (cases "di_names d q") (simp_all add: content_def)
next
  case (Some j)
  have "i \<noteq> j" if "di_names d q = Some i" for i
    using assms(1,2) that Some unfolding disk_wf_def by metis
  with Some assms(2,3) show ?thesis by (cases "di_names d q") (simp_all add: content_def)
qed

text \<open>The temporary file once it is open.\<close>

lemma opened_tmp:
  assumes "disk_wf d" "d' = file_step d (OpenTrunc k p)"
  shows "\<exists>i. di_names d' p = Some i \<and> di_fds d' k = Some i \<and> di_data d' i = [] \<and> disk_wf d'"
  using disk_wf_step [OF assms(1), of "OpenTrunc k p"] assms(2) by (auto split: option.splits)

lemma written_tmp:
  fixes k b
  assumes "disk_wf d" "q \<noteq> tmp_name p"
  defines "d' \<equiv> run file_step d [OpenTrunc k (tmp_name p), WriteFd k b]"
  shows "content d' (tmp_name p) = Some b" "content d' q = content d q" "disk_wf d'"
proof -
  define e where "e = file_step d (OpenTrunc k (tmp_name p))"
  obtain i where i: "di_names e (tmp_name p) = Some i" "di_fds e k = Some i" "di_data e i = []" "disk_wf e"
    using opened_tmp [OF assms(1), of e k "tmp_name p"] by (auto simp: e_def)
  have d': "d' = e\<lparr>di_data := (di_data e)(i := b)\<rparr>"
    using i by (simp add: d'_def e_def [symmetric] del: file_step.simps(1))
  show "content d' (tmp_name p) = Some b" using i by (simp add: d' content_def)
  have "j \<noteq> i" if "di_names e q = Some j" for j
    using i(1,4) that assms(2) unfolding disk_wf_def by metis
  then have "content d' q = content e q" by (cases "di_names e q") (simp_all add: d' content_def)
  also have "\<dots> = content d q" using content_other [OF assms(1,2) refl, of k] by (simp add: e_def)
  finally show "content d' q = content d q" .
  show "disk_wf d'" using i(4) by (simp add: d' disk_wf_def)
qed

lemma save_file_content:
  assumes "disk_wf d" "q \<noteq> tmp_name p"
  shows "content (snd (save_file r k p b d)) q = (if r = Saved \<and> q = p then Some b else content d q)"
proof (cases r)
  case Saved
  have ops: "save_ops r k p b = [OpenTrunc k (tmp_name p), WriteFd k b] @ [Rename (tmp_name p) p]"
    using Saved by (simp add: save_ops_def)
  note w = written_tmp [OF assms, of k b] written_tmp(2) [OF assms(1), of p p k b]
  define e where "e = run file_step d [OpenTrunc k (tmp_name p), WriteFd k b]"
  from w(1) obtain i where i: "di_names e (tmp_name p) = Some i" "di_data e i = b"
    by (auto simp: content_def e_def)
  have "snd (save_file r k p b d) = file_step e (Rename (tmp_name p) p)"
    unfolding save_file_def snd_conv ops run_append e_def by (simp only: run_Cons run_Nil)
  then have s: "snd (save_file r k p b d) = e\<lparr>di_names := (di_names e)(tmp_name p := None, p := Some i)\<rparr>"
    using i(1) by simp
  have e: "content e q = content d q" using w(2) by (simp only: e_def)
  have "content (snd (save_file r k p b d)) q = (if q = p then Some b else content e q)"
    using i assms(2) by (simp add: s content_def)
  with e Saved show ?thesis by simp
qed (use assms written_tmp(2) [OF assms, of k] in \<open>simp_all add: save_file_def save_ops_def del: file_step.simps\<close>)

lemma disk_wf_run: "disk_wf d \<Longrightarrow> disk_wf (run file_step d ops)"
  by (induction ops arbitrary: d) (auto intro: disk_wf_step)

lemma save_file_wf: "disk_wf d \<Longrightarrow> disk_wf (snd (save_file r k p b d))"
  by (simp add: save_file_def disk_wf_run)

definition sample_disk :: disk where
  "sample_disk = \<lparr>di_names = [''c'' \<mapsto> 0], di_data = (\<lambda>_. [1, 2, 3]), di_next = 1, di_fds = (\<lambda>_. None)\<rparr>"

lemma sample_disk_wf: "disk_wf sample_disk"
  by (simp add: sample_disk_def disk_wf_def)

text \<open>C24: wherever a save of \<open>config.json\<close> or \<open>profiles.json\<close> stops, by an error or by a
  crash, every file but the temporary one holds what it held before, unless the save succeeded:
  then the target holds exactly the new bytes. A torn file is never left behind.\<close>

theorem save_is_atomic:
  assumes "disk_wf d" "q \<noteq> tmp_name p"
  shows "content (snd (save_file r k p b d)) q = (if fst (save_file r k p b d) = None \<and> q = p then Some b else content d q)"
  using save_file_content [OF assms, of r k b] by (cases r) (simp_all add: save_file_def save_error_def)

theorem save_is_atomic_witness:
  "content (snd (save_file (WriteFails 1 ''disk full'') 0 ''c'' [7, 8] sample_disk)) ''c'' = Some [1, 2, 3] \<and>
   content (snd (save_file Saved 0 ''c'' [7] sample_disk)) ''c'' = Some [7]"
  using save_is_atomic [OF sample_disk_wf tmp_name_neq(2) [of "''c''"], of "WriteFails 1 ''disk full''" 0 "[7, 8]"]
    save_is_atomic [OF sample_disk_wf tmp_name_neq(2) [of "''c''"], of Saved 0 "[7]"]
  by (simp add: save_file_def save_error_def content_def sample_disk_def)

section \<open>Two overlapping saves\<close>

text \<open>Both calls use the same temporary name, and the handler of \<open>/api/v1/config\<close> takes no lock, so the three file operations
  of two saves can come in any order that keeps each save's own (\<open>shuffles\<close>). A rename that no longer finds the
  temporary file fails and changes nothing.\<close>

definition overlapping :: "string \<Rightarrow> byte list \<Rightarrow> byte list \<Rightarrow> file_op list set" where
  "overlapping p a b = shuffles (save_ops Saved 0 p a) (save_ops Saved 1 p b)"

definition one_of_both :: "byte list \<Rightarrow> byte list \<Rightarrow> byte list set" where
  "one_of_both a b = {a, b, a @ drop (length a) b, b @ drop (length b) a}"

lemma shuffles_Cons:
  "shuffles (x # xs) (y # ys) = (#) x ` shuffles xs (y # ys) \<union> (#) y ` shuffles (x # xs) ys"
  by simp

lemma overlap_tail:
  assumes "di_names e (tmp_name p) = Some i" "di_fds e k = Some i" "di_data e i = []" "disk_wf e" "k \<noteq> l"
    and "ops \<in> shuffles [WriteFd k a, Rename (tmp_name p) p] [OpenTrunc l (tmp_name p), WriteFd l b, Rename (tmp_name p) p]"
  shows "content (run file_step e ops) p \<in> Some ` one_of_both a b"
proof -
  have n: "di_next e \<noteq> i" using assms(1,4) unfolding disk_wf_def by (metis less_irrefl)
  show ?thesis using assms(6)
    by (auto simp: assms(1-3,5) n n [symmetric] assms(5) [symmetric] content_def one_of_both_def)
qed

text \<open>C25: two overlapping saves of one file, in whatever order their operations come, leave the
  file with the whole bytes of one of them, possibly followed by the tail of the other, which a reader that stops after the
  first JSON value does not see. But there are orders in which the first save has already reported success while the
  file is empty, and so it stays if the daemon dies before the second save writes; and orders that leave such a tail.\<close>

theorem overlapping_saves_outcomes:
  assumes "disk_wf d"
  shows "(\<lambda>ops. content (run file_step d ops) p) ` overlapping p a b \<subseteq> Some ` one_of_both a b \<and>
     (\<exists>ops rest. ops @ rest \<in> overlapping p a b \<and> filter (\<lambda>op. op = Rename (tmp_name p) p) ops \<noteq> [] \<and>
        content (run file_step d ops) p = Some []) \<and>
     Some (b @ drop (length b) a) \<in> (\<lambda>ops. content (run file_step d ops) p) ` overlapping p a b"
proof (intro conjI)
  let ?t = "tmp_name p"
  define e0 where "e0 = file_step d (OpenTrunc 0 ?t)"
  obtain i where i: "di_names e0 ?t = Some i" "di_fds e0 0 = Some i" "di_data e0 i = []" "disk_wf e0"
    using opened_tmp [OF assms, of e0 0 ?t] by (auto simp: e0_def)
  define e1 where "e1 = file_step d (OpenTrunc 1 ?t)"
  obtain j where j: "di_names e1 ?t = Some j" "di_fds e1 1 = Some j" "di_data e1 j = []" "disk_wf e1"
    using opened_tmp [OF assms, of e1 1 ?t] by (auto simp: e1_def)
  have o: "overlapping p a b =
      (#) (OpenTrunc 0 ?t) ` shuffles [WriteFd 0 a, Rename ?t p] [OpenTrunc 1 ?t, WriteFd 1 b, Rename ?t p] \<union>
      (#) (OpenTrunc 1 ?t) ` shuffles [WriteFd 1 b, Rename ?t p] [OpenTrunc 0 ?t, WriteFd 0 a, Rename ?t p]"
    unfolding overlapping_def save_ops_def save_outcome.case
    by (subst shuffles_Cons, subst shuffles_commutes [of "[OpenTrunc 0 ?t, WriteFd 0 a, Rename ?t p]" "[WriteFd 1 b, Rename ?t p]"])
      (rule refl)
  have s: "one_of_both b a = one_of_both a b" by (auto simp: one_of_both_def)
  show "(\<lambda>ops. content (run file_step d ops) p) ` overlapping p a b \<subseteq> Some ` one_of_both a b"
  proof (rule image_subsetI)
    fix ops
    assume "ops \<in> overlapping p a b"
    then consider rest where "ops = OpenTrunc 0 ?t # rest"
        "rest \<in> shuffles [WriteFd 0 a, Rename ?t p] [OpenTrunc 1 ?t, WriteFd 1 b, Rename ?t p]"
      | rest where "ops = OpenTrunc 1 ?t # rest"
        "rest \<in> shuffles [WriteFd 1 b, Rename ?t p] [OpenTrunc 0 ?t, WriteFd 0 a, Rename ?t p]"
      unfolding o by blast
    then show "content (run file_step d ops) p \<in> Some ` one_of_both a b"
    proof cases
      case 1
      have "run file_step d ops = run file_step e0 rest" by (simp only: 1(1) run_Cons e0_def)
      then show ?thesis using overlap_tail [OF i zero_neq_one 1(2)] by (simp only:)
    next
      case 2
      have "run file_step d ops = run file_step e1 rest" by (simp only: 2(1) run_Cons e1_def)
      then show ?thesis using overlap_tail [OF j one_neq_zero 2(2)] s by (simp only:)
    qed
  qed
  let ?q = "[OpenTrunc 0 ?t, WriteFd 0 a, OpenTrunc 1 ?t, Rename ?t p]"
  have "run file_step d ?q = run file_step e0 [WriteFd 0 a, OpenTrunc 1 ?t, Rename ?t p]"
    by (simp add: e0_def del: file_step.simps)
  then have "content (run file_step d ?q) p = Some []" using i by (simp add: content_def)
  moreover have "?q @ [WriteFd 1 b, Rename ?t p] \<in> overlapping p a b" by (simp add: overlapping_def save_ops_def)
  ultimately show "\<exists>ops rest. ops @ rest \<in> overlapping p a b \<and> filter (\<lambda>op. op = Rename ?t p) ops \<noteq> [] \<and>
        content (run file_step d ops) p = Some []"
    by (intro exI [of _ ?q] exI [of _ "[WriteFd 1 b, Rename ?t p]"]) simp
  let ?u = "[OpenTrunc 0 ?t, OpenTrunc 1 ?t, WriteFd 0 a, Rename ?t p, WriteFd 1 b, Rename ?t p]"
  have "run file_step d ?u = run file_step e0 [OpenTrunc 1 ?t, WriteFd 0 a, Rename ?t p, WriteFd 1 b, Rename ?t p]"
    by (simp add: e0_def del: file_step.simps)
  then have "content (run file_step d ?u) p = Some (b @ drop (length b) a)" using i by (simp add: content_def)
  moreover have "?u \<in> overlapping p a b" by (simp add: overlapping_def save_ops_def)
  ultimately show "Some (b @ drop (length b) a) \<in> (\<lambda>ops. content (run file_step d ops) p) ` overlapping p a b"
    by (metis (mono_tags, lifting) imageI)
qed

theorem overlapping_saves_outcomes_witness:
  "\<exists>ops rest. ops @ rest \<in> overlapping ''c'' [1, 2, 3, 4] [9] \<and> filter (\<lambda>op. op = Rename (tmp_name ''c'') ''c'') ops \<noteq> [] \<and>
     content (run file_step sample_disk ops) ''c'' = Some []"
  using overlapping_saves_outcomes [OF sample_disk_wf, of "''c''" "[1, 2, 3, 4]" "[9]"] by blast

end
