(* ===== verification/Spec2Isabelle.thy ===== *)
theory Spec2Isabelle
  imports Tunnel Streams DnsForward Transport TunnelRaces EventBus TunnelSpec ConfigRaces FileStore
begin

text \<open>
  Verification of \<open>sshcustomd\<close>, the daemon of SSHCustom-Magisk: a Go program (about 5000 lines under
  \<open>src/cmd/sshcustomd\<close> and \<open>src/internal\<close>) that keeps an SSH connection over a payload, an HTTP proxy or TLS, redirects the
  device's TCP and DNS traffic into it with iptables, and is controlled by a local HTTP API.

  * The program and its parts

  \<open>main\<close> runs one of four commands; \<open>run\<close> reads \<open>config.json\<close> and \<open>profiles.json\<close>, serves the API and starts the tunnel.
  \<open>startTunnel\<close> spawns \<open>tunnelLoop\<close>, which opens a carrier to the server of the selected profile, authenticates,
  starts the listeners and installs the iptables rules on the first connect, and reconnects with the rules in place. The
  SOCKS listener, the transparent listener and the DNS forwarder take their streams through the current SSH client. API
  handlers patch the configuration, edit the profiles, and start, stop or restart the tunnel. All parts
  report into the one \<open>State\<close>, whose changes wake the event streams.

  * Theories and the code they model

    - \<open>GoPrelude\<close>, \<open>GoStrings\<close>, \<open>GoNet\<close>: results with an error, runs of a step function with the locale of its
      invariants, and the functions of the packages strings, strconv and net that the daemon calls.
    - \<open>Profiles\<close> (\<open>main.go\<close>: \<open>selectedProfile\<close>, \<open>selectProfileByID\<close>, \<open>upsertProfile\<close>, \<open>buildTransport\<close>, \<open>slugify\<close>, ...): the profile
      store as a value; \<open>store_inv\<close> is its invariant (unique identifiers, at most one selected).
    - \<open>DaemonConfig\<close> (\<open>main.go\<close>: \<open>Config\<close>, \<open>normalizeConfig\<close>, \<open>applyConfigPatch\<close>, listener addresses, the loop guard).
    - \<open>Json\<close>, \<open>Codec\<close> (struct tags of \<open>main.go\<close> and \<open>internal/apiv1/contracts.go\<close>): the JSON form of files and requests.
    - \<open>FileStore\<close> (\<open>saveConfig\<close>, \<open>saveProfiles\<close>): temporary file and rename over inodes and open descriptors.
    - \<open>Dnsx\<close> (\<open>internal/dnsx/dnsx.go\<close>): server lists, the host cache, parallel and shell resolution.
    - \<open>Netfilter\<close>, \<open>NetfilterRules\<close> (\<open>internal/iptables/iptables.go\<close>): the commands of \<open>Apply\<close> and \<open>Cleanup\<close> run by an
      executor parameter; \<open>documented\<close> states what iptables does with them, and \<open>sim_exec\<close> is a firewall that satisfies it.
    - \<open>Tunnel\<close>, \<open>TunnelSpec\<close> (\<open>engine.go\<close>: \<open>tunnelLoop\<close>, \<open>keepAlive\<close>, \<open>classifyDisconnect\<close>): the connection manager as a step
      relation over the answers of its selects and what other goroutines write meanwhile, and the automaton it refines.
    - \<open>ByteIO\<close>, \<open>Socks\<close>, \<open>Streams\<close>, \<open>DnsForward\<close> (\<open>main.go\<close>, \<open>engine.go\<close>, \<open>originaldst_linux.go\<close>): connections as the bytes to
      come, the writes made and the errors; the SOCKS5 server and client, the stream handlers, \<open>pipeBoth\<close>, DNS over TCP.
    - \<open>Payload\<close>, \<open>Transport\<close> (\<open>main.go\<close>: \<open>renderPayload\<close>, \<open>openPreparedSSHConn\<close>, \<open>attemptTransport\<close>, \<open>attemptSSHAuth\<close>, ...).
    - \<open>Lifecycle\<close>, \<open>TunnelRaces\<close> (\<open>main.go\<close>: \<open>startTunnel\<close>, \<open>stopTunnel\<close>, the auto-restart, the shutdown): the closures as
      compositions of their single accesses, run without interruption in \<open>Lifecycle\<close> and interleaved in \<open>TunnelRaces\<close>.
    - \<open>EventBus\<close> (\<open>main.go\<close>: \<open>State.set\<close>, \<open>Subscribe\<close>, \<open>broadcast\<close>, the event stream).
    - \<open>Metrics\<close> (\<open>internal/metrics/metrics.go\<close>), \<open>Status\<close> (\<open>State\<close>, \<open>Snapshot\<close>, summaries, diagnostics), \<open>PublicIP\<close>
      (\<open>lookupPublicIPs\<close>), \<open>Startup\<close> (\<open>main\<close>, \<open>validate\<close>, \<open>probeCLI\<close>, \<open>routeInfo\<close>, \<open>tuneTCPConn\<close>, \<open>internal/webui/webui.go\<close>).
    - \<open>ApiServer\<close>, \<open>ApiContract\<close>, \<open>ConfigRaces\<close> (\<open>main.go\<close>: the handlers of \<open>run\<close>, \<open>withCORS\<close>, \<open>serveLog\<close>): each handler as a
      function of a request and the shared state, what the API as a whole promises when requests are served one after
      the other, and the handler of the configuration interleaved with itself.

  * How state and operations correspond

  A Go struct is a record with a field per Go field; a mutex-protected critical section is one function on
  the state, or one step where sections interleave. A call that returns an error is a \<open>result\<close>, or a pair of an optional error and the
  new state where the code changes the state before it fails. Calls into the outside
  world (commands, sockets, clocks, the resolver, the SSH library, file errors) are arguments of the definitions or
  fields of an environment record. Durations are in nanoseconds as in package time. Integers are unbounded except where
  the code's width matters: ticks and addresses are words, JSON numbers and \<open>Atoi\<close> have the range of \<open>int64\<close>.

  * What the lemmas show

  Each component has its invariant, kept by every operation through the locale \<open>step_invariant\<close> (interpreted as
  \<open>store\<close>, \<open>cache_hist\<close>, \<open>resolver\<close>, \<open>conf\<close>, \<open>bus\<close>, \<open>api\<close>), and theorems on what its operations compute on every branch. Across
  components: the firewall is restored when the tunnel ends, rules stay up across reconnects, the loop refines the
  automaton of \<open>TunnelSpec\<close>, streams fail closed without a client, the two files and memory agree from the
  start of the daemon on through any history of requests served one after the other, a failed request changes
  nothing, and, in this theory, a saved profile survives a restart of the daemon. Some theorems state
  behaviour of the code that is hardly meant: \<open>slow_stop_loses_restart\<close>, \<open>stop_during_start_is_undone\<close>,
  \<open>overlapping_starts_run_two_tunnels\<close>, \<open>overlapping_saves_outcomes\<close>, \<open>overlapping_patches_lose_one\<close>, \<open>failed_apply_is_final\<close>.

  The firewall theorems rest on \<open>documented\<close>, and on three facts about the device that they name: the kernel accepts
  the rules (\<open>installable\<close>), nothing of this module and no bare \<open>-j ACCEPT\<close> in FORWARD is in the firewall before
  (\<open>pristine\<close>), and the ports, the prefix and the hotspot settings are not patched while the loop runs.

  * Bounds and fuel

  Recursion is structural or has a termination proof; loops without a bound (the tunnel, the pumps, the
  event stream) are step relations or consume a list of the answers they get. The wait for a client
  in \<open>DnsForward\<close> and \<open>Streams\<close> counts its polls as the code does; \<open>next_free\<close> of \<open>Profiles\<close> stops at 10000 like the
  code, and theorems that need a free identifier ask for fewer than 9999 profiles.

  * What is not modelled

  The text syntax of JSON and HTTP, TLS and the SSH protocol with its vendored library (parameters with the
  outcomes the code distinguishes), goroutine scheduling beyond the interleavings of \<open>Tunnel\<close>, \<open>Lifecycle\<close>,
  \<open>TunnelRaces\<close>, \<open>EventBus\<close>, \<open>FileStore\<close> and \<open>ConfigRaces\<close>, rounding of floating point numbers, non-ASCII letters and spaces, flag parsing and
  logging, the shell scripts and the JavaScript of the module. Strings are lists of bytes; the JSON encoder's
  replacement of invalid UTF-8 is ignored.
\<close>

section \<open>A profile saved through the API\<close>

text \<open>The handler of \<open>/api/v1/profile/save\<close>, the profile store, the JSON form of the file, and the start of the daemon
  together.\<close>

lemma handler_for_save: "handler_for env ''/api/v1/profile/save'' = save_handler env"
  by (simp add: handler_for_def routes_def)

lemma edit_succeeds:
  assumes "server_inv s" "fst (edit_profiles env f s) = None"
  shows "fst (f (sv_pf s)) = None \<and> sv_pf (snd (edit_profiles env f s)) = snd (f (sv_pf s))"
  using assms(2) unfolding edit_profiles_def load_in_sync [OF assms(1)]
  by (cases "f (sv_pf s)") (auto split: option.splits)

lemma upsert_accepts: "fst (upsert_profile now pf req) = None \<Longrightarrow> request_valid req"
  by (auto simp: upsert_profile_def request_valid_def Let_def split: if_splits)

lemma save_succeeds:
  assumes "server_inv s" "hr_method r = ''POST''" "decoded env dec_save_request r = Ok req"
    "re_code (fst (save_handler env r s)) = 200"
  shows "request_valid req \<and>
     sv_pf (snd (save_handler env r s)) = snd (upsert_profile (ev_now env) (sv_pf s) req)"
proof -
  let ?es = "edit_profiles env (\<lambda>pf. upsert_profile (ev_now env) pf req) s"
  have "fst ?es = None"
    using assms(2-4) by (cases ?es; cases "fst ?es") (auto simp: save_handler_def after_edit_def)
  with edit_succeeds [OF assms(1) this] show ?thesis
    using assms(2,3) upsert_accepts
    by (cases ?es) (auto simp: save_handler_def after_edit_def spawn_def)
qed

text \<open>C19: a daemon that has started on two files it can read has served any history of requests, one
  after the other; with fewer than 9999 profiles stored, it then answers a save that selects its profile with success. Then
  the files it leaves pass \<open>sshcustomd validate\<close>, and a daemon started on them afterwards comes up with the
  configuration and exactly the profiles the API holds in memory, with the saved profile as the active one, which
  can be dialled.\<close>

theorem saved_profile_survives_restart:
  assumes "boot_files benv idle mm config_file profiles_file = Ok b"
    and "s = run api_step (booted_server b config_file profiles_file files) es"
    and "hr_method r = ''POST''" "hr_path r = ''/api/v1/profile/save''"
    and "decoded env dec_save_request r = Ok req" "rq_select req" "length (pf_profiles (sv_pf s)) < 9999"
    and "re_code (fst (serve env r s)) = 200"
  defines "s' \<equiv> snd (serve env r s)"
  shows "\<exists>j b' sp h port. sv_profiles_file s' = Ok j \<and>
     ex_code (validate (unmarshal id mm' dec_config (Ok (sv_config_file s'))) (unmarshal id mm' dec_profiles (Ok j))) = 0 \<and>
     boot_files benv' idle' mm' (sv_config_file s') j = Ok b' \<and>
     bt_config b' = sv_config s' \<and> bt_profiles b' = sv_pf s' \<and>
     selected_profile (bt_profiles b') = Some sp \<and> p_id sp = request_id (ev_now env) (sv_pf s) req \<and>
     dial_endpoint sp = Ok (h, port) \<and> h \<noteq> [] \<and> 0 < port"
proof -
  have i0: "server_inv s" unfolding assms(2) by (rule api.run_inv_every [OF boot_inv [OF assms(1)]]) simp
  have sv: "serve env r s = save_handler env r s"
    using assms(3,4) by (simp add: serve_def handler_for_save)
  have i: "server_inv s'" unfolding s'_def by (rule serve_keeps [OF i0])
  have v: "request_valid req" "sv_pf s' = snd (upsert_profile (ev_now env) (sv_pf s) req)"
    using save_succeeds [OF i0 assms(3,5)] assms(8) unfolding s'_def sv by simp_all
  from upsert_then_usable [OF assms(7) v(1) assms(6), of "ev_now env"] obtain sp h port where
    sp: "selected_profile (sv_pf s') = Some sp" "p_id sp = request_id (ev_now env) (sv_pf s) req"
      "validate_profiles (sv_pf s') = None" "dial_endpoint sp = Ok (h, port)" "h \<noteq> []" "0 < port"
    unfolding v(2) by auto
  from i obtain c j where c: "dec_config (sv_config_file s') = Some c" "normalize_config c = sv_config s'"
      "sv_profiles_file s' = Ok j" "dec_profiles j = Some (sv_pf s')"
    by (cases "sv_profiles_file s'") (auto simp: server_inv_def)
  have "ex_code (validate (unmarshal id mm' dec_config (Ok (sv_config_file s'))) (unmarshal id mm' dec_profiles (Ok j))) = 0"
    using c sp(3) by (simp add: validate_def unmarshal_def done_with_def)
  moreover obtain b' where "boot_files benv' idle' mm' (sv_config_file s') j = Ok b'" "bt_config b' = sv_config s'"
      "bt_profiles b' = sv_pf s'"
    using c sp(1) by (auto simp: boot_files_def boot_def unmarshal_def Let_def)
  ultimately show ?thesis using sp c(3) by auto
qed

text \<open>A save of a new profile, as the dashboard sends it.\<close>

definition save_body :: json where
  "save_body = JObj [(''name'', JStr ''My VPN''), (''select'', JBool True), (''ssh'', enc_ssh (rq_ssh sample_request)),
     (''transport'', JObj [(''mode'', JStr ''http_proxy_tls_sni''), (''payload'', enc_payload (rq_payload sample_request))])]"

lemma save_body_keys: "keys_folded [''name'', ''select'', ''ssh'', ''transport'']" "keys_folded [''mode'', ''payload'']"
  by code_simp+

lemma dec_save_body: "dec_save_request save_body = Some sample_request"
proof -
  have "dec_ssh (enc_ssh (rq_ssh sample_request)) = Some (rq_ssh sample_request)"
    by (rule dec_enc_ssh) (simp add: sample_request_def int64_def)
  moreover have "dec_payload (enc_payload (rq_payload sample_request)) = Some (rq_payload sample_request)"
    by (rule dec_enc_payload) (simp add: sample_request_def)
  ultimately show ?thesis
    by (simp add: dec_save_request_def save_body_def members_folded save_body_keys dec_request_transport_def)
      (simp add: sample_request_def)
qed

lemma sample_request_valid: "request_valid sample_request"
  by (simp add: request_valid_def sample_request_def normalize_mode_def to_lower_def trim_space_def
      trim_with_def is_space_def lower_char_def is_upper_def)

lemma save_answers:
  assumes "server_inv s" "hr_method r = ''POST''" "decoded env dec_save_request r = Ok req" "request_valid req" "ev_save env = None"
  shows "re_code (fst (save_handler env r s)) = 200"
  using assms(2-5) load_in_sync [OF assms(1), of env]
  by (simp add: save_handler_def edit_profiles_def upsert_valid after_edit_def)

theorem saved_profile_survives_restart_witness:
  "\<exists>j b. sv_profiles_file (snd (serve api_sample_env (asking ''POST'' ''/api/v1/profile/save'' save_body) sample_server)) = Ok j \<and>
     boot_files sample_boot_env False ''mismatch''
       (sv_config_file (snd (serve api_sample_env (asking ''POST'' ''/api/v1/profile/save'' save_body) sample_server))) j = Ok b"
proof -
  let ?r = "asking ''POST'' ''/api/v1/profile/save'' save_body"
  have r: "hr_method ?r = ''POST''" "hr_path ?r = ''/api/v1/profile/save''"
    by (simp_all add: asking_def)
  have d: "decoded api_sample_env dec_save_request ?r = Ok sample_request"
    by (simp add: decoded_def unmarshal_def asking_def dec_save_body)
  have "re_code (fst (save_handler api_sample_env ?r sample_server)) = 200"
    by (rule save_answers [OF sample_server_inv r(1) d sample_request_valid]) (simp add: api_sample_env_def)
  then have c: "re_code (fst (serve api_sample_env ?r sample_server)) = 200"
    using r by (simp add: serve_def handler_for_save)
  have s: "sample_server = run api_step (booted_server sample_booted sample_config_file sample_profiles_file (\<lambda>_. None)) []"
    by (simp add: sample_server_def)
  have m: "rq_select sample_request" "length (pf_profiles (sv_pf sample_server)) < 9999"
    by (simp_all add: sample_request_def sample_server_def booted_server_def sample_booted_def Let_def)
  from saved_profile_survives_restart [OF sample_boots s r d m c, of "''mismatch''" sample_boot_env False]
  show ?thesis by blast
qed

end
